(* ===== verification/Prelude.thy ===== *)
theory Prelude
  imports Main "HOL-Library.Word" "HOL-Library.Signed_Division"
begin

text \<open>
  The vocabulary every component shares: C pointers, the ways a C program can stop, the
  state-and-stop commands the C functions are translated into, loops, weakest preconditions,
  and singly linked chains in a heap.
\<close>

unbundle bit_operations_syntax

section \<open>Pointers, masks and ways to stop\<close>

text \<open>A pointer is an address or NULL (\<open>None\<close>). A function pointer is a code address.\<close>

type_synonym ptr = "nat option"
type_synonym fnptr = nat
type_synonym mask = "32 word"

text \<open>
  What ends a run before the function returns: \<open>exit(n)\<close>, or one of the undefined behaviours
  of C the model tracks. \<open>OutOfFuel\<close> is not a behaviour of the code: it says a loop of the
  model was given too small a bound.
\<close>

datatype halt =
    Exit int
  | NullDeref
  | UseAfterFree
  | OutOfBounds
  | BadCall
  | DivByZero
  | IntOverflow
  | OutOfFuel

definition undefined_behaviour :: "halt \<Rightarrow> bool" where
  "undefined_behaviour h \<longleftrightarrow> (case h of Exit _ \<Rightarrow> False | _ \<Rightarrow> True)"

section \<open>Commands\<close>

text \<open>A C function is a command: from a state, it halts or returns a value and a new state.\<close>

type_synonym ('s, 'a) cmd = "'s \<Rightarrow> halt + ('a \<times> 's)"

definition ret :: "'a \<Rightarrow> ('s, 'a) cmd" where
  "ret x s = Inr (x, s)"

definition stop_with :: "halt \<Rightarrow> ('s, 'a) cmd" where
  "stop_with h s = Inl h"

definition bnd :: "('s, 'a) cmd \<Rightarrow> ('a \<Rightarrow> ('s, 'b) cmd) \<Rightarrow> ('s, 'b) cmd" where
  "bnd m f s = (case m s of Inl h \<Rightarrow> Inl h | Inr (x, s') \<Rightarrow> f x s')"

definition thn :: "('s, 'a) cmd \<Rightarrow> ('s, 'b) cmd \<Rightarrow> ('s, 'b) cmd" where
  "thn m n = bnd m (\<lambda>_. n)"

definition gets :: "('s \<Rightarrow> 'a) \<Rightarrow> ('s, 'a) cmd" where
  "gets f s = Inr (f s, s)"

definition modify :: "('s \<Rightarrow> 's) \<Rightarrow> ('s, unit) cmd" where
  "modify f s = Inr ((), f s)"

definition when_do :: "bool \<Rightarrow> ('s, unit) cmd \<Rightarrow> ('s, unit) cmd" where
  "when_do b m = (if b then m else ret ())"

text \<open>\<open>for (j = 0; j < n; j++)\<close>, and loops over a fixed list.\<close>

fun for_each :: "'x list \<Rightarrow> ('x \<Rightarrow> ('s, unit) cmd) \<Rightarrow> ('s, unit) cmd" where
  "for_each [] f = ret ()"
| "for_each (x # xs) f = thn (f x) (for_each xs f)"

text \<open>
  A \<open>while\<close> loop whose body either continues with new loop variables (\<open>Inl\<close>) or leaves
  the loop (\<open>Inr\<close>), unrolled at most \<open>fuel\<close> times.
\<close>

fun loop :: "nat \<Rightarrow> ('x \<Rightarrow> ('s, 'x + 'a) cmd) \<Rightarrow> 'x \<Rightarrow> ('s, 'a) cmd" where
  "loop 0 body x = stop_with OutOfFuel"
| "loop (Suc fuel) body x =
     bnd (body x) (\<lambda>r. case r of Inl x' \<Rightarrow> loop fuel body x' | Inr a \<Rightarrow> ret a)"

section \<open>Weakest preconditions\<close>

text \<open>
  \<open>wp m Q E s\<close>: run from \<open>s\<close>, \<open>m\<close> returns with \<open>Q\<close> or halts in a way \<open>E\<close> allows.
  With \<open>E = (\<lambda>_. False)\<close> the command returns.
\<close>

definition wp :: "('s, 'a) cmd \<Rightarrow> ('a \<Rightarrow> 's \<Rightarrow> bool) \<Rightarrow> (halt \<Rightarrow> bool) \<Rightarrow> 's \<Rightarrow> bool" where
  "wp m Q E s = (case m s of Inl h \<Rightarrow> E h | Inr (x, s') \<Rightarrow> Q x s')"

named_theorems wp_simps \<open>weakest preconditions of the command combinators\<close>
named_theorems wp_rules \<open>weakest precondition rules of the operations\<close>

lemma wp_ret [simp, wp_simps]: "wp (ret x) Q E s = Q x s"
  by (simp add: wp_def ret_def)

lemma wp_stop_with [simp, wp_simps]: "wp (stop_with h) Q E s = E h"
  by (simp add: wp_def stop_with_def)

lemma wp_ret_fun [simp]: "wp (ret x) Q E = Q x"
  by (simp add: fun_eq_iff)

lemma wp_stop_with_fun [simp]: "wp (stop_with h) Q E = (\<lambda>s. E h)"
  by (simp add: fun_eq_iff)

lemma wp_bnd [simp, wp_simps]: "wp (bnd m f) Q E s = wp m (\<lambda>x. wp (f x) Q E) E s"
  by (simp add: wp_def bnd_def split: sum.splits prod.splits)

lemma wp_thn [simp, wp_simps]: "wp (thn m n) Q E s = wp m (\<lambda>_. wp n Q E) E s"
  by (simp add: thn_def)

lemma wp_bnd_fun: "wp (bnd m f) Q E = wp m (\<lambda>x. wp (f x) Q E) E"
  by (simp add: fun_eq_iff)

lemma wp_thn_fun: "wp (thn m n) Q E = wp m (\<lambda>_. wp n Q E) E"
  by (simp add: fun_eq_iff)

lemma wp_gets [simp, wp_simps]: "wp (gets f) Q E s = Q (f s) s"
  by (simp add: wp_def gets_def)

lemma wp_modify [simp, wp_simps]: "wp (modify f) Q E s = Q () (f s)"
  by (simp add: wp_def modify_def)

lemma wp_when_do [simp, wp_simps]:
  "wp (when_do b m) Q E s = (if b then wp m Q E s else Q () s)"
  by (simp add: when_do_def)

lemma wp_when_do_fun: "wp (when_do b m) Q E = (if b then wp m Q E else Q ())"
  by (simp add: fun_eq_iff)

text \<open>The rules above for a command that is not yet applied to a state.\<close>

lemmas wp_funs = wp_bnd_fun wp_thn_fun wp_when_do_fun

lemma wp_mono:
  assumes "wp m Q E s" and "\<And>x t. Q x t \<Longrightarrow> Q' x t" and "\<And>h. E h \<Longrightarrow> E' h"
  shows "wp m Q' E' s"
  using assms by (auto simp: wp_def split: sum.splits prod.splits)

lemma wp_weaken: "wp m Q E s \<Longrightarrow> (\<And>x t. Q x t \<Longrightarrow> Q' x t) \<Longrightarrow> wp m Q' E s"
  by (rule wp_mono)

lemma wp_conj: "wp m Q E s \<Longrightarrow> wp m R E s \<Longrightarrow> wp m (\<lambda>x t. Q x t \<and> R x t) E s"
  by (auto simp: wp_def split: sum.splits prod.splits)

lemma wp_returns: "wp m Q (\<lambda>_. False) s \<longleftrightarrow> (\<exists>x t. m s = Inr (x, t) \<and> Q x t)"
  by (auto simp: wp_def split: sum.splits prod.splits)

lemma wp_result: "wp m Q E s \<Longrightarrow> m s = Inr (x, t) \<Longrightarrow> Q x t"
  by (simp add: wp_def)

lemma wp_halt: "wp m Q E s \<Longrightarrow> m s = Inl h \<Longrightarrow> E h"
  by (simp add: wp_def)

lemma wp_for_each:
  assumes "I s" and "\<And>x s. x \<in> set xs \<Longrightarrow> I s \<Longrightarrow> wp (f x) (\<lambda>_. I) E s"
  shows "wp (for_each xs f) (\<lambda>_. I) E s"
  using assms
proof (induction xs arbitrary: s)
  case (Cons x xs)
  have "wp (f x) (\<lambda>_. I) E s" using Cons.prems by simp
  then have "wp (f x) (\<lambda>_. wp (for_each xs f) (\<lambda>_. I) E) E s"
    by (rule wp_weaken) (rule Cons.IH, auto intro: Cons.prems(2))
  then show ?case by simp
qed simp

lemma for_each_append: "for_each (xs @ ys) f = thn (for_each xs f) (for_each ys f)"
  by (induction xs) (auto simp: thn_def bnd_def ret_def fun_eq_iff split: sum.splits)

text \<open>A command's execution, for evaluating closed runs.\<close>

lemmas run_defs = ret_def stop_with_def bnd_def thn_def gets_def modify_def when_do_def

section \<open>Chains\<close>

text \<open>
  A NULL-terminated singly linked list in a heap: \<open>h\<close> gives an allocated address its object,
  \<open>nx\<close> the object's \<open>next\<close> field. \<open>chain h nx p as\<close>: from \<open>p\<close> the list runs through
  exactly the allocated addresses \<open>as\<close>.
\<close>

fun chain :: "(nat \<Rightarrow> 'n option) \<Rightarrow> ('n \<Rightarrow> ptr) \<Rightarrow> ptr \<Rightarrow> nat list \<Rightarrow> bool" where
  "chain h nx p [] = (p = None)"
| "chain h nx p (a # as) =
     (p = Some a \<and> (case h a of None \<Rightarrow> False | Some n \<Rightarrow> chain h nx (nx n) as))"

text \<open>
  The loop \<open>while (cur) { if (test(cur)) { node = cur; break; } cur = cur->next; }\<close>,
  followed by \<open>return node\<close>.
\<close>

fun search_chain :: "nat \<Rightarrow> ('s \<Rightarrow> nat \<Rightarrow> 'n option) \<Rightarrow> ('n \<Rightarrow> ptr) \<Rightarrow> ('n \<Rightarrow> bool)
    \<Rightarrow> ptr \<Rightarrow> ('s, ptr) cmd" where
  "search_chain 0 h nx test cur = stop_with OutOfFuel"
| "search_chain (Suc fuel) h nx test cur =
     (case cur of
        None \<Rightarrow> ret None
      | Some a \<Rightarrow>
          bnd (gets (\<lambda>s. h s a)) (\<lambda>r.
            case r of
              None \<Rightarrow> stop_with UseAfterFree
            | Some n \<Rightarrow> if test n then ret (Some a) else search_chain fuel h nx test (nx n)))"

lemma chain_None [simp]: "chain h nx None as \<longleftrightarrow> as = []"
  by (cases as) auto

lemma chain_Some: "chain h nx (Some a) as \<longleftrightarrow>
    (\<exists>n bs. h a = Some n \<and> as = a # bs \<and> chain h nx (nx n) bs)"
  by (cases as) (auto split: option.splits)

lemma chain_alloc: "chain h nx p as \<Longrightarrow> a \<in> set as \<Longrightarrow> h a \<noteq> None"
  by (induction as arbitrary: p) (auto split: option.splits)

lemma chain_dom: "chain h nx p as \<Longrightarrow> set as \<subseteq> dom h"
  by (auto dest: chain_alloc)

lemma chain_cong:
  "(\<And>a. a \<in> set as \<Longrightarrow> map_option nx (h a) = map_option nx (h' a)) \<Longrightarrow>
   chain h nx p as = chain h' nx p as"
proof (induction as arbitrary: p)
  case (Cons a as)
  have "map_option nx (h a) = map_option nx (h' a)" using Cons.prems by simp
  moreover have "\<And>q. chain h nx q as = chain h' nx q as"
    using Cons.prems by (intro Cons.IH) simp
  ultimately show ?case by (cases "h a"; cases "h' a") simp_all
qed simp

lemma chain_upd_notin [simp]: "a \<notin> set as \<Longrightarrow> chain (h(a := x)) nx p as = chain h nx p as"
  by (rule chain_cong) auto

lemma chain_unique: "chain h nx p as \<Longrightarrow> chain h nx p bs \<Longrightarrow> as = bs"
proof (induction as arbitrary: p bs)
  case (Cons a as)
  then show ?case by (auto simp: chain_Some split: option.splits)
qed auto

lemma chain_append:
  "chain h nx p (as @ b # bs) \<Longrightarrow> chain h nx (Some b) (b # bs)"
proof (induction as arbitrary: p)
  case (Cons a as)
  then show ?case by (cases "h a") auto
qed simp

lemma chain_distinct: "chain h nx p as \<Longrightarrow> distinct as"
proof (induction as arbitrary: p)
  case (Cons a as)
  have "a \<notin> set as"
  proof
    assume "a \<in> set as"
    then obtain bs cs where as: "as = bs @ a # cs" by (auto simp: in_set_conv_decomp)
    with Cons.prems have "chain h nx (Some a) (a # cs)"
      by (metis append_Cons chain_append)
    with Cons.prems have "a # cs = a # as" by (metis chain.simps(2) chain_unique)
    with as show False by simp
  qed
  then show ?case using Cons by (auto split: option.splits)
qed simp

lemma search_chain_find:
  assumes "chain (h s) nx p as" and "length as < fuel"
  shows "search_chain fuel h nx test p s = Inr (find (\<lambda>a. test (the (h s a))) as, s)"
  using assms
proof (induction as arbitrary: p fuel)
  case Nil
  then show ?case by (cases fuel) (auto simp: run_defs)
next
  case (Cons a as)
  then show ?case by (cases fuel) (auto simp: run_defs split: option.splits)
qed

lemma wp_search:
  assumes "chain (h s) nx p as" and "length as < fuel"
  shows "wp (search_chain fuel h nx test p) Q E s = Q (find (\<lambda>a. test (the (h s a))) as) s"
proof -
  have "search_chain fuel h nx test p s = Inr (find (\<lambda>a. test (the (h s a))) as, s)"
    using assms by (rule search_chain_find)
  then show ?thesis by (simp add: wp_def)
qed

declare search_chain.simps [simp del] loop.simps [simp del]

lemma chain_bounded:
  assumes "chain h nx p as" and "dom h \<subseteq> {..<b}"
  shows "length as \<le> b"
proof -
  have "set as \<subseteq> {..<b}" using chain_dom [OF assms(1)] assms(2) by blast
  then have "card (set as) \<le> b" using card_mono [of "{..<b}" "set as"] by simp
  then show ?thesis using chain_distinct [OF assms(1)] by (simp add: distinct_card)
qed

end
