(* ===== verification/CLib.thy ===== *)
theory CLib
  imports Prelude
begin

text \<open>
  What the program uses of the C library's pure functions, on C strings (a \<open>char\<close> list
  without its terminator): \<open>isspace\<close> and \<open>strcasecmp\<close> in the C locale, \<open>atoi\<close>, \<open>strtok\<close>
  with the delimiter \<open>" "\<close>, bounded copies, \<open>fgets\<close>, and the truncating integer division.
\<close>

section \<open>Characters\<close>

definition NUL :: char where
  "NUL = CHR 0x00"

definition newline_char :: char where
  "newline_char = CHR 0x0A"

text \<open>The bytes of a buffer up to its first NUL.\<close>

definition cstr :: "string \<Rightarrow> string" where
  "cstr s = takeWhile (\<lambda>c. c \<noteq> NUL) s"

definition isspace :: "char \<Rightarrow> bool" where
  "isspace c \<longleftrightarrow> c \<in> set [CHR '' '', CHR 0x09, CHR 0x0A, CHR 0x0B, CHR 0x0C, CHR 0x0D]"

definition isdigit :: "char \<Rightarrow> bool" where
  "isdigit c \<longleftrightarrow> c \<in> set ''0123456789''"

definition tolower :: "char \<Rightarrow> char" where
  "tolower c =
     (case map_of (zip ''ABCDEFGHIJKLMNOPQRSTUVWXYZ'' ''abcdefghijklmnopqrstuvwxyz'') c of
        None \<Rightarrow> c
      | Some d \<Rightarrow> d)"

text \<open>\<open>strcasecmp(a, b) == 0\<close>\<close>

definition strcaseeq :: "string \<Rightarrow> string \<Rightarrow> bool" where
  "strcaseeq a b \<longleftrightarrow> map tolower a = map tolower b"

section \<open>Numbers\<close>

definition INT_MAX :: int where "INT_MAX = 2147483647"
definition INT_MIN :: int where "INT_MIN = - 2147483648"

text \<open>The value of an out-of-range number converted to \<open>int\<close>: its low 32 bits, signed.\<close>

definition to_int32 :: "int \<Rightarrow> int" where
  "to_int32 v = (v + 2147483648) mod 4294967296 - 2147483648"

fun digits_value :: "int \<Rightarrow> string \<Rightarrow> int" where
  "digits_value acc [] = acc"
| "digits_value acc (c # cs) =
     (if isdigit c then digits_value (acc * 10 + (of_char c - 48)) cs else acc)"

text \<open>\<open>strtol(s, NULL, 10)\<close>: white space, a sign, digits; the result saturates at 64 bits.\<close>

definition strtol10 :: "string \<Rightarrow> int" where
  "strtol10 s =
     (let t = dropWhile isspace s;
          v = (case t of
                 [] \<Rightarrow> 0
               | c # cs \<Rightarrow>
                   if c = CHR ''-'' then - digits_value 0 cs
                   else if c = CHR ''+'' then digits_value 0 cs
                   else digits_value 0 t)
      in max (- 9223372036854775808) (min 9223372036854775807 v))"

definition atoi :: "string \<Rightarrow> int" where
  "atoi s = to_int32 (strtol10 s)"

text \<open>
  C's \<open>a / b\<close> and \<open>a % b\<close> on \<open>int\<close> truncate towards zero; callers check \<open>b\<close> themselves.
\<close>

definition c_div :: "int \<Rightarrow> int \<Rightarrow> int" where
  "c_div a b = a sdiv b"

definition c_mod :: "int \<Rightarrow> int \<Rightarrow> int" where
  "c_mod a b = a smod b"

lemma to_int32_range: "INT_MIN \<le> to_int32 v \<and> to_int32 v \<le> INT_MAX"
proof -
  have "(v + 2147483648) mod 4294967296 < 4294967296" by simp
  then have "to_int32 v \<le> INT_MAX" unfolding to_int32_def INT_MAX_def by linarith
  then show ?thesis by (simp add: to_int32_def INT_MIN_def)
qed

lemma to_int32_id: "INT_MIN \<le> v \<Longrightarrow> v \<le> INT_MAX \<Longrightarrow> to_int32 v = v"
  by (simp add: to_int32_def INT_MIN_def INT_MAX_def)

lemma atoi_range: "INT_MIN \<le> atoi s \<and> atoi s \<le> INT_MAX"
  by (simp add: atoi_def to_int32_range)

section \<open>Tokens and copies\<close>

text \<open>The tokens that \<open>strtok(str, " ")\<close> and then \<open>strtok(NULL, " ")\<close> return, in order.\<close>

function strtok_tokens :: "string \<Rightarrow> string list" where
  "strtok_tokens s =
     (case dropWhile (\<lambda>c. c = CHR '' '') s of
        [] \<Rightarrow> []
      | t # ts \<Rightarrow>
          (t # takeWhile (\<lambda>c. c \<noteq> CHR '' '') ts)
            # strtok_tokens (dropWhile (\<lambda>c. c \<noteq> CHR '' '') ts))"
  by pat_completeness auto
termination
proof (relation "measure length", simp)
  fix s t and ts :: string
  assume eq: "dropWhile (\<lambda>c. c = CHR '' '') s = t # ts"
  have "length (dropWhile (\<lambda>c. c \<noteq> CHR '' '') ts) \<le> length ts"
    by (rule length_dropWhile_le)
  moreover have "length (t # ts) \<le> length s"
    using length_dropWhile_le [of "\<lambda>c. c = CHR '' ''" s] by (simp only: eq)
  ultimately show "(dropWhile (\<lambda>c. c \<noteq> CHR '' '') ts, s) \<in> measure length" by simp
qed

declare strtok_tokens.simps [simp del]

lemma strtok_tokens_token:
  "tok \<in> set (strtok_tokens s) \<Longrightarrow> tok \<noteq> [] \<and> CHR '' '' \<notin> set tok \<and> length tok \<le> length s"
proof (induction s rule: strtok_tokens.induct)
  case (1 s)
  show ?case
  proof (cases "dropWhile (\<lambda>c. c = CHR '' '') s")
    case Nil
    with "1.prems" show ?thesis by (simp add: strtok_tokens.simps [of s])
  next
    case (Cons t ts)
    let ?rest = "dropWhile (\<lambda>c. c \<noteq> CHR '' '') ts"
    have len: "length (t # ts) \<le> length s"
      using length_dropWhile_le [of "\<lambda>c. c = CHR '' ''" s] by (simp only: Cons)
    have tsp: "t \<noteq> CHR '' ''"
      using hd_dropWhile [of "\<lambda>c. c = CHR '' ''" s] Cons by simp
    from "1.prems" Cons
    have "tok = t # takeWhile (\<lambda>c. c \<noteq> CHR '' '') ts \<or> tok \<in> set (strtok_tokens ?rest)"
      by (simp add: strtok_tokens.simps [of s])
    then show ?thesis
    proof
      assume tok: "tok = t # takeWhile (\<lambda>c. c \<noteq> CHR '' '') ts"
      have "length tok \<le> length s"
        using len length_takeWhile_le [of "\<lambda>c. c \<noteq> CHR '' ''" ts] by (simp add: tok)
      with tok tsp show ?thesis by (auto dest: set_takeWhileD)
    next
      assume "tok \<in> set (strtok_tokens ?rest)"
      with "1.IH" [OF Cons] have "tok \<noteq> [] \<and> CHR '' '' \<notin> set tok \<and> length tok \<le> length ?rest"
        by simp
      with len length_dropWhile_le [of "\<lambda>c. c \<noteq> CHR '' ''" ts] show ?thesis by simp
    qed
  qed
qed

text \<open>The C string left in a buffer of \<open>size\<close> bytes by \<open>snprintf(dst, size, "%s", src)\<close>.\<close>

definition strlcpy :: "string \<Rightarrow> nat \<Rightarrow> string" where
  "strlcpy src sz = take (sz - 1) src"

text \<open>The conversion \<open>%d\<close>\<close>

fun show_nat :: "nat \<Rightarrow> string" where
  "show_nat n =
     (if n < 10 then [''0123456789'' ! n]
      else show_nat (n div 10) @ [''0123456789'' ! (n mod 10)])"

declare show_nat.simps [simp del]

definition show_int :: "int \<Rightarrow> string" where
  "show_int i = (if i < 0 then CHR ''-'' # show_nat (nat (- i)) else show_nat (nat i))"

section \<open>fgets\<close>

fun read_line :: "nat \<Rightarrow> string \<Rightarrow> string \<times> string" where
  "read_line 0 s = ([], s)"
| "read_line (Suc n) [] = ([], [])"
| "read_line (Suc n) (c # cs) =
     (if c = newline_char then ([c], cs)
      else (case read_line n cs of (l, r) \<Rightarrow> (c # l, r)))"

text \<open>\<open>fgets(buf, num, file)\<close>: the bytes stored before the terminator and the rest of the file.\<close>

definition fgets :: "nat \<Rightarrow> string \<Rightarrow> (string \<times> string) option" where
  "fgets num s = (if s = [] then None else Some (read_line (num - 1) s))"

lemma read_line_append: "read_line n s = (l, r) \<Longrightarrow> l @ r = s"
  by (induction n s arbitrary: l r rule: read_line.induct)
     (auto split: if_splits prod.splits)

lemma read_line_length: "read_line n s = (l, r) \<Longrightarrow> length l \<le> n"
  by (induction n s arbitrary: l r rule: read_line.induct)
     (auto split: if_splits prod.splits)

lemma read_line_nonempty: "0 < n \<Longrightarrow> s \<noteq> [] \<Longrightarrow> read_line n s = (l, r) \<Longrightarrow> l \<noteq> []"
  by (cases n; cases s) (auto split: if_splits prod.splits)

lemma read_line_newline:
  "newline_char \<notin> set l \<Longrightarrow> length l < n \<Longrightarrow> read_line n (l @ newline_char # r) = (l @ [newline_char], r)"
  by (induction l arbitrary: n) (case_tac n; auto)+

lemma fgets_shorter: "1 < num \<Longrightarrow> fgets num s = Some (l, r) \<Longrightarrow> length r < length s"
  using read_line_append read_line_nonempty [of "num - 1" s l r]
  by (fastforce simp: fgets_def split: if_splits)

end
