(* ===== verification/Kernel.thy ===== *)
theory Kernel
  imports CLib
begin

text \<open>
  The system calls the program makes. What the environment decides (does the call succeed, what
  bytes arrive, which descriptors are ready, what time it is) is read from a stream of answers, one reply
  per call, so a theorem about every state is a theorem about every environment. What POSIX and
  Linux fix is written out: a new descriptor is the lowest one not in use, a closed descriptor
  answers EBADF and leaves the epoll set, \<open>epoll_ctl\<close> refuses to add a member twice or to change a
  stranger, \<open>epoll_wait\<close> reports members only, each once, with the events asked for or
  EPOLLERR and EPOLLHUP. The calls with an effect outside the process are recorded in a trace.
\<close>

section \<open>Constants and structures of the system headers\<close>

abbreviation (input) EPOLLIN :: mask where "EPOLLIN \<equiv> 1"
abbreviation (input) EPOLLOUT :: mask where "EPOLLOUT \<equiv> 4"
abbreviation (input) EPOLLERR :: mask where "EPOLLERR \<equiv> 8"
abbreviation (input) EPOLLHUP :: mask where "EPOLLHUP \<equiv> 16"

abbreviation (input) POLLNVAL :: mask where "POLLNVAL \<equiv> 32"

abbreviation (input) ENOENT :: int where "ENOENT \<equiv> 2"
abbreviation (input) EBADF :: int where "EBADF \<equiv> 9"
abbreviation (input) EAGAIN :: int where "EAGAIN \<equiv> 11"
abbreviation (input) EFAULT :: int where "EFAULT \<equiv> 14"
abbreviation (input) EEXIST :: int where "EEXIST \<equiv> 17"
abbreviation (input) ERANGE :: int where "ERANGE \<equiv> 34"

abbreviation (input) ASYNC_SPD_MASK :: mask where "ASYNC_SPD_MASK \<equiv> 0x1030"
abbreviation (input) ASYNC_SPD_CUST :: mask where "ASYNC_SPD_CUST \<equiv> 0x0030"

datatype epoll_op = EPOLL_CTL_ADD | EPOLL_CTL_MOD | EPOLL_CTL_DEL

record termios =
  ispeed :: int
  ospeed :: int
  rawmode :: bool

record serial_struct =
  baud_base :: int
  ser_flags :: mask
  custom_divisor :: int

section \<open>Kernel state\<close>

text \<open>The environment's answer to one call; each call reads the fields it needs.\<close>

record reply =
  r_ok :: bool
  r_errno :: int
  r_data :: string
  r_num :: int
  r_ready :: "(int \<times> mask) list"
  r_sec :: int
  r_usec :: nat

datatype syscall =
    Opened string int
  | PtyOpened int int
  | Closed int
  | Received int string
  | Wrote int string
  | Removed string
  | Symlinked string string
  | Unlinked string
  | SetTermios int termios
  | SetSerial int serial_struct
  | Polled int
  | Slept nat
  | Logged string int string
  | Syslogged int string
  | NewSession
  | Printed int string    \<comment> \<open>on standard output (1) or standard error (2)\<close>

record kernel =
  answers :: "nat \<Rightarrow> reply"
  calls :: nat
  errno :: int
  fds :: "int list"
  interest :: "int \<Rightarrow> mask option"
  speeds :: "int list"    \<comment> \<open>the rates r for which <termios.h> defines Br\<close>
  strerror :: "int \<Rightarrow> string"
  trace :: "syscall list"

definition ask :: "('z kernel_scheme, reply) cmd" where
  "ask s = Inr (answers s (calls s), s\<lparr>calls := Suc (calls s)\<rparr>)"

definition set_errno :: "int \<Rightarrow> ('z kernel_scheme, unit) cmd" where
  "set_errno e = modify (\<lambda>s. s\<lparr>errno := e\<rparr>)"

definition emit :: "syscall \<Rightarrow> ('z kernel_scheme, unit) cmd" where
  "emit c = modify (\<lambda>s. s\<lparr>trace := trace s @ [c]\<rparr>)"

text \<open>Print a message and leave: the body of most error paths before the daemon runs.\<close>

definition exit_saying :: "int \<Rightarrow> string \<Rightarrow> int \<Rightarrow> ('z kernel_scheme, 'a) cmd" where
  "exit_saying fd msg status = thn (emit (Printed fd msg)) (stop_with (Exit status))"

text \<open>Fail with the environment's error number.\<close>

definition failing :: "reply \<Rightarrow> 'a \<Rightarrow> ('z kernel_scheme, 'a) cmd" where
  "failing r x = thn (set_errno (r_errno r)) (ret x)"

definition lowest_fd :: "int list \<Rightarrow> int" where
  "lowest_fd F = hd (filter (\<lambda>n. n \<notin> set F) (map int [0..<Suc (length F)]))"

lemma lowest_fd_fresh: "lowest_fd F \<notin> set F \<and> 0 \<le> lowest_fd F"
proof -
  let ?c = "map int [0..<Suc (length F)]"
  have "\<not> set ?c \<subseteq> set F"
  proof
    assume "set ?c \<subseteq> set F"
    then have "card (set ?c) \<le> card (set F)" by (rule card_mono [rotated]) simp
    moreover have "card (set ?c) = Suc (length F)"
      by (subst distinct_card) (simp_all add: distinct_map del: upt_Suc)
    ultimately show False using card_length [of F] by linarith
  qed
  then have "filter (\<lambda>n. n \<notin> set F) ?c \<noteq> []" by (auto simp: filter_empty_conv simp del: upt_Suc)
  then have "lowest_fd F \<in> set (filter (\<lambda>n. n \<notin> set F) ?c)"
    unfolding lowest_fd_def by (rule hd_in_set)
  then show ?thesis by (auto simp del: upt_Suc)
qed

section \<open>Descriptors\<close>

definition sys_open :: "string \<Rightarrow> ('z kernel_scheme, int) cmd" where
  "sys_open path =
     bnd ask (\<lambda>r.
       if r_ok r then
         bnd (gets (\<lambda>s. lowest_fd (fds s))) (\<lambda>fd.
           thn (modify (\<lambda>s. s\<lparr>fds := fd # fds s\<rparr>))
             (thn (emit (Opened path fd)) (ret fd)))
       else failing r (-1))"

text \<open>\<open>fopen(path, "r")\<close>: the descriptor and the file's content, or NULL.\<close>

definition sys_fopen_read :: "string \<Rightarrow> ('z kernel_scheme, (int \<times> string) option) cmd" where
  "sys_fopen_read path =
     bnd ask (\<lambda>r.
       if r_ok r then
         bnd (gets (\<lambda>s. lowest_fd (fds s))) (\<lambda>fd.
           thn (modify (\<lambda>s. s\<lparr>fds := fd # fds s\<rparr>))
             (thn (emit (Opened path fd)) (ret (Some (fd, r_data r)))))
       else failing r None)"

definition sys_close :: "int \<Rightarrow> ('z kernel_scheme, int) cmd" where
  "sys_close fd =
     bnd (gets (\<lambda>s. fd \<in> set (fds s))) (\<lambda>opened.
       if opened then
         thn (modify (\<lambda>s. s\<lparr>fds := remove1 fd (fds s), interest := (interest s)(fd := None)\<rparr>))
           (thn (emit (Closed fd)) (ret 0))
       else thn (set_errno EBADF) (ret (-1)))"

text \<open>\<open>openpty\<close>: the return value, the master and the slave descriptor.\<close>

definition sys_openpty :: "('z kernel_scheme, int \<times> int \<times> int) cmd" where
  "sys_openpty =
     bnd ask (\<lambda>r.
       if r_ok r then
         bnd (gets (\<lambda>s. lowest_fd (fds s))) (\<lambda>m.
         bnd (gets (\<lambda>s. lowest_fd (m # fds s))) (\<lambda>sl.
           thn (modify (\<lambda>s. s\<lparr>fds := sl # m # fds s\<rparr>))
             (thn (emit (PtyOpened m sl)) (ret (0, m, sl)))))
       else failing r (-1, -1, -1))"

text \<open>Run a call on an open descriptor; on any other it fails with EBADF.\<close>

definition on_fd :: "int \<Rightarrow> 'a \<Rightarrow> ('z kernel_scheme, 'a) cmd \<Rightarrow> ('z kernel_scheme, 'a) cmd" where
  "on_fd fd bad m =
     bnd (gets (\<lambda>s. fd \<in> set (fds s))) (\<lambda>opened.
       if opened then m else thn (set_errno EBADF) (ret bad))"

text \<open>\<open>read(fd, buf, n)\<close>: the return value and the bytes stored at \<open>buf\<close>.\<close>

definition sys_read :: "int \<Rightarrow> nat \<Rightarrow> ('z kernel_scheme, int \<times> string) cmd" where
  "sys_read fd n = on_fd fd (-1, [])
     (bnd ask (\<lambda>r.
       if r_ok r then
         thn (emit (Received fd (take n (r_data r))))
           (ret (int (length (take n (r_data r))), take n (r_data r)))
       else failing r (-1, [])))"

text \<open>\<open>write(fd, buf, n)\<close>, where \<open>buf\<close> is the \<open>n\<close> bytes given: a prefix is written.\<close>

definition sys_write :: "int \<Rightarrow> string \<Rightarrow> ('z kernel_scheme, int) cmd" where
  "sys_write fd buf = on_fd fd (-1)
     (bnd ask (\<lambda>r.
       if r_ok r then
         thn (emit (Wrote fd (take (nat (r_num r)) buf)))
           (ret (int (length (take (nat (r_num r)) buf))))
       else failing r (-1)))"

section \<open>Terminals\<close>

text \<open>\<open>isatty\<close> returns 1, or 0 with errno set; never -1.\<close>

definition sys_isatty :: "int \<Rightarrow> ('z kernel_scheme, int) cmd" where
  "sys_isatty fd = on_fd fd 0 (bnd ask (\<lambda>r. if r_ok r then ret 1 else failing r 0))"

definition sys_ttyname :: "int \<Rightarrow> ('z kernel_scheme, string option) cmd" where
  "sys_ttyname fd = on_fd fd None
     (bnd ask (\<lambda>r. if r_ok r then ret (Some (r_data r)) else failing r None))"

definition sys_tcgetattr :: "int \<Rightarrow> ('z kernel_scheme, int \<times> termios) cmd" where
  "sys_tcgetattr fd = on_fd fd (-1, \<lparr>ispeed = 0, ospeed = 0, rawmode = False\<rparr>)
     (bnd ask (\<lambda>r.
       if r_ok r then ret (0, \<lparr>ispeed = r_num r, ospeed = r_num r, rawmode = False\<rparr>)
       else failing r (-1, \<lparr>ispeed = 0, ospeed = 0, rawmode = False\<rparr>)))"

definition sys_tcsetattr :: "int \<Rightarrow> termios \<Rightarrow> ('z kernel_scheme, int) cmd" where
  "sys_tcsetattr fd ts = on_fd fd (-1)
     (bnd ask (\<lambda>r. if r_ok r then thn (emit (SetTermios fd ts)) (ret 0) else failing r (-1)))"

text \<open>\<open>ioctl(fd, TIOCGSERIAL, &ser)\<close> and \<open>ioctl(fd, TIOCSSERIAL, &ser)\<close>\<close>

definition sys_tiocgserial :: "int \<Rightarrow> ('z kernel_scheme, int \<times> serial_struct) cmd" where
  "sys_tiocgserial fd = on_fd fd (-1, \<lparr>baud_base = 0, ser_flags = 0, custom_divisor = 0\<rparr>)
     (bnd ask (\<lambda>r.
       if r_ok r then
         ret (0, \<lparr>baud_base = to_int32 (r_num r), ser_flags = of_int (r_errno r), custom_divisor = 0\<rparr>)
       else failing r (-1, \<lparr>baud_base = 0, ser_flags = 0, custom_divisor = 0\<rparr>)))"

definition sys_tiocsserial :: "int \<Rightarrow> serial_struct \<Rightarrow> ('z kernel_scheme, int) cmd" where
  "sys_tiocsserial fd ser = on_fd fd (-1)
     (bnd ask (\<lambda>r. if r_ok r then thn (emit (SetSerial fd ser)) (ret 0) else failing r (-1)))"

section \<open>File names\<close>

definition sys_remove :: "string \<Rightarrow> ('z kernel_scheme, int) cmd" where
  "sys_remove path =
     bnd ask (\<lambda>r. if r_ok r then thn (emit (Removed path)) (ret 0) else failing r (-1))"

definition sys_symlink :: "string option \<Rightarrow> string \<Rightarrow> ('z kernel_scheme, int) cmd" where
  "sys_symlink target path =
     (case target of
        None \<Rightarrow> thn (set_errno EFAULT) (ret (-1))
      | Some t \<Rightarrow>
          bnd ask (\<lambda>r. if r_ok r then thn (emit (Symlinked t path)) (ret 0) else failing r (-1)))"

definition sys_unlink :: "string option \<Rightarrow> ('z kernel_scheme, int) cmd" where
  "sys_unlink path =
     (case path of
        None \<Rightarrow> thn (set_errno EFAULT) (ret (-1))
      | Some p \<Rightarrow>
          bnd ask (\<lambda>r. if r_ok r then thn (emit (Unlinked p)) (ret 0) else failing r (-1)))"

section \<open>Time and memory\<close>

text \<open>\<open>gettimeofday\<close> returns 0: its only error is a bad address, and callers pass good ones.\<close>

definition sys_gettimeofday :: "('z kernel_scheme, int \<times> int) cmd" where
  "sys_gettimeofday = bnd ask (\<lambda>r. ret (r_sec r, int (r_usec r mod 1000000)))"

definition sys_time :: "('z kernel_scheme, int) cmd" where
  "sys_time = bnd ask (\<lambda>r. ret (r_sec r))"

definition sys_usleep :: "nat \<Rightarrow> ('z kernel_scheme, unit) cmd" where
  "sys_usleep us = emit (Slept us)"

text \<open>Does \<open>malloc\<close>, \<open>calloc\<close> or \<open>strdup\<close> find memory?\<close>

definition sys_malloc :: "('z kernel_scheme, bool) cmd" where
  "sys_malloc = bnd ask (\<lambda>r. ret (r_ok r))"

section \<open>Processes\<close>

definition sys_getpid :: "('z kernel_scheme, int) cmd" where
  "sys_getpid = bnd ask (\<lambda>r. ret (r_num r))"

text \<open>\<open>fork()\<close>: 0 in the child, which the model follows, or the parent's value.\<close>

definition sys_fork :: "('z kernel_scheme, int) cmd" where
  "sys_fork = bnd ask (\<lambda>r. if r_ok r then ret 0 else ret (if r_num r = 0 then -1 else r_num r))"

definition sys_setsid :: "('z kernel_scheme, int) cmd" where
  "sys_setsid = bnd ask (\<lambda>r. if r_ok r then thn (emit NewSession) (ret (r_num r)) else failing r (-1))"

definition sys_dup2 :: "int \<Rightarrow> int \<Rightarrow> ('z kernel_scheme, int) cmd" where
  "sys_dup2 fd target = on_fd fd (-1)
     (thn (modify (\<lambda>s. if target \<in> set (fds s) then s else s\<lparr>fds := target # fds s\<rparr>))
       (ret target))"

definition sys_sigaction :: "int \<Rightarrow> ('z kernel_scheme, int) cmd" where
  "sys_sigaction sig = bnd ask (\<lambda>r. if r_ok r then ret 0 else failing r (-1))"

text \<open>The number of a signal that arrived since the last time this was asked, 0 if none did.\<close>

definition sys_signal :: "('z kernel_scheme, int) cmd" where
  "sys_signal = bnd ask (\<lambda>r. ret (r_num r))"

section \<open>epoll\<close>

definition sys_epoll_create :: "('z kernel_scheme, int) cmd" where
  "sys_epoll_create =
     bnd ask (\<lambda>r.
       if r_ok r then
         bnd (gets (\<lambda>s. lowest_fd (fds s))) (\<lambda>fd.
           thn (modify (\<lambda>s. s\<lparr>fds := fd # fds s, interest := (\<lambda>_. None)\<rparr>)) (ret fd))
       else failing r (-1))"

definition sys_epoll_ctl :: "epoll_op \<Rightarrow> int \<Rightarrow> mask \<Rightarrow> ('z kernel_scheme, int) cmd" where
  "sys_epoll_ctl opn fd ev = on_fd fd (-1)
     (bnd (gets (\<lambda>s. interest s fd)) (\<lambda>old.
       (case opn of
          EPOLL_CTL_DEL \<Rightarrow>
            (if old = None then thn (set_errno ENOENT) (ret (-1))
             else thn (modify (\<lambda>s. s\<lparr>interest := (interest s)(fd := None)\<rparr>)) (ret 0))
        | _ \<Rightarrow>
            (if (opn = EPOLL_CTL_ADD) = (old \<noteq> None)
             then thn (set_errno (if opn = EPOLL_CTL_ADD then EEXIST else ENOENT)) (ret (-1))
             else bnd ask (\<lambda>r.
               if r_ok r
               then thn (modify (\<lambda>s. s\<lparr>interest := (interest s)(fd \<mapsto> ev)\<rparr>)) (ret 0)
               else failing r (-1))))))"

fun epoll_ready :: "(int \<Rightarrow> mask option) \<Rightarrow> (int \<times> mask) list \<Rightarrow> (int \<times> mask) list" where
  "epoll_ready I [] = []"
| "epoll_ready I ((fd, b) # rs) =
     (case I fd of
        None \<Rightarrow> epoll_ready I rs
      | Some m \<Rightarrow>
          if b AND (m OR EPOLLERR OR EPOLLHUP) = 0 then epoll_ready I rs
          else (fd, b AND (m OR EPOLLERR OR EPOLLHUP)) # epoll_ready (I(fd := None)) rs)"

text \<open>\<open>epoll_wait\<close>: -1, or the ready descriptors (at most \<open>maxevents\<close>).\<close>

definition sys_epoll_wait :: "nat \<Rightarrow> int \<Rightarrow> ('z kernel_scheme, int \<times> (int \<times> mask) list) cmd" where
  "sys_epoll_wait maxevents timeout =
     thn (emit (Polled timeout))
      (bnd ask (\<lambda>r.
        if r_ok r then
          bnd (gets (\<lambda>s. take maxevents (epoll_ready (interest s) (r_ready r)))) (\<lambda>evs.
            ret (int (length evs), evs))
        else failing r (-1, [])))"

text \<open>
  \<open>poll\<close> on one descriptor: 1 and the events that happened, 0 at the timeout, or -1. A descriptor that
  is not open is reported with POLLNVAL, a negative one never.
\<close>

definition sys_poll :: "int \<Rightarrow> mask \<Rightarrow> int \<Rightarrow> ('z kernel_scheme, int \<times> mask) cmd" where
  "sys_poll fd ev timeout =
     thn (emit (Polled timeout))
      (bnd ask (\<lambda>r. bnd (gets (\<lambda>s. fd \<in> set (fds s))) (\<lambda>opened.
        if \<not> r_ok r then failing r (-1, 0)
        else if fd < 0 then ret (0, 0)
        else if \<not> opened then ret (1, POLLNVAL)
        else
          let happened = of_int (r_num r) AND (ev OR EPOLLERR OR EPOLLHUP)
          in ret (if happened = 0 then 0 else 1, happened))))"

lemma epoll_ready_member:
  "(fd, b) \<in> set (epoll_ready I rs) \<Longrightarrow>
     \<exists>m. I fd = Some m \<and> b AND (m OR EPOLLERR OR EPOLLHUP) = b \<and> b \<noteq> 0"
proof (induction I rs rule: epoll_ready.induct)
  case (2 I fd' b' rs)
  then show ?case
    by (auto split: option.splits if_splits simp: and.assoc and.left_commute fun_upd_def)
qed simp

lemma epoll_ready_distinct: "distinct (map fst (epoll_ready I rs))"
proof (induction I rs rule: epoll_ready.induct)
  case (2 I fd b rs)
  have "fd \<notin> fst ` set (epoll_ready (I(fd := None)) rs)"
    by (auto dest: epoll_ready_member)
  with 2 show ?case by (auto split: option.splits simp: fun_upd_def)
qed simp

end
