(* ===== verification/Ini.thy ===== *)
theory Ini
  imports Kernel
begin

text \<open>
  The INI parser (\<open>src/ini.c\<close>, \<open>src/ini.h\<close>) with the options of \<open>ini.h\<close> as they are set there:
  multi-line values, a byte order mark and inline comments are allowed, parsing goes on after an
  error. A line is the C string in the line buffer; the pointers into it (\<open>start\<close>, \<open>end\<close>,
  \<open>value\<close>) are suffixes and positions of that string. The reader and the handler are parameters,
  as in the code.
\<close>

abbreviation (input) MAX_SECTION :: nat where "MAX_SECTION \<equiv> 50"
abbreviation (input) MAX_NAME :: nat where "MAX_NAME \<equiv> 50"
abbreviation (input) INI_MAX_LINE :: nat where "INI_MAX_LINE \<equiv> 200"

section \<open>String helpers\<close>

definition rstrip :: "string \<Rightarrow> string" where
  "rstrip s = rev (dropWhile isspace (rev s))"

definition lskip :: "string \<Rightarrow> string" where
  "lskip s = dropWhile isspace s"

text \<open>
  The offset of the pointer \<open>find_chars_or_comment(s, chars)\<close> returns; the first argument is
  \<open>was_space\<close>, and \<open>None\<close> stands for a NULL \<open>chars\<close>.
\<close>

fun find_from :: "bool \<Rightarrow> string \<Rightarrow> string option \<Rightarrow> nat" where
  "find_from was_space [] chars = 0"
| "find_from was_space (c # cs) chars =
     (if (case chars of None \<Rightarrow> True | Some k \<Rightarrow> c \<notin> set k) \<and> \<not> (was_space \<and> c \<in> set '';'')
      then Suc (find_from (isspace c) cs chars) else 0)"

definition find_chars_or_comment :: "string \<Rightarrow> string option \<Rightarrow> nat" where
  "find_chars_or_comment s chars = find_from False s chars"

definition char_at :: "string \<Rightarrow> nat \<Rightarrow> char" where
  "char_at s i = (if i < length s then s ! i else NUL)"

text \<open>The C string in \<open>dest\<close> after \<open>strncpy0(dest, src, size)\<close>\<close>

definition strncpy0 :: "string \<Rightarrow> nat \<Rightarrow> string" where
  "strncpy0 src sz = take (sz - 1) src"

section \<open>One line\<close>

type_synonym 's ini_handler = "string \<Rightarrow> string \<Rightarrow> string \<Rightarrow> ('s, int) cmd"
type_synonym 'st ini_reader = "nat \<Rightarrow> 'st \<Rightarrow> (string \<times> 'st) option"

record ini_state =
  lineno :: nat
  ini_error :: nat
  ini_section :: string
  prev_name :: string

definition ini_init :: ini_state where
  "ini_init = \<lparr>lineno = 0, ini_error = 0, ini_section = [], prev_name = []\<rparr>"

definition BOM :: string where
  "BOM = [CHR 0xEF, CHR 0xBB, CHR 0xBF]"

text \<open>\<open>if (!error) error = lineno;\<close>\<close>

definition note_error :: "ini_state \<Rightarrow> ini_state" where
  "note_error v = (if ini_error v = 0 then v\<lparr>ini_error := lineno v\<rparr> else v)"

definition call_handler ::
    "'s ini_handler \<Rightarrow> ini_state \<Rightarrow> string \<Rightarrow> string \<Rightarrow> ('s, ini_state) cmd" where
  "call_handler handler v name value =
     bnd (handler (ini_section v) name value) (\<lambda>r. ret (if r = 0 then note_error v else v))"

definition section_line :: "ini_state \<Rightarrow> string \<Rightarrow> ini_state" where
  "section_line v rest =
     (let e = find_chars_or_comment rest (Some '']'') in
      if char_at rest e = CHR '']''
      then v\<lparr>ini_section := strncpy0 (take e rest) MAX_SECTION, prev_name := []\<rparr>
      else note_error v)"

definition pair_line :: "'s ini_handler \<Rightarrow> ini_state \<Rightarrow> string \<Rightarrow> ('s, ini_state) cmd" where
  "pair_line handler v start =
     (let e = find_chars_or_comment start (Some ''=:'') in
      if char_at start e = CHR ''='' \<or> char_at start e = CHR '':'' then
        let name = rstrip (take e start);
            rest = lskip (drop (Suc e) start);
            value = rstrip (take (find_chars_or_comment rest None) rest)
        in call_handler handler (v\<lparr>prev_name := strncpy0 name MAX_NAME\<rparr>) name value
      else ret (note_error v))"

text \<open>The body of the loop, after \<open>reader\<close> filled the buffer with \<open>line\<close>.\<close>

definition ini_line :: "'s ini_handler \<Rightarrow> ini_state \<Rightarrow> string \<Rightarrow> ('s, ini_state) cmd" where
  "ini_line handler v0 line =
     (let v = v0\<lparr>lineno := Suc (lineno v0)\<rparr>;
          text = cstr line;
          bom = (lineno v = 1 \<and> take 3 text = BOM);
          body = rstrip (if bom then drop 3 text else text);
          start = lskip body;
          indented = (bom \<or> length start < length body)
      in case start of
           [] \<Rightarrow> ret v
         | c # rest \<Rightarrow>
             if c = CHR '';'' \<or> c = CHR ''#'' then ret v
             else if prev_name v \<noteq> [] \<and> indented then call_handler handler v (prev_name v) start
             else if c = CHR ''['' then ret (section_line v rest)
             else pair_line handler v start)"

section \<open>The whole stream\<close>

definition ini_body :: "'st ini_reader \<Rightarrow> 's ini_handler \<Rightarrow> 'st \<times> ini_state
    \<Rightarrow> ('s, ('st \<times> ini_state) + int) cmd" where
  "ini_body reader handler = (\<lambda>(stream, v).
     case reader INI_MAX_LINE stream of
       None \<Rightarrow> ret (Inr (int (ini_error v)))
     | Some (line, stream') \<Rightarrow> bnd (ini_line handler v line) (\<lambda>v'. ret (Inl (stream', v'))))"

definition ini_parse_stream ::
    "nat \<Rightarrow> 'st ini_reader \<Rightarrow> 'st \<Rightarrow> 's ini_handler \<Rightarrow> ('s, int) cmd" where
  "ini_parse_stream fuel reader stream handler =
     loop fuel (ini_body reader handler) (stream, ini_init)"

text \<open>Each \<open>fgets\<close> takes at least one byte off the file, so its length bounds the loop.\<close>

definition ini_parse_file :: "string \<Rightarrow> 's ini_handler \<Rightarrow> ('s, int) cmd" where
  "ini_parse_file file handler = ini_parse_stream (Suc (length file)) fgets file handler"

definition ini_parse ::
    "string \<Rightarrow> ('z kernel_scheme) ini_handler \<Rightarrow> ('z kernel_scheme, int) cmd" where
  "ini_parse filename handler =
     bnd (sys_fopen_read filename) (\<lambda>f.
       case f of
         None \<Rightarrow> ret (-1)
       | Some (fd, content) \<Rightarrow>
           bnd (ini_parse_file content handler) (\<lambda>e. thn (sys_close fd) (ret e)))"

end
