(* ===== verification/Ae.thy ===== *)
theory Ae
  imports Kernel
begin

text \<open>
  The event loop (\<open>src/ae.c\<close>, \<open>src/ae.h\<close>) and its epoll back end (\<open>src/ae_epoll.c\<close>): file
  events in an array indexed by descriptor, time events in a linked list, and the loop that polls
  and dispatches. Callbacks are code addresses; what the code at an address does is a parameter
  of the functions that call through a pointer, because the callbacks are defined in other files.
\<close>

section \<open>Data\<close>

abbreviation (input) AE_OK :: int where "AE_OK \<equiv> 0"
abbreviation (input) AE_ERR :: int where "AE_ERR \<equiv> -1"
abbreviation (input) AE_NONE :: mask where "AE_NONE \<equiv> 0"
abbreviation (input) AE_READABLE :: mask where "AE_READABLE \<equiv> 1"
abbreviation (input) AE_WRITABLE :: mask where "AE_WRITABLE \<equiv> 2"
abbreviation (input) AE_FILE_EVENTS :: mask where "AE_FILE_EVENTS \<equiv> 1"
abbreviation (input) AE_TIME_EVENTS :: mask where "AE_TIME_EVENTS \<equiv> 2"
abbreviation (input) AE_ALL_EVENTS :: mask where "AE_ALL_EVENTS \<equiv> 3"
abbreviation (input) AE_DONT_WAIT :: mask where "AE_DONT_WAIT \<equiv> 4"
abbreviation (input) AE_NOMORE :: int where "AE_NOMORE \<equiv> -1"
abbreviation (input) AE_DELETED_EVENT_ID :: int where "AE_DELETED_EVENT_ID \<equiv> -1"

text \<open>A procedure field nobody has assigned yet is \<open>None\<close>: calling through it is a bad call.\<close>

record aeFileEvent =
  fe_mask :: mask
  rfileProc :: "fnptr option"
  wfileProc :: "fnptr option"
  fe_clientData :: ptr

record aeTimeEvent =
  te_id :: int
  when_sec :: int
  when_ms :: int
  timeProc :: fnptr
  finalizerProc :: "fnptr option"
  te_clientData :: ptr
  te_next :: ptr

record aeFiredEvent =
  fired_fd :: int
  fired_mask :: mask

record aeEventLoop =
  maxfd :: int
  setsize :: int
  timeEventNextId :: int
  lastTime :: int
  events :: "aeFileEvent list"
  fired :: "aeFiredEvent list"
  timeEventHead :: ptr
  stop :: bool
  epfd :: int
  beforesleep :: "fnptr option"

text \<open>
  The program has one event loop, so the object behind the pointer is a field of the state
  (\<open>None\<close> while there is none); the time events are objects of a heap.
\<close>

record aestate = kernel +
  el :: "aeEventLoop option"
  tevs :: "nat \<Rightarrow> aeTimeEvent option"
  tev_brk :: nat

record 's procs =
  call_file :: "fnptr \<Rightarrow> int \<Rightarrow> ptr \<Rightarrow> mask \<Rightarrow> ('s, unit) cmd"
  call_time :: "fnptr \<Rightarrow> int \<Rightarrow> ptr \<Rightarrow> ('s, int) cmd"
  call_final :: "fnptr \<Rightarrow> ptr \<Rightarrow> ('s, unit) cmd"
  call_sleep :: "fnptr \<Rightarrow> ('s, unit) cmd"
  call_signal :: "('s, unit) cmd"    \<comment> \<open>the signal handler, if a signal arrived\<close>

definition get_loop :: "('z aestate_scheme, aeEventLoop) cmd" where
  "get_loop = bnd (gets el) (\<lambda>p. case p of None \<Rightarrow> stop_with NullDeref | Some L \<Rightarrow> ret L)"

definition upd_loop :: "(aeEventLoop \<Rightarrow> aeEventLoop) \<Rightarrow> ('z aestate_scheme, unit) cmd" where
  "upd_loop f = bnd get_loop (\<lambda>L. modify (\<lambda>s. s\<lparr>el := Some (f L)\<rparr>))"

text \<open>\<open>&eventLoop->events[fd]\<close> and \<open>&eventLoop->fired[j]\<close>, for reading\<close>

definition event_at :: "int \<Rightarrow> ('z aestate_scheme, aeFileEvent) cmd" where
  "event_at fd = bnd get_loop (\<lambda>L.
     if 0 \<le> fd \<and> nat fd < length (events L) then ret (events L ! nat fd)
     else stop_with OutOfBounds)"

definition fired_at :: "nat \<Rightarrow> ('z aestate_scheme, aeFiredEvent) cmd" where
  "fired_at j = bnd get_loop (\<lambda>L.
     if j < length (fired L) then ret (fired L ! j) else stop_with OutOfBounds)"

definition upd_event :: "int \<Rightarrow> (aeFileEvent \<Rightarrow> aeFileEvent) \<Rightarrow> ('z aestate_scheme, unit) cmd" where
  "upd_event fd f =
     upd_loop (\<lambda>L. L\<lparr>events := (events L)[nat fd := f (events L ! nat fd)]\<rparr>)"

section \<open>Creating and stopping the loop\<close>

definition aeApiCreate :: "('z aestate_scheme, int option) cmd" where
  "aeApiCreate =
     bnd sys_malloc (\<lambda>state.
       if \<not> state then ret None
       else bnd sys_malloc (\<lambda>evs.
         if \<not> evs then ret None
         else bnd sys_epoll_create (\<lambda>fd. if fd = -1 then ret None else ret (Some fd))))"

definition blank_event :: aeFileEvent where
  "blank_event = \<lparr>fe_mask = AE_NONE, rfileProc = None, wfileProc = None, fe_clientData = None\<rparr>"

definition aeCreateEventLoop :: "int \<Rightarrow> ('z aestate_scheme, aeEventLoop option) cmd" where
  "aeCreateEventLoop sz =
     bnd sys_malloc (\<lambda>m0. if \<not> m0 then ret None else
     bnd sys_malloc (\<lambda>m1.
     bnd sys_malloc (\<lambda>m2.
       if \<not> m1 \<or> \<not> m2 then ret None
       else bnd sys_time (\<lambda>now.
         bnd aeApiCreate (\<lambda>api.
           case api of
             None \<Rightarrow> ret None
           | Some ep \<Rightarrow>
               ret (Some \<lparr>maxfd = -1, setsize = sz, timeEventNextId = 0, lastTime = now,
                 events = replicate (nat sz) blank_event,
                 fired = replicate (nat sz) \<lparr>fired_fd = 0, fired_mask = 0\<rparr>,
                 timeEventHead = None, stop = False, epfd = ep, beforesleep = None\<rparr>))))))"

definition aeGetSetSize :: "('z aestate_scheme, int) cmd" where
  "aeGetSetSize = bnd get_loop (\<lambda>L. ret (setsize L))"

text \<open>
  \<open>aeResizeSetSize\<close>. None of the three calls of \<open>realloc\<close> is checked: where one fails, the code goes on
  with a NULL array, and the model stops. Slots that \<open>realloc\<close> added hold no procedure yet.
\<close>

definition resized :: "'x \<Rightarrow> nat \<Rightarrow> 'x list \<Rightarrow> 'x list" where
  "resized d n xs = take n xs @ replicate (n - length xs) d"

definition cleared_from :: "nat \<Rightarrow> aeFileEvent list \<Rightarrow> aeFileEvent list" where
  "cleared_from n evs = take n evs @ map (\<lambda>fe. fe\<lparr>fe_mask := AE_NONE\<rparr>) (drop n evs)"

definition realloc_array :: "('z aestate_scheme, unit) cmd" where
  "realloc_array = bnd sys_malloc (\<lambda>ok. if ok then ret () else stop_with NullDeref)"

definition aeApiResize :: "int \<Rightarrow> ('z aestate_scheme, int) cmd" where
  "aeApiResize sz = thn realloc_array (ret 0)"

definition aeResizeSetSize :: "int \<Rightarrow> ('z aestate_scheme, int) cmd" where
  "aeResizeSetSize sz =
     bnd get_loop (\<lambda>L.
       if sz = setsize L then ret AE_OK
       else if maxfd L \<ge> sz then ret AE_ERR
       else bnd (aeApiResize sz) (\<lambda>r.
         if r = -1 then ret AE_ERR
         else
           thn realloc_array
          (thn (upd_loop (\<lambda>L. L\<lparr>events := resized blank_event (nat sz) (events L)\<rparr>))
          (thn realloc_array
          (thn (upd_loop (\<lambda>L. L\<lparr>fired := resized \<lparr>fired_fd = 0, fired_mask = 0\<rparr> (nat sz) (fired L)\<rparr>))
          (thn (upd_loop (\<lambda>L. L\<lparr>setsize := sz\<rparr>))
          (thn (upd_loop (\<lambda>L. L\<lparr>events := cleared_from (nat (maxfd L + 1)) (events L)\<rparr>))
            (ret AE_OK))))))))"

definition aeApiFree :: "('z aestate_scheme, unit) cmd" where
  "aeApiFree = bnd get_loop (\<lambda>L. thn (sys_close (epfd L)) (ret ()))"

definition aeDeleteEventLoop :: "('z aestate_scheme, unit) cmd" where
  "aeDeleteEventLoop = thn aeApiFree (modify (\<lambda>s. s\<lparr>el := None\<rparr>))"

definition aeStop :: "('z aestate_scheme, unit) cmd" where
  "aeStop = upd_loop (\<lambda>L. L\<lparr>stop := True\<rparr>)"

definition aeSetBeforeSleepProc :: "fnptr option \<Rightarrow> ('z aestate_scheme, unit) cmd" where
  "aeSetBeforeSleepProc f = upd_loop (\<lambda>L. L\<lparr>beforesleep := f\<rparr>)"

section \<open>File events\<close>

text \<open>The epoll events asked for by an AE mask.\<close>

definition epoll_events_of :: "mask \<Rightarrow> mask" where
  "epoll_events_of m =
     (if m AND AE_READABLE \<noteq> 0 then EPOLLIN else 0) OR
     (if m AND AE_WRITABLE \<noteq> 0 then EPOLLOUT else 0)"

text \<open>The AE mask of reported epoll events: an error or a hangup counts as writable.\<close>

definition ae_mask_of :: "mask \<Rightarrow> mask" where
  "ae_mask_of e =
     (if e AND EPOLLIN \<noteq> 0 then AE_READABLE else 0) OR
     (if e AND EPOLLOUT \<noteq> 0 then AE_WRITABLE else 0) OR
     (if e AND EPOLLERR \<noteq> 0 then AE_WRITABLE else 0) OR
     (if e AND EPOLLHUP \<noteq> 0 then AE_WRITABLE else 0)"

definition aeApiAddEvent :: "int \<Rightarrow> mask \<Rightarrow> ('z aestate_scheme, int) cmd" where
  "aeApiAddEvent fd m =
     bnd (event_at fd) (\<lambda>fe.
       bnd (sys_epoll_ctl (if fe_mask fe = AE_NONE then EPOLL_CTL_ADD else EPOLL_CTL_MOD) fd
              (epoll_events_of (m OR fe_mask fe))) (\<lambda>r.
         if r = -1 then ret (-1) else ret 0))"

definition aeApiDelEvent :: "int \<Rightarrow> mask \<Rightarrow> ('z aestate_scheme, unit) cmd" where
  "aeApiDelEvent fd delmask =
     bnd (event_at fd) (\<lambda>fe.
       let m = fe_mask fe AND NOT delmask in
       if m \<noteq> AE_NONE then thn (sys_epoll_ctl EPOLL_CTL_MOD fd (epoll_events_of m)) (ret ())
       else thn (sys_epoll_ctl EPOLL_CTL_DEL fd (epoll_events_of m)) (ret ()))"

definition register_event :: "mask \<Rightarrow> fnptr \<Rightarrow> ptr \<Rightarrow> aeFileEvent \<Rightarrow> aeFileEvent" where
  "register_event m proc cd fe =
     fe\<lparr>fe_mask := fe_mask fe OR m,
        rfileProc := (if m AND AE_READABLE \<noteq> 0 then Some proc else rfileProc fe),
        wfileProc := (if m AND AE_WRITABLE \<noteq> 0 then Some proc else wfileProc fe),
        fe_clientData := cd\<rparr>"

definition aeCreateFileEvent ::
    "int \<Rightarrow> mask \<Rightarrow> fnptr \<Rightarrow> ptr \<Rightarrow> ('z aestate_scheme, int) cmd" where
  "aeCreateFileEvent fd m proc cd =
     bnd get_loop (\<lambda>L.
       if fd \<ge> setsize L then thn (set_errno ERANGE) (ret AE_ERR)
       else bnd (aeApiAddEvent fd m) (\<lambda>r.
         if r = -1 then ret AE_ERR
         else thn (upd_event fd (register_event m proc cd))
                (thn (upd_loop (\<lambda>L. if fd > maxfd L then L\<lparr>maxfd := fd\<rparr> else L))
                  (ret AE_OK))))"

text \<open>\<open>for (j = n-1; j >= 0; j--) if (events[j].mask != AE_NONE) break;\<close>, the final \<open>j\<close>\<close>

fun highest_below :: "aeFileEvent list \<Rightarrow> nat \<Rightarrow> int" where
  "highest_below evs 0 = -1"
| "highest_below evs (Suc j) =
     (if fe_mask (evs ! j) \<noteq> AE_NONE then int j else highest_below evs j)"

definition aeDeleteFileEvent :: "int \<Rightarrow> mask \<Rightarrow> ('z aestate_scheme, unit) cmd" where
  "aeDeleteFileEvent fd m =
     bnd get_loop (\<lambda>L.
       if fd \<ge> setsize L then ret ()
       else bnd (event_at fd) (\<lambda>fe.
         if fe_mask fe = AE_NONE then ret ()
         else
           thn (aeApiDelEvent fd m)
           (thn (upd_event fd (\<lambda>fe. fe\<lparr>fe_mask := fe_mask fe AND NOT m\<rparr>))
             (upd_loop (\<lambda>L.
                if fd = maxfd L \<and> fe_mask (events L ! nat fd) = AE_NONE
                then L\<lparr>maxfd := highest_below (events L) (nat (maxfd L))\<rparr>
                else L)))))"

definition aeGetFileEvents :: "int \<Rightarrow> ('z aestate_scheme, mask) cmd" where
  "aeGetFileEvents fd =
     bnd get_loop (\<lambda>L.
       if fd \<ge> setsize L then ret 0
       else bnd (event_at fd) (\<lambda>fe. ret (fe_mask fe)))"

section \<open>Time events\<close>

definition get_tev :: "nat \<Rightarrow> ('z aestate_scheme, aeTimeEvent) cmd" where
  "get_tev a = bnd (gets (\<lambda>s. tevs s a)) (\<lambda>r.
     case r of None \<Rightarrow> stop_with UseAfterFree | Some te \<Rightarrow> ret te)"

definition upd_tev :: "nat \<Rightarrow> (aeTimeEvent \<Rightarrow> aeTimeEvent) \<Rightarrow> ('z aestate_scheme, unit) cmd" where
  "upd_tev a f = bnd (get_tev a) (\<lambda>te. modify (\<lambda>s. s\<lparr>tevs := (tevs s)(a \<mapsto> f te)\<rparr>))"

text \<open>Every address the heap of time events has handed out is below \<open>tev_brk\<close>.\<close>

definition tev_fuel :: "'z aestate_scheme \<Rightarrow> nat" where
  "tev_fuel s = Suc (tev_brk s)"

definition aeGetTime :: "('z kernel_scheme, int \<times> int) cmd" where
  "aeGetTime = bnd sys_gettimeofday (\<lambda>tv. case tv of (sec, usec) \<Rightarrow> ret (sec, usec div 1000))"

definition aeAddMillisecondsToNow :: "int \<Rightarrow> ('z kernel_scheme, int \<times> int) cmd" where
  "aeAddMillisecondsToNow milliseconds =
     bnd aeGetTime (\<lambda>now. case now of (cur_sec, cur_ms) \<Rightarrow>
       let sec = cur_sec + c_div milliseconds 1000;
           ms = cur_ms + c_mod milliseconds 1000
       in if ms \<ge> 1000 then ret (sec + 1, ms - 1000) else ret (sec, ms))"

definition aeCreateTimeEvent ::
    "int \<Rightarrow> fnptr \<Rightarrow> ptr \<Rightarrow> fnptr option \<Rightarrow> ('z aestate_scheme, int) cmd" where
  "aeCreateTimeEvent milliseconds proc cd fin =
     bnd get_loop (\<lambda>L.
     thn (upd_loop (\<lambda>L. L\<lparr>timeEventNextId := timeEventNextId L + 1\<rparr>))
     (bnd sys_malloc (\<lambda>ok.
       if \<not> ok then ret AE_ERR
       else bnd (aeAddMillisecondsToNow milliseconds) (\<lambda>when. case when of (sec, ms) \<Rightarrow>
         bnd (gets tev_brk) (\<lambda>a.
           thn (modify (\<lambda>s. s\<lparr>tev_brk := Suc a, tevs := (tevs s)(a \<mapsto>
             \<lparr>te_id = timeEventNextId L, when_sec = sec, when_ms = ms, timeProc = proc,
              finalizerProc = fin, te_clientData = cd, te_next = timeEventHead L\<rparr>)\<rparr>))
          (thn (upd_loop (\<lambda>L. L\<lparr>timeEventHead := Some a\<rparr>))
            (ret (timeEventNextId L))))))))"

definition aeDeleteTimeEvent :: "int \<Rightarrow> ('z aestate_scheme, int) cmd" where
  "aeDeleteTimeEvent i =
     bnd get_loop (\<lambda>L.
     bnd (gets tev_fuel) (\<lambda>fuel.
     bnd (search_chain fuel tevs te_next (\<lambda>te. te_id te = i) (timeEventHead L)) (\<lambda>p.
       case p of
         None \<Rightarrow> ret AE_ERR
       | Some a \<Rightarrow> thn (upd_tev a (\<lambda>te. te\<lparr>te_id := AE_DELETED_EVENT_ID\<rparr>)) (ret AE_OK))))"

text \<open>The order of due times, and the loop that keeps the earliest timer seen so far.\<close>

definition earlier :: "aeTimeEvent \<Rightarrow> aeTimeEvent \<Rightarrow> bool" where
  "earlier te n \<longleftrightarrow>
     when_sec te < when_sec n \<or> (when_sec te = when_sec n \<and> when_ms te < when_ms n)"

definition nearest_body :: "ptr \<times> ptr \<Rightarrow> ('z aestate_scheme, (ptr \<times> ptr) + ptr) cmd" where
  "nearest_body = (\<lambda>(cur, nearest).
     case cur of
       None \<Rightarrow> ret (Inr nearest)
     | Some a \<Rightarrow> bnd (get_tev a) (\<lambda>te.
         case nearest of
           None \<Rightarrow> ret (Inl (te_next te, Some a))
         | Some b \<Rightarrow> bnd (get_tev b) (\<lambda>n.
             ret (Inl (te_next te, if earlier te n then Some a else Some b)))))"

definition aeSearchNearestTimer :: "('z aestate_scheme, ptr) cmd" where
  "aeSearchNearestTimer =
     bnd get_loop (\<lambda>L. bnd (gets tev_fuel) (\<lambda>fuel.
       loop fuel nearest_body (timeEventHead L, None)))"

text \<open>The clock went backwards: every timer becomes due.\<close>

definition skew_body :: "ptr \<Rightarrow> ('z aestate_scheme, ptr + unit) cmd" where
  "skew_body cur =
     (case cur of
        None \<Rightarrow> ret (Inr ())
      | Some a \<Rightarrow>
          thn (upd_tev a (\<lambda>te. te\<lparr>when_sec := 0\<rparr>))
            (bnd (get_tev a) (\<lambda>te. ret (Inl (te_next te)))))"

text \<open>Unlink and free a timer marked as deleted, and run its finalizer.\<close>

definition remove_timer ::
    "('z aestate_scheme) procs \<Rightarrow> ptr \<Rightarrow> nat \<Rightarrow> aeTimeEvent \<Rightarrow> ('z aestate_scheme, unit) cmd" where
  "remove_timer P prev a te =
     thn (case prev of
            None \<Rightarrow> upd_loop (\<lambda>L. L\<lparr>timeEventHead := te_next te\<rparr>)
          | Some b \<Rightarrow> upd_tev b (\<lambda>p. p\<lparr>te_next := te_next te\<rparr>))
    (thn (case finalizerProc te of
            None \<Rightarrow> ret ()
          | Some f \<Rightarrow> call_final P f (te_clientData te))
      (modify (\<lambda>s. s\<lparr>tevs := (tevs s)(a := None)\<rparr>)))"

text \<open>Run a timer that is due; it is scheduled again or marked as deleted.\<close>

definition run_timer ::
    "('z aestate_scheme) procs \<Rightarrow> nat \<Rightarrow> aeTimeEvent \<Rightarrow> ('z aestate_scheme, unit) cmd" where
  "run_timer P a te =
     bnd (call_time P (timeProc te) (te_id te) (te_clientData te)) (\<lambda>retval.
       if retval \<noteq> AE_NOMORE
       then bnd (aeAddMillisecondsToNow retval) (\<lambda>(sec, ms).
              upd_tev a (\<lambda>te. te\<lparr>when_sec := sec, when_ms := ms\<rparr>))
       else upd_tev a (\<lambda>te. te\<lparr>te_id := AE_DELETED_EVENT_ID\<rparr>))"

definition is_due :: "aeTimeEvent \<Rightarrow> int \<times> int \<Rightarrow> bool" where
  "is_due te now \<longleftrightarrow>
     fst now > when_sec te \<or> (fst now = when_sec te \<and> snd now \<ge> when_ms te)"

text \<open>
  One turn of the loop over the timers: \<open>prev\<close>, \<open>te\<close> and the number of timers run so far.
  The second read of the timer after its procedure ran sees what the procedure did to it.
\<close>

definition time_body :: "('z aestate_scheme) procs \<Rightarrow> int \<Rightarrow> ptr \<times> ptr \<times> int
    \<Rightarrow> ('z aestate_scheme, (ptr \<times> ptr \<times> int) + int) cmd" where
  "time_body P maxId = (\<lambda>(prev, cur, processed).
     case cur of
       None \<Rightarrow> ret (Inr processed)
     | Some a \<Rightarrow> bnd (get_tev a) (\<lambda>te.
         if te_id te = AE_DELETED_EVENT_ID then
           thn (remove_timer P prev a te) (ret (Inl (prev, te_next te, processed)))
         else if te_id te > maxId then ret (Inl (prev, te_next te, processed))
         else bnd aeGetTime (\<lambda>now.
           thn (when_do (is_due te now) (run_timer P a te))
             (bnd (get_tev a) (\<lambda>te'.
                ret (Inl (Some a, te_next te', if is_due te now then processed + 1 else processed)))))))"

text \<open>
  The loop runs at most once per timer that was on the list, and a timer on the list has an
  address below \<open>tev_brk\<close> (its value before the loop: a timer added meanwhile goes to the head).
\<close>

definition processTimeEvents :: "('z aestate_scheme) procs \<Rightarrow> ('z aestate_scheme, int) cmd" where
  "processTimeEvents P =
     bnd sys_time (\<lambda>now.
     bnd get_loop (\<lambda>L.
     bnd (gets tev_fuel) (\<lambda>fuel.
       thn (when_do (now < lastTime L) (loop fuel skew_body (timeEventHead L)))
      (thn (upd_loop (\<lambda>L. L\<lparr>lastTime := now\<rparr>))
        (loop fuel (time_body P (timeEventNextId L - 1)) (None, timeEventHead L, 0))))))"

section \<open>Polling and dispatch\<close>

definition aeApiPoll :: "(int \<times> int) option \<Rightarrow> ('z aestate_scheme, nat) cmd" where
  "aeApiPoll tvp =
     bnd get_loop (\<lambda>L.
     bnd (sys_epoll_wait (nat (setsize L))
            (case tvp of
               None \<Rightarrow> -1
             | Some (tv_sec, tv_usec) \<Rightarrow> to_int32 (tv_sec * 1000 + c_div tv_usec 1000))) (\<lambda>r.
       case r of (retval, evs) \<Rightarrow>
         if retval > 0 then
           thn (upd_loop (\<lambda>L. L\<lparr>fired :=
                  map (\<lambda>(fd, e). \<lparr>fired_fd = fd, fired_mask = ae_mask_of e\<rparr>) evs
                    @ drop (length evs) (fired L)\<rparr>))
             (ret (length evs))
         else ret 0))"

definition clear_fired :: "nat \<Rightarrow> mask \<Rightarrow> ('z aestate_scheme, unit) cmd" where
  "clear_fired j m =
     upd_loop (\<lambda>L. L\<lparr>fired := (fired L)[j :=
       (fired L ! j)\<lparr>fired_mask := fired_mask (fired L ! j) AND NOT m\<rparr>]\<rparr>)"

text \<open>One turn of the first and of the second dispatch loop.\<close>

definition readable_step :: "('z aestate_scheme) procs \<Rightarrow> nat \<Rightarrow> ('z aestate_scheme, unit) cmd" where
  "readable_step P j =
     bnd (fired_at j) (\<lambda>f.
     bnd (event_at (fired_fd f)) (\<lambda>fe.
       if fe_mask fe AND fired_mask f AND AE_READABLE \<noteq> 0 then
         (case rfileProc fe of
            None \<Rightarrow> stop_with BadCall
          | Some p \<Rightarrow>
              thn (call_file P p (fired_fd f) (fe_clientData fe) (fired_mask f))
                (clear_fired j AE_READABLE))
       else ret ()))"

definition writable_step :: "('z aestate_scheme) procs \<Rightarrow> nat \<Rightarrow> ('z aestate_scheme, unit) cmd" where
  "writable_step P j =
     bnd (fired_at j) (\<lambda>f.
     bnd (event_at (fired_fd f)) (\<lambda>fe.
       if fe_mask fe AND fired_mask f AND AE_WRITABLE \<noteq> 0 then
         (case wfileProc fe of
            None \<Rightarrow> stop_with BadCall
          | Some p \<Rightarrow>
              thn (call_file P p (fired_fd f) (fe_clientData fe) (fired_mask f))
                (clear_fired j AE_WRITABLE))
       else ret ()))"

definition dispatch :: "('z aestate_scheme) procs \<Rightarrow> nat \<Rightarrow> ('z aestate_scheme, unit) cmd" where
  "dispatch P numevents =
     thn (for_each [0..<numevents] (readable_step P))
       (for_each [0..<numevents] (writable_step P))"

text \<open>How long to wait: until the nearest timer, not at all, or (\<open>None\<close>) for ever.\<close>

definition poll_timeout :: "mask \<Rightarrow> ('z aestate_scheme, (int \<times> int) option) cmd" where
  "poll_timeout flags =
     bnd (if flags AND AE_TIME_EVENTS \<noteq> 0 \<and> flags AND AE_DONT_WAIT = 0
          then aeSearchNearestTimer else ret None) (\<lambda>shortest.
       case shortest of
         Some a \<Rightarrow>
           bnd aeGetTime (\<lambda>now. case now of (now_sec, now_ms) \<Rightarrow>
           bnd (get_tev a) (\<lambda>te.
             let ms = (when_sec te - now_sec) * 1000 + when_ms te - now_ms in
             if ms > 0 then ret (Some (c_div ms 1000, c_mod ms 1000 * 1000))
             else ret (Some (0, 0))))
       | None \<Rightarrow> if flags AND AE_DONT_WAIT \<noteq> 0 then ret (Some (0, 0)) else ret None)"

definition aeProcessEvents ::
    "('z aestate_scheme) procs \<Rightarrow> mask \<Rightarrow> ('z aestate_scheme, int) cmd" where
  "aeProcessEvents P flags =
     (if flags AND AE_TIME_EVENTS = 0 \<and> flags AND AE_FILE_EVENTS = 0 then ret 0
      else
        bnd get_loop (\<lambda>L.
        bnd (if maxfd L \<noteq> -1 \<or> (flags AND AE_TIME_EVENTS \<noteq> 0 \<and> flags AND AE_DONT_WAIT = 0)
             then bnd (poll_timeout flags) (\<lambda>tvp.
               bnd (aeApiPoll tvp) (\<lambda>numevents.
                 thn (dispatch P numevents) (ret (int numevents))))
             else ret 0) (\<lambda>processed.
          if flags AND AE_TIME_EVENTS \<noteq> 0
          then bnd (processTimeEvents P) (\<lambda>n. ret (processed + n))
          else ret processed)))"

text \<open>
  \<open>while (!eventLoop->stop) { ... }\<close>, cut off after \<open>fuel\<close> turns. A signal interrupts the program
  anywhere; here its handler runs at the start of a turn, before the two calls of the loop's body.
\<close>

definition main_turn :: "('z aestate_scheme) procs \<Rightarrow> ('z aestate_scheme, unit) cmd" where
  "main_turn P =
     thn (call_signal P)
       (bnd get_loop (\<lambda>L.
          thn (case beforesleep L of None \<Rightarrow> ret () | Some f \<Rightarrow> call_sleep P f)
            (thn (aeProcessEvents P AE_ALL_EVENTS) (ret ()))))"

definition main_body :: "('z aestate_scheme) procs \<Rightarrow> unit \<Rightarrow> ('z aestate_scheme, unit + unit) cmd" where
  "main_body P _ =
     bnd get_loop (\<lambda>L. if stop L then ret (Inr ()) else thn (main_turn P) (ret (Inl ())))"

definition aeMain :: "('z aestate_scheme) procs \<Rightarrow> nat \<Rightarrow> ('z aestate_scheme, unit) cmd" where
  "aeMain P fuel = thn (upd_loop (\<lambda>L. L\<lparr>stop := False\<rparr>)) (loop fuel (main_body P) ())"

section \<open>Waiting for one descriptor\<close>

text \<open>\<open>aeWait(fd, mask, milliseconds)\<close>: \<open>poll\<close> has the same event bits as epoll.\<close>

definition aeWait :: "int \<Rightarrow> mask \<Rightarrow> int \<Rightarrow> ('z kernel_scheme, int) cmd" where
  "aeWait fd m milliseconds =
     bnd (sys_poll fd (epoll_events_of m) (to_int32 milliseconds)) (\<lambda>r. case r of (retval, revents) \<Rightarrow>
       if retval = 1 then ret (uint (ae_mask_of revents)) else ret retval)"

definition aeApiName :: string where
  "aeApiName = ''epoll''"

definition aeGetApiName :: string where
  "aeGetApiName = aeApiName"

end
