(* ===== verification/World.thy ===== *)
theory World
  imports Ae
begin

text \<open>
  The whole state of the daemon: the kernel and the event loop, the heaps of serial nodes and
  links (\<open>src/serial.h\<close>), and the global \<open>struct sproxyServer server\<close> (\<open>src/server.h\<close>). Then the
  accesses through pointers, and the logging functions of \<open>src/server.c\<close> that every component
  calls.
\<close>

section \<open>Data\<close>

abbreviation (input) C_OK :: int where "C_OK \<equiv> 0"
abbreviation (input) C_ERR :: int where "C_ERR \<equiv> -1"

abbreviation (input) LL_DEBUG :: int where "LL_DEBUG \<equiv> 0"
abbreviation (input) LL_INFO :: int where "LL_INFO \<equiv> 1"
abbreviation (input) LL_WARN :: int where "LL_WARN \<equiv> 2"
abbreviation (input) LL_ERROR :: int where "LL_ERROR \<equiv> 3"

abbreviation (input) LOG_MAX_LEN :: nat where "LOG_MAX_LEN \<equiv> 1024"
abbreviation (input) PATH_MAX :: nat where "PATH_MAX \<equiv> 4096"
abbreviation (input) BUFSIZ :: nat where "BUFSIZ \<equiv> 8192"

abbreviation (input) SERIAL_FLAG_MASTER :: mask where "SERIAL_FLAG_MASTER \<equiv> 1"
abbreviation (input) SERIAL_FLAG_VIRTUAL :: mask where "SERIAL_FLAG_VIRTUAL \<equiv> 2"
abbreviation (input) SERIAL_FLAG_WRITER :: mask where "SERIAL_FLAG_WRITER \<equiv> 4"

text \<open>\<open>recvbuf\<close> holds the bytes of the buffer that were ever written; the rest of it is zero.\<close>

record serialLink =
  link_fd :: int
  link_sfd :: int
  recvbuf :: string
  recvbuflen :: int
  link_node :: ptr

record serialNode =
  node_name :: string
  node_flags :: mask
  virtual_head :: ptr
  virtualof :: ptr
  baudrate :: int
  node_link :: ptr
  node_next :: ptr

record world = aestate +
  nodes :: "nat \<Rightarrow> serialNode option"
  node_brk :: nat
  links :: "nat \<Rightarrow> serialLink option"
  link_brk :: nat
  pid :: int
  pidfile :: "string option"
  logfile :: "string option"
  configfile :: "string option"
  shutdown :: bool
  reload :: bool
  daemonize :: bool
  verbosity :: int
  syslog :: int
  maxclients :: int
  cronloops :: int
  reconnect_interval :: int
  cron_event_id :: int
  hz :: int
  serial_configfile :: "string option"
  master_head :: ptr

type_synonym 'a io = "(world, 'a) cmd"

definition nodeIsMaster :: "serialNode \<Rightarrow> bool" where
  "nodeIsMaster n \<longleftrightarrow> node_flags n AND SERIAL_FLAG_MASTER \<noteq> 0"

definition nodeIsVirtual :: "serialNode \<Rightarrow> bool" where
  "nodeIsVirtual n \<longleftrightarrow> node_flags n AND SERIAL_FLAG_VIRTUAL \<noteq> 0"

definition nodeIsWriter :: "serialNode \<Rightarrow> bool" where
  "nodeIsWriter n \<longleftrightarrow> node_flags n AND SERIAL_FLAG_WRITER \<noteq> 0"

text \<open>The code addresses of the program's callbacks.\<close>

abbreviation (input) serialEventHandler_fp :: fnptr where "serialEventHandler_fp \<equiv> 1"
abbreviation (input) serverCron_fp :: fnptr where "serverCron_fp \<equiv> 2"
abbreviation (input) serverBeforeSleep_fp :: fnptr where "serverBeforeSleep_fp \<equiv> 3"

section \<open>Access through pointers\<close>

definition get_node :: "ptr \<Rightarrow> serialNode io" where
  "get_node p = (case p of
     None \<Rightarrow> stop_with NullDeref
   | Some a \<Rightarrow> bnd (gets (\<lambda>s. nodes s a)) (\<lambda>r.
       case r of None \<Rightarrow> stop_with UseAfterFree | Some n \<Rightarrow> ret n))"

definition upd_node :: "ptr \<Rightarrow> (serialNode \<Rightarrow> serialNode) \<Rightarrow> unit io" where
  "upd_node p f = bnd (get_node p) (\<lambda>n. modify (\<lambda>s. s\<lparr>nodes := (nodes s)(the p \<mapsto> f n)\<rparr>))"

definition get_link :: "ptr \<Rightarrow> serialLink io" where
  "get_link p = (case p of
     None \<Rightarrow> stop_with NullDeref
   | Some a \<Rightarrow> bnd (gets (\<lambda>s. links s a)) (\<lambda>r.
       case r of None \<Rightarrow> stop_with UseAfterFree | Some l \<Rightarrow> ret l))"

definition upd_link :: "ptr \<Rightarrow> (serialLink \<Rightarrow> serialLink) \<Rightarrow> unit io" where
  "upd_link p f = bnd (get_link p) (\<lambda>l. modify (\<lambda>s. s\<lparr>links := (links s)(the p \<mapsto> f l)\<rparr>))"

text \<open>Node addresses are handed out below \<open>node_brk\<close>, so a list of nodes is at most that long.\<close>

definition node_fuel :: "world \<Rightarrow> nat" where
  "node_fuel s = Suc (node_brk s)"

section \<open>Logging\<close>

definition serverLogLevel :: "int \<Rightarrow> string option" where
  "serverLogLevel level =
     (if level = LL_DEBUG then Some ''debug''
      else if level = LL_INFO then Some ''info''
      else if level = LL_WARN then Some ''warn''
      else if level = LL_ERROR then Some ''error''
      else None)"

text \<open>LOG_DEBUG, LOG_INFO, LOG_WARNING, LOG_ERR\<close>

definition syslogLevelMap :: "int list" where
  "syslogLevelMap = [7, 6, 4, 3]"

text \<open>\<open>server.logfile[0]\<close> is read before anything else: a NULL \<open>logfile\<close> ends here.\<close>

definition serverLogRaw :: "int \<Rightarrow> string \<Rightarrow> unit io" where
  "serverLogRaw level msg =
     bnd (gets verbosity) (\<lambda>v.
     if level < v then ret ()
     else bnd (gets logfile) (\<lambda>lf.
       case lf of
         None \<Rightarrow> stop_with NullDeref
       | Some path \<Rightarrow>
           bnd (if path = [] then ret 1 else sys_open path) (\<lambda>fp.
           if fp = -1 then ret ()
           else
             thn sys_gettimeofday
            (thn (emit (Logged path level msg))
            (thn (if path \<noteq> [] then thn (sys_close fp) (ret ()) else ret ())
              (bnd (gets syslog) (\<lambda>sl.
                 if sl \<noteq> 0 then
                   (if 0 \<le> level \<and> nat level < length syslogLevelMap
                    then emit (Syslogged (syslogLevelMap ! nat level) msg)
                    else stop_with OutOfBounds)
                 else ret ())))))))"

definition serverLog :: "int \<Rightarrow> string \<Rightarrow> unit io" where
  "serverLog level text =
     bnd (gets verbosity) (\<lambda>v.
       if level < v then ret () else serverLogRaw level (take (LOG_MAX_LEN - 1) text))"

definition serverLogErrno :: "int \<Rightarrow> string \<Rightarrow> unit io" where
  "serverLogErrno level text =
     bnd (gets verbosity) (\<lambda>v.
       if level < v then ret ()
       else bnd (gets errno) (\<lambda>e. bnd (gets (\<lambda>s. strerror s e)) (\<lambda>diag.
         serverLog level (take (LOG_MAX_LEN - 1) text @ '', Error: '' @ diag
                            @ '' ('' @ show_int e @ '')''))))"

end
