(* ===== verification/SerialNodes.thy ===== *)
theory SerialNodes
  imports World
begin

text \<open>
  The registry of serial nodes of \<open>src/serial.c\<close>: creating and freeing nodes, the list of masters,
  each master's list of virtual nodes, and the lookups on both.
\<close>

section \<open>Operations\<close>

text \<open>\<open>serialCreateNode(nodename, flags)\<close>; \<open>calloc\<close> clears every field that is not set below.\<close>

definition serialCreateNode :: "string option \<Rightarrow> mask \<Rightarrow> ptr io" where
  "serialCreateNode nodename flags =
     (case nodename of
        None \<Rightarrow>
          thn (serverLog LL_ERROR ''Cannot create a serial node without a name'') (ret None)
      | Some nm \<Rightarrow>
          bnd sys_malloc (\<lambda>ok.
            if \<not> ok then thn (serverLog LL_ERROR ''calloc failed'') (stop_with (Exit 1))
            else bnd (gets node_brk) (\<lambda>a.
              thn (modify (\<lambda>s. s\<lparr>node_brk := Suc a, nodes := (nodes s)(a \<mapsto>
                     \<lparr>node_name = strlcpy nm PATH_MAX, node_flags = flags, virtual_head = None,
                      virtualof = None, baudrate = 9600, node_link = None, node_next = None\<rparr>)\<rparr>))
                (ret (Some a)))))"

definition serialAddNode :: "ptr \<Rightarrow> unit io" where
  "serialAddNode node =
     bnd (gets master_head) (\<lambda>h.
       thn (when_do (h \<noteq> None) (upd_node node (\<lambda>n. n\<lparr>node_next := h\<rparr>)))
         (modify (\<lambda>s. s\<lparr>master_head := node\<rparr>)))"

text \<open>The loop of \<open>serialDelNode\<close>: its variable \<open>prev\<close> is never assigned.\<close>

definition del_body :: "ptr \<Rightarrow> ptr \<times> ptr \<Rightarrow> (ptr \<times> ptr + unit) io" where
  "del_body node = (\<lambda>(prev, cur).
     if cur = None then ret (Inr ())
     else if node = cur then
       thn (case prev of
              None \<Rightarrow> modify (\<lambda>s. s\<lparr>master_head := None\<rparr>)
            | Some _ \<Rightarrow> bnd (get_node node) (\<lambda>n. upd_node prev (\<lambda>p. p\<lparr>node_next := node_next n\<rparr>)))
      (thn (upd_node node (\<lambda>n. n\<lparr>node_next := None\<rparr>)) (ret (Inr ())))
     else bnd (get_node cur) (\<lambda>n. ret (Inl (prev, node_next n))))"

definition serialDelNode :: "ptr \<Rightarrow> unit io" where
  "serialDelNode node =
     bnd (gets node_fuel) (\<lambda>fuel. bnd (gets master_head) (\<lambda>h.
       loop fuel (del_body node) (None, h)))"

definition serialGetNode :: "string option \<Rightarrow> ptr io" where
  "serialGetNode nodename =
     bnd (gets node_fuel) (\<lambda>fuel. bnd (gets master_head) (\<lambda>h.
       search_chain fuel nodes node_next (\<lambda>n. nodename = Some (node_name n)) h))"

definition serialAddVirtualNode :: "ptr \<Rightarrow> ptr \<Rightarrow> unit io" where
  "serialAddVirtualNode master virt =
     bnd (get_node master) (\<lambda>m.
       thn (when_do (virtual_head m \<noteq> None)
              (upd_node virt (\<lambda>v. v\<lparr>node_next := virtual_head m\<rparr>)))
      (thn (upd_node master (\<lambda>m. m\<lparr>virtual_head := virt\<rparr>))
        (upd_node virt (\<lambda>v. v\<lparr>virtualof := master\<rparr>))))"

text \<open>The loop of \<open>serialRemoveVirtualNode\<close>: again \<open>prev\<close> stays NULL.\<close>

definition remove_body :: "ptr \<Rightarrow> ptr \<Rightarrow> ptr \<times> ptr \<Rightarrow> (ptr \<times> ptr + unit) io" where
  "remove_body master virt = (\<lambda>(prev, cur).
     if cur = None then ret (Inr ())
     else if virt = cur then
       thn (case prev of
              None \<Rightarrow> upd_node master (\<lambda>m. m\<lparr>virtual_head := None\<rparr>)
            | Some _ \<Rightarrow> bnd (get_node virt) (\<lambda>v. upd_node prev (\<lambda>p. p\<lparr>node_next := node_next v\<rparr>)))
      (thn (upd_node virt (\<lambda>v. v\<lparr>node_next := None\<rparr>)) (ret (Inr ())))
     else bnd (get_node cur) (\<lambda>n. ret (Inl (prev, node_next n))))"

definition serialRemoveVirtualNode :: "ptr \<Rightarrow> ptr \<Rightarrow> unit io" where
  "serialRemoveVirtualNode master virt =
     bnd (gets node_fuel) (\<lambda>fuel. bnd (get_node master) (\<lambda>m.
       loop fuel (remove_body master virt) (None, virtual_head m)))"

definition serialGetVirtualNode :: "ptr \<Rightarrow> string option \<Rightarrow> ptr io" where
  "serialGetVirtualNode master nodename =
     bnd (gets node_fuel) (\<lambda>fuel. bnd (get_node master) (\<lambda>m.
       search_chain fuel nodes node_next (\<lambda>n. nodename = Some (node_name n)) (virtual_head m)))"

definition serialGetVirtualWriterNode :: "ptr \<Rightarrow> ptr io" where
  "serialGetVirtualWriterNode master =
     bnd (gets node_fuel) (\<lambda>fuel. bnd (get_node master) (\<lambda>m.
       search_chain fuel nodes node_next nodeIsWriter (virtual_head m)))"

text \<open>The return value and the contents of the name buffer.\<close>

definition serialVirtualName :: "string \<Rightarrow> string \<Rightarrow> nat \<Rightarrow> int \<times> string" where
  "serialVirtualName device suffix name_size =
     (let text = device @ ''.'' @ suffix
      in (if length text < name_size then 0 else -1, take (name_size - 1) text))"

definition orphan_body :: "ptr \<Rightarrow> (ptr + unit) io" where
  "orphan_body cur =
     (case cur of
        None \<Rightarrow> ret (Inr ())
      | Some _ \<Rightarrow>
          thn (upd_node cur (\<lambda>c. c\<lparr>virtualof := None\<rparr>))
            (bnd (get_node cur) (\<lambda>c. ret (Inl (node_next c)))))"

definition serialFreeNode :: "ptr \<Rightarrow> unit io" where
  "serialFreeNode n =
     bnd (gets node_fuel) (\<lambda>fuel.
     bnd (get_node n) (\<lambda>node.
       thn (loop fuel orphan_body (virtual_head node))
      (thn (when_do (nodeIsVirtual node)
              (thn (sys_remove (node_name node))
                (bnd (get_node n) (\<lambda>node'.
                  when_do (virtualof node' \<noteq> None)
                    (serialRemoveVirtualNode (virtualof node') n)))))
      (thn (upd_node n (\<lambda>c. c\<lparr>virtual_head := None\<rparr>))
        (modify (\<lambda>s. s\<lparr>nodes := (nodes s)(the n := None)\<rparr>))))))"

end
