(* ===== verification/Config.thy ===== *)
theory Config
  imports Ini SerialNodes
begin

text \<open>
  The two configuration files (\<open>src/config.c\<close>): the handlers the INI parser calls for each pair of
  the system file and of the serial file, and the functions that load the files.
\<close>

abbreviation (input) CONFIG_MIN_HZ :: int where "CONFIG_MIN_HZ \<equiv> 1"
abbreviation (input) CONFIG_MAX_HZ :: int where "CONFIG_MAX_HZ \<equiv> 500"
abbreviation (input) CONFIG_MIN_RECONNECT_INTERVAL_MS :: int where "CONFIG_MIN_RECONNECT_INTERVAL_MS \<equiv> 1000"
abbreviation (input) CONFIG_MAX_RECONNECT_INTERVAL_MS :: int where "CONFIG_MAX_RECONNECT_INTERVAL_MS \<equiv> 3600000"

definition yesnotoi :: "string \<Rightarrow> int" where
  "yesnotoi s = (if strcaseeq s ''yes'' then 1 else if strcaseeq s ''no'' then 0 else -1)"

definition getLogLevel :: "string option \<Rightarrow> int" where
  "getLogLevel name =
     (case name of
        None \<Rightarrow> LL_ERROR
      | Some n \<Rightarrow>
          if strcaseeq n ''debug'' then LL_DEBUG
          else if strcaseeq n ''info'' then LL_INFO
          else if strcaseeq n ''warn'' then LL_WARN
          else LL_ERROR)"

text \<open>\<open>if (v < lo) v = lo; if (v > hi) v = hi;\<close>\<close>

definition clamp :: "int \<Rightarrow> int \<Rightarrow> int \<Rightarrow> int" where
  "clamp lo hi v =
     (let v' = (if v < lo then lo else v) in if v' > hi then hi else v')"

text \<open>\<open>strdup(value)\<close>, leaving the program when there is no memory\<close>

definition strdup_or_exit :: "string \<Rightarrow> string \<Rightarrow> string option io" where
  "strdup_or_exit msg value =
     bnd sys_malloc (\<lambda>ok.
       if ok then ret (Some value) else exit_saying 2 (msg @ value @ [newline_char]) 1)"

definition serverConfigHandler :: "string \<Rightarrow> string \<Rightarrow> string \<Rightarrow> int io" where
  "serverConfigHandler sect name value =
     (let is = (\<lambda>s n. strcaseeq sect s \<and> strcaseeq name n) in
      if is ''logging'' ''logfile'' then
        bnd (strdup_or_exit ''Can't set config file: '' value)
          (\<lambda>v. thn (modify (\<lambda>s. s\<lparr>logfile := v\<rparr>)) (ret 1))
      else if is ''logging'' ''syslog-enabled'' then
        thn (modify (\<lambda>s. s\<lparr>syslog := yesnotoi value\<rparr>)) (ret 1)
      else if is ''logging'' ''loglevel'' then
        thn (modify (\<lambda>s. s\<lparr>verbosity := getLogLevel (Some value)\<rparr>)) (ret 1)
      else if is ''system'' ''hz'' then
        thn (modify (\<lambda>s. s\<lparr>hz := clamp CONFIG_MIN_HZ CONFIG_MAX_HZ (atoi value)\<rparr>)) (ret 1)
      else if is ''system'' ''reconnect-interval'' then
        thn (modify (\<lambda>s. s\<lparr>reconnect_interval :=
               clamp CONFIG_MIN_RECONNECT_INTERVAL_MS CONFIG_MAX_RECONNECT_INTERVAL_MS
                 (atoi value)\<rparr>))
          (ret 1)
      else if is ''system'' ''pidfile'' then
        bnd (strdup_or_exit ''Can't set pid file: '' value)
          (\<lambda>v. thn (modify (\<lambda>s. s\<lparr>pidfile := v\<rparr>)) (ret 1))
      else if is ''system'' ''serial-configfile'' then
        bnd (strdup_or_exit ''Can't set serial config file: '' value)
          (\<lambda>v. thn (modify (\<lambda>s. s\<lparr>serial_configfile := v\<rparr>)) (ret 1))
      else ret 0)"

definition serverLoadConfig :: "string option \<Rightarrow> unit io" where
  "serverLoadConfig filename =
     (case filename of
        None \<Rightarrow> ret ()
      | Some f \<Rightarrow>
          bnd (ini_parse f serverConfigHandler) (\<lambda>r.
            if r < 0 then exit_saying 2 (''Can't load config file: '' @ f @ [newline_char]) 1 else ret ()))"

section \<open>The serial file\<close>

text \<open>Look the section's node up; if there is none, create it and put it on the list.\<close>

definition master_for :: "string \<Rightarrow> ptr io" where
  "master_for sect =
     bnd (serialGetNode (Some sect)) (\<lambda>p.
       if p = None then
         bnd (serialCreateNode (Some sect) SERIAL_FLAG_MASTER) (\<lambda>q. thn (serialAddNode q) (ret q))
       else ret p)"

text \<open>One token of \<open>virtuals\<close>.\<close>

definition ensure_virtual :: "string \<Rightarrow> ptr \<Rightarrow> string \<Rightarrow> unit io" where
  "ensure_virtual sect node token =
     (case serialVirtualName sect token PATH_MAX of (r, virtual_name) \<Rightarrow>
        if r \<noteq> 0 then exit_saying 2 (''Can't create virtual name: '' @ token @ [newline_char]) 1
        else bnd (serialGetVirtualNode node (Some virtual_name)) (\<lambda>v.
          if v = None then
            bnd (serialCreateNode (Some virtual_name) SERIAL_FLAG_VIRTUAL) (\<lambda>v.
              serialAddVirtualNode node v)
          else ret ()))"

definition set_writer :: "string \<Rightarrow> ptr \<Rightarrow> string \<Rightarrow> unit io" where
  "set_writer sect node value =
     (case serialVirtualName sect value PATH_MAX of (r, virtual_name) \<Rightarrow>
        if r \<noteq> 0 then exit_saying 2 (''Can't create virtual name: '' @ value @ [newline_char]) 1
        else bnd (serialGetVirtualNode node (Some virtual_name)) (\<lambda>v.
          when_do (v \<noteq> None)
            (upd_node v (\<lambda>n. n\<lparr>node_flags := node_flags n OR SERIAL_FLAG_WRITER\<rparr>))))"

definition serialConfigHandler :: "string \<Rightarrow> string \<Rightarrow> string \<Rightarrow> int io" where
  "serialConfigHandler sect name value =
     bnd (master_for sect) (\<lambda>node.
       if strcaseeq name ''baudrate'' then
         thn (upd_node node (\<lambda>n. n\<lparr>baudrate := atoi value\<rparr>)) (ret 1)
       else if strcaseeq name ''virtuals'' then
         bnd (strdup_or_exit ''Can't set virtuals: '' value) (\<lambda>str.
           thn (for_each (strtok_tokens value) (ensure_virtual sect node)) (ret 1))
       else if strcaseeq name ''writer'' then
         thn (set_writer sect node value) (ret 1)
       else ret 0)"

definition serialLoadConfig :: "string option \<Rightarrow> unit io" where
  "serialLoadConfig filename =
     (case filename of
        None \<Rightarrow> exit_saying 2 (''Serial config file must be given'' @ [newline_char]) 1
      | Some f \<Rightarrow>
          bnd (ini_parse f serialConfigHandler) (\<lambda>r.
            if r < 0 then exit_saying 2 (''Can't load serial config file: '' @ f @ [newline_char]) 1
            else ret ()))"

end
