(* ===== verification/Frame.thy ===== *)
theory Frame
  imports World
begin

text \<open>
  What a command leaves alone. \<open>quiet s t\<close>: between \<open>s\<close> and \<open>t\<close> only calls without effect on
  the process's descriptors, its epoll set and its own data were made, and no bytes were written to
  a descriptor. Logging, terminal settings and the clock are quiet. The rules here are the ones
  the component proofs use for system calls.
\<close>

section \<open>Bytes written\<close>

fun wrote :: "syscall list \<Rightarrow> (int \<times> string) list" where
  "wrote [] = []"
| "wrote (Wrote fd d # tr) = (fd, d) # wrote tr"
| "wrote (_ # tr) = wrote tr"

lemma wrote_append [simp]: "wrote (xs @ ys) = wrote xs @ wrote ys"
  by (induction xs rule: wrote.induct) auto

definition is_write :: "syscall \<Rightarrow> bool" where
  "is_write c \<longleftrightarrow> (case c of Wrote _ _ \<Rightarrow> True | _ \<Rightarrow> False)"

lemma is_write_simps [simp]:
  "is_write (Wrote fd d)" "\<not> is_write (Opened p fd)" "\<not> is_write (PtyOpened fd sfd)"
  "\<not> is_write (Closed fd)" "\<not> is_write (Received fd d)" "\<not> is_write (Removed p)"
  "\<not> is_write (Symlinked p q)" "\<not> is_write (Unlinked p)" "\<not> is_write (SetTermios fd ts)"
  "\<not> is_write (SetSerial fd ser)" "\<not> is_write (Polled i)" "\<not> is_write (Slept n)"
  "\<not> is_write (Logged p i m)" "\<not> is_write (Syslogged i m)"
  "\<not> is_write (Printed fd m)"
  by (simp_all add: is_write_def)

lemma wrote_single [simp]: "\<not> is_write c \<Longrightarrow> wrote [c] = []"
  by (cases c) auto

lemma wp_exit_saying [simp]: "wp (exit_saying fd msg status) Q E s = E (Exit status)"
  by (simp add: exit_saying_def emit_def)

section \<open>The frame relations\<close>

text \<open>Same environment and same data outside the kernel.\<close>

definition same_env :: "'z kernel_scheme \<Rightarrow> 'z kernel_scheme \<Rightarrow> bool" where
  "same_env s t \<longleftrightarrow> kernel.more t = kernel.more s \<and> answers t = answers s \<and> speeds t = speeds s
     \<and> strerror t = strerror s \<and> wrote (trace t) = wrote (trace s)"

definition quiet :: "'z kernel_scheme \<Rightarrow> 'z kernel_scheme \<Rightarrow> bool" where
  "quiet s t \<longleftrightarrow> same_env s t \<and> fds t = fds s \<and> interest t = interest s"

lemma kernel_more_update [simp]:
  "kernel.more (s\<lparr>calls := c\<rparr>) = kernel.more s"
  "kernel.more (s\<lparr>errno := e\<rparr>) = kernel.more s"
  "kernel.more (s\<lparr>fds := F\<rparr>) = kernel.more s"
  "kernel.more (s\<lparr>interest := I\<rparr>) = kernel.more s"
  "kernel.more (s\<lparr>trace := tr\<rparr>) = kernel.more s"
  by (cases s; simp)+

lemma quiet_refl [simp, intro]: "quiet s s"
  by (simp add: quiet_def same_env_def)

lemma quiet_trans [trans]: "quiet s t \<Longrightarrow> quiet t u \<Longrightarrow> quiet s u"
  by (simp add: quiet_def same_env_def)

lemma same_env_refl [simp, intro]: "same_env s s"
  by (simp add: same_env_def)

lemma same_env_trans: "same_env s t \<Longrightarrow> same_env t u \<Longrightarrow> same_env s u"
  by (simp add: same_env_def)

lemma quiet_same_env: "quiet s t \<Longrightarrow> same_env s t"
  by (simp add: quiet_def)

text \<open>Every field of the world outside the kernel is the same.\<close>

lemma same_env_world:
  fixes s t :: world
  assumes "same_env s t"
  shows "nodes t = nodes s" "links t = links s" "el t = el s" "tevs t = tevs s"
    "tev_brk t = tev_brk s" "node_brk t = node_brk s" "link_brk t = link_brk s"
    "master_head t = master_head s" "logfile t = logfile s" "verbosity t = verbosity s"
    "syslog t = syslog s" "hz t = hz s" "reconnect_interval t = reconnect_interval s"
    "cronloops t = cronloops s" "shutdown t = shutdown s" "pidfile t = pidfile s"
    "daemonize t = daemonize s" "cron_event_id t = cron_event_id s"
    "wrote (trace t) = wrote (trace s)" "answers t = answers s" "speeds t = speeds s"
    "maxclients t = maxclients s"
  using assms by (cases s; cases t; simp add: same_env_def)+

lemma same_env_ae:
  fixes s t :: "'z aestate_scheme"
  assumes "same_env s t"
  shows "el t = el s" "tevs t = tevs s" "tev_brk t = tev_brk s"
    "aestate.more t = aestate.more s"
  using assms by (cases s; cases t; simp add: same_env_def)+

lemma quiet_kernel:
  assumes "quiet s t"
  shows "fds t = fds s" "interest t = interest s"
  using assms by (simp_all add: quiet_def)

lemmas quiet_world = same_env_world [OF quiet_same_env] quiet_kernel
lemmas quiet_ae = same_env_ae [OF quiet_same_env] quiet_kernel

section \<open>Rules for the system calls\<close>

lemma wp_ask: "wp ask Q E s = Q (answers s (calls s)) (s\<lparr>calls := Suc (calls s)\<rparr>)"
  by (simp add: wp_def ask_def)

lemma wp_set_errno: "wp (set_errno e) Q E s = Q () (s\<lparr>errno := e\<rparr>)"
  by (simp add: set_errno_def)

lemma wp_emit: "wp (emit c) Q E s = Q () (s\<lparr>trace := trace s @ [c]\<rparr>)"
  by (simp add: emit_def)

lemma wp_failing: "wp (failing r x) Q E s = Q x (s\<lparr>errno := r_errno r\<rparr>)"
  by (simp add: failing_def wp_set_errno)

lemma wp_on_fd:
  "wp (on_fd fd bad m) Q E s =
     (if fd \<in> set (fds s) then wp m Q E s else Q bad (s\<lparr>errno := EBADF\<rparr>))"
  by (simp add: on_fd_def wp_set_errno)

lemma wp_if: "wp (if b then m else n) Q E s = (if b then wp m Q E s else wp n Q E s)"
  by simp

lemmas wp_kernel = wp_ask wp_set_errno wp_emit wp_failing wp_on_fd wp_if
lemmas frame_defs = quiet_def same_env_def

text \<open>A quiet call: whatever it returns, the frame is kept. Its rule is used backwards.\<close>

lemma quiet_wp:
  assumes "wp m (\<lambda>_ t. quiet s t) (\<lambda>_. False) s" and "\<And>x t. quiet s t \<Longrightarrow> Q x t"
  shows "wp m Q E s"
  using assms(1) by (rule wp_mono) (auto intro: assms(2))

lemma quiet_isatty: "wp (sys_isatty fd) (\<lambda>_ t. quiet s t) (\<lambda>_. False) s"
  by (simp add: sys_isatty_def wp_kernel frame_defs)

lemma quiet_ttyname: "wp (sys_ttyname fd) (\<lambda>_ t. quiet s t) (\<lambda>_. False) s"
  by (simp add: sys_ttyname_def wp_kernel frame_defs)

lemma quiet_tcgetattr: "wp (sys_tcgetattr fd) (\<lambda>_ t. quiet s t) (\<lambda>_. False) s"
  by (simp add: sys_tcgetattr_def wp_kernel frame_defs)

lemma quiet_tcsetattr: "wp (sys_tcsetattr fd ts) (\<lambda>_ t. quiet s t) (\<lambda>_. False) s"
  by (simp add: sys_tcsetattr_def wp_kernel frame_defs)

lemma quiet_tiocgserial: "wp (sys_tiocgserial fd) (\<lambda>_ t. quiet s t) (\<lambda>_. False) s"
  by (simp add: sys_tiocgserial_def wp_kernel frame_defs)

lemma quiet_tiocsserial: "wp (sys_tiocsserial fd ser) (\<lambda>_ t. quiet s t) (\<lambda>_. False) s"
  by (simp add: sys_tiocsserial_def wp_kernel frame_defs)

lemma quiet_remove: "wp (sys_remove p) (\<lambda>_ t. quiet s t) (\<lambda>_. False) s"
  by (simp add: sys_remove_def wp_kernel frame_defs)

lemma quiet_symlink: "wp (sys_symlink t p) (\<lambda>_ t. quiet s t) (\<lambda>_. False) s"
  by (cases t) (simp_all add: sys_symlink_def wp_kernel frame_defs)

lemma quiet_unlink: "wp (sys_unlink p) (\<lambda>_ t. quiet s t) (\<lambda>_. False) s"
  by (cases p) (simp_all add: sys_unlink_def wp_kernel frame_defs)

lemma quiet_gettimeofday: "wp sys_gettimeofday (\<lambda>_ t. quiet s t) (\<lambda>_. False) s"
  by (simp add: sys_gettimeofday_def wp_kernel frame_defs)

lemma quiet_time: "wp sys_time (\<lambda>_ t. quiet s t) (\<lambda>_. False) s"
  by (simp add: sys_time_def wp_kernel frame_defs)

lemma quiet_usleep: "wp (sys_usleep n) (\<lambda>_ t. quiet s t) (\<lambda>_. False) s"
  by (simp add: sys_usleep_def wp_kernel frame_defs)

lemma quiet_malloc: "wp sys_malloc (\<lambda>_ t. quiet s t) (\<lambda>_. False) s"
  by (simp add: sys_malloc_def wp_kernel frame_defs)

lemma quiet_getpid: "wp sys_getpid (\<lambda>_ t. quiet s t) (\<lambda>_. False) s"
  by (simp add: sys_getpid_def wp_kernel frame_defs)

lemma quiet_sigaction: "wp (sys_sigaction n) (\<lambda>_ t. quiet s t) (\<lambda>_. False) s"
  by (simp add: sys_sigaction_def wp_kernel frame_defs)

lemma quiet_signal: "wp sys_signal (\<lambda>_ t. quiet s t) (\<lambda>_. False) s"
  by (simp add: sys_signal_def wp_kernel frame_defs)

lemma wp_sys_malloc: "(\<And>t. quiet s t \<Longrightarrow> Q (r_ok (answers s (calls s))) t) \<Longrightarrow> wp sys_malloc Q E s"
  by (simp add: sys_malloc_def wp_kernel frame_defs)

lemma quiet_setsid: "wp sys_setsid (\<lambda>_ t. quiet s t) (\<lambda>_. False) s"
  by (simp add: sys_setsid_def wp_kernel frame_defs)

lemma quiet_read: "wp (sys_read fd n) (\<lambda>_ t. quiet s t) (\<lambda>_. False) s"
  by (simp add: sys_read_def wp_kernel frame_defs)

lemma quiet_epoll_wait: "wp (sys_epoll_wait n t) (\<lambda>_ t. quiet s t) (\<lambda>_. False) s"
  by (simp add: sys_epoll_wait_def wp_kernel frame_defs)

lemmas wp_quiet_calls [wp_rules] =
  quiet_isatty [THEN quiet_wp] quiet_ttyname [THEN quiet_wp] quiet_tcgetattr [THEN quiet_wp]
  quiet_tcsetattr [THEN quiet_wp] quiet_tiocgserial [THEN quiet_wp]
  quiet_tiocsserial [THEN quiet_wp] quiet_remove [THEN quiet_wp] quiet_symlink [THEN quiet_wp]
  quiet_unlink [THEN quiet_wp] quiet_gettimeofday [THEN quiet_wp] quiet_time [THEN quiet_wp]
  quiet_usleep [THEN quiet_wp] quiet_malloc [THEN quiet_wp] quiet_getpid [THEN quiet_wp]
  quiet_sigaction [THEN quiet_wp] quiet_epoll_wait [THEN quiet_wp]

text \<open>\<open>read\<close>: nothing arrived, or at most \<open>n\<close> of the bytes the environment has.\<close>

lemma wp_sys_read:
  assumes d: "d = take n (r_data (answers s (calls s)))"
    and fd: "fd \<in> set (fds s)"
    and "\<And>r t. quiet s t \<Longrightarrow> r \<le> 0 \<Longrightarrow> \<not> (r_ok (answers s (calls s)) \<and> d \<noteq> []) \<Longrightarrow>
      errno t = (if r_ok (answers s (calls s)) then errno s else r_errno (answers s (calls s))) \<Longrightarrow> Q (r, []) t"
    and "\<And>t. quiet s t \<Longrightarrow> d \<noteq> [] \<Longrightarrow> r_ok (answers s (calls s)) \<Longrightarrow> Q (int (length d), d) t"
  shows "wp (sys_read fd n) Q E s"
proof -
  let ?t = "s\<lparr>calls := Suc (calls s), trace := trace s @ [Received fd d]\<rparr>"
  have q: "quiet s ?t" "quiet s (s\<lparr>calls := Suc (calls s), errno := e\<rparr>)" for e
    by (simp_all add: frame_defs)
  have "Q (int (length d), d) ?t" if "r_ok (answers s (calls s))"
    using assms(3) [OF q(1), of 0] assms(4) [OF q(1)] that by (cases "d = []") simp_all
  moreover have "Q (-1, []) (s\<lparr>calls := Suc (calls s), errno := r_errno (answers s (calls s))\<rparr>)"
    if "\<not> r_ok (answers s (calls s))"
    using assms(3) [OF q(2), of "-1"] that by simp
  ultimately show ?thesis
    using fd by (simp add: sys_read_def wp_kernel flip: d)
qed

lemma wp_sys_close:
  "wp (sys_close fd) Q E s =
     (if fd \<in> set (fds s)
      then Q 0 (s\<lparr>fds := remove1 fd (fds s), interest := (interest s)(fd := None),
                   trace := trace s @ [Closed fd]\<rparr>)
      else Q (-1) (s\<lparr>errno := EBADF\<rparr>))"
  by (simp add: sys_close_def wp_kernel)

section \<open>Logging\<close>

text \<open>
  What a log call needs: a \<open>logfile\<close> string (a NULL one is dereferenced), and no closed descriptor
  in the epoll set, which the descriptor of the log file might reuse.
\<close>

definition log_ok :: "world \<Rightarrow> bool" where
  "log_ok s \<longleftrightarrow> logfile s \<noteq> None \<and> (\<forall>fd. fd \<notin> set (fds s) \<longrightarrow> interest s fd = None)"

text \<open>The second half of it, which is all that opening and closing a file needs.\<close>

definition fd_ok :: "world \<Rightarrow> bool" where
  "fd_ok s \<longleftrightarrow> (\<forall>fd. fd \<notin> set (fds s) \<longrightarrow> interest s fd = None)"

lemma log_ok_fd_ok [simp]: "log_ok s \<Longrightarrow> fd_ok s"
  by (simp add: log_ok_def fd_ok_def)

lemma log_ok_quiet: "quiet s t \<Longrightarrow> log_ok t = log_ok s"
  by (simp add: log_ok_def quiet_world)

text \<open>Opening the log file and closing it again leaves the descriptors as they were.\<close>

lemma quiet_serverLogRaw:
  assumes "log_ok s" and level: "0 \<le> level" "level \<le> 3"
  shows "wp (serverLogRaw level msg) (\<lambda>_ t. quiet s t) (\<lambda>_. False) s"
proof -
  obtain path where path: "logfile s = Some path" using assms(1) by (auto simp: log_ok_def)
  have fd: "lowest_fd (fds s) \<notin> set (fds s)" "lowest_fd (fds s) \<noteq> -1"
    using lowest_fd_fresh [of "fds s"] by auto
  then have "(interest s)(lowest_fd (fds s) := None) = interest s"
    using assms(1) by (intro fun_upd_idem) (simp add: log_ok_def)
  with path fd level show ?thesis
    by (cases "path = []")
       (simp_all add: serverLogRaw_def wp_kernel sys_open_def wp_sys_close sys_gettimeofday_def
         syslogLevelMap_def frame_defs nat_less_iff)
qed

lemma wp_serverLog:
  assumes "log_ok s" and "0 \<le> level" "level \<le> 3" and "\<And>t. quiet s t \<Longrightarrow> Q () t"
  shows "wp (serverLog level msg) Q E s"
proof -
  have "wp (serverLogRaw level m) Q E s" for m
    by (rule quiet_wp [OF quiet_serverLogRaw]) (use assms in auto)
  then show ?thesis using assms(4) by (simp add: serverLog_def wp_kernel)
qed

lemma wp_serverLogErrno:
  assumes "log_ok s" and "0 \<le> level" "level \<le> 3" and "\<And>t. quiet s t \<Longrightarrow> Q () t"
  shows "wp (serverLogErrno level msg) Q E s"
proof -
  have "wp (serverLog level m) Q E s" for m
    by (rule wp_serverLog) (use assms in auto)
  then show ?thesis using assms(4) by (simp add: serverLogErrno_def wp_kernel)
qed

end
