(* ===== verification/Registry.thy ===== *)
theory Registry
  imports SerialNodes Frame
begin

text \<open>
  The well-formedness of the node registry and what its operations do to it. \<open>reg_ok\<close> ties the heap
  of nodes to the lists it represents: the masters in list order, and for each master its virtual
  nodes in list order. The abstract registry is a list of masters with name, rate and named virtual
  nodes; \<open>reg_view\<close> says which abstract registry a state holds.
\<close>

section \<open>The invariant\<close>

definition master_ok :: "(nat \<Rightarrow> serialNode option) \<Rightarrow> nat \<Rightarrow> nat list \<Rightarrow> bool" where
  "master_ok N m xs \<longleftrightarrow>
     (\<exists>n. N m = Some n \<and> nodeIsMaster n \<and> \<not> nodeIsVirtual n \<and> virtualof n = None
        \<and> chain N node_next (virtual_head n) xs)
     \<and> (\<forall>v\<in>set xs. \<exists>k. N v = Some k \<and> nodeIsVirtual k \<and> \<not> nodeIsMaster k
          \<and> virtualof k = Some m \<and> virtual_head k = None)"

definition reg_ok ::
    "(nat \<Rightarrow> serialNode option) \<Rightarrow> ptr \<Rightarrow> nat \<Rightarrow> nat list \<Rightarrow> (nat \<Rightarrow> nat list) \<Rightarrow> bool" where
  "reg_ok N h b ms vs \<longleftrightarrow>
     chain N node_next h ms \<and> (\<forall>m\<in>set ms. master_ok N m (vs m))
     \<and> dom N = set ms \<union> (\<Union>m\<in>set ms. set (vs m)) \<and> dom N \<subseteq> {..<b}"

text \<open>What the invariant reads of a node.\<close>

definition shape :: "serialNode \<Rightarrow> bool \<times> bool \<times> ptr \<times> ptr \<times> ptr" where
  "shape n = (nodeIsMaster n, nodeIsVirtual n, virtual_head n, virtualof n, node_next n)"

definition same_shape :: "(nat \<Rightarrow> serialNode option) \<Rightarrow> (nat \<Rightarrow> serialNode option) \<Rightarrow> bool" where
  "same_shape N N' \<longleftrightarrow> (\<forall>a. map_option shape (N' a) = map_option shape (N a))"

lemma same_shape_refl [simp]: "same_shape N N"
  by (simp add: same_shape_def)

lemma same_shape_upd [simp]:
  "N a = Some n \<Longrightarrow> shape n' = shape n \<Longrightarrow> same_shape N (N(a \<mapsto> n'))"
  by (simp add: same_shape_def)

lemma same_shape_None: "same_shape N N' \<Longrightarrow> N' a = None \<longleftrightarrow> N a = None"
  unfolding same_shape_def by (metis map_option_is_None)

lemma same_shape_dom: "same_shape N N' \<Longrightarrow> dom N' = dom N"
  by (auto simp: dom_def same_shape_None)

lemma same_shape_Some:
  assumes "same_shape N N'" and "N a = Some n"
  obtains n' where "N' a = Some n'" and "shape n' = shape n"
  using assms by (metis (no_types, lifting) map_option_eq_Some same_shape_def)

lemma same_shape_sym: "same_shape N N' \<Longrightarrow> same_shape N' N"
  by (simp add: same_shape_def)

lemma same_shape_chain:
  assumes "same_shape N N'"
  shows "chain N' node_next p as = chain N node_next p as"
proof (rule chain_cong)
  fix a
  have "map_option node_next (M a) = map_option (snd \<circ> snd \<circ> snd \<circ> snd) (map_option shape (M a))"
    for M :: "nat \<Rightarrow> serialNode option"
    by (cases "M a") (simp_all add: shape_def)
  then show "map_option node_next (N' a) = map_option node_next (N a)"
    using assms by (simp add: same_shape_def)
qed

lemma master_ok_shape:
  assumes "same_shape N N'" and "master_ok N m xs"
  shows "master_ok N' m xs"
proof -
  obtain n where n: "N m = Some n" "nodeIsMaster n" "\<not> nodeIsVirtual n" "virtualof n = None"
    "chain N node_next (virtual_head n) xs"
    using assms(2) by (auto simp: master_ok_def)
  obtain n' where "N' m = Some n'" "shape n' = shape n" using assms(1) n(1) by (rule same_shape_Some)
  moreover have "\<exists>k. N' v = Some k \<and> nodeIsVirtual k \<and> \<not> nodeIsMaster k \<and> virtualof k = Some m
      \<and> virtual_head k = None" if v: "v \<in> set xs" for v
  proof -
    obtain k where k: "N v = Some k" "nodeIsVirtual k" "\<not> nodeIsMaster k" "virtualof k = Some m"
      "virtual_head k = None"
      using assms(2) v unfolding master_ok_def by blast
    obtain k' where "N' v = Some k'" "shape k' = shape k" using assms(1) k(1) by (rule same_shape_Some)
    with k show ?thesis by (simp add: shape_def)
  qed
  ultimately show ?thesis
    using n by (simp add: master_ok_def shape_def same_shape_chain [OF assms(1)])
qed

lemma reg_ok_shape: "same_shape N N' \<Longrightarrow> reg_ok N h b ms vs \<Longrightarrow> reg_ok N' h b ms vs"
  by (auto simp: reg_ok_def same_shape_chain same_shape_dom intro: master_ok_shape)

lemma reg_ok_master:
  assumes "reg_ok N h b ms vs" and "m \<in> set ms"
  obtains n where "N m = Some n" "nodeIsMaster n" "\<not> nodeIsVirtual n" "virtualof n = None"
    "chain N node_next (virtual_head n) (vs m)"
  using assms by (auto simp: reg_ok_def master_ok_def)

lemma reg_ok_virtual:
  assumes "reg_ok N h b ms vs" and "m \<in> set ms" and "v \<in> set (vs m)"
  obtains k where "N v = Some k" "nodeIsVirtual k" "\<not> nodeIsMaster k" "virtualof k = Some m"
    "virtual_head k = None"
proof -
  from assms have "master_ok N m (vs m)" by (simp add: reg_ok_def)
  with assms(3) that show thesis unfolding master_ok_def by blast
qed

text \<open>Every node is a master of the list or a virtual node of one.\<close>

lemma reg_ok_cases:
  assumes "reg_ok N h b ms vs" and "N a = Some n"
  obtains (master) "a \<in> set ms" "nodeIsMaster n" "\<not> nodeIsVirtual n"
  | (virtual) m where "m \<in> set ms" "a \<in> set (vs m)" "nodeIsVirtual n" "\<not> nodeIsMaster n"
      "virtualof n = Some m"
proof -
  from assms have "a \<in> set ms \<or> (\<exists>m\<in>set ms. a \<in> set (vs m))" by (auto simp: reg_ok_def)
  then show ?thesis
  proof
    assume "a \<in> set ms"
    with assms(1) show ?thesis by (rule reg_ok_master) (use assms(2) master \<open>a \<in> set ms\<close> in auto)
  next
    assume "\<exists>m\<in>set ms. a \<in> set (vs m)"
    then obtain m where m: "m \<in> set ms" "a \<in> set (vs m)" by blast
    with assms(1) show ?thesis by (rule reg_ok_virtual) (use assms(2) virtual m in auto)
  qed
qed

lemma reg_ok_disjoint:
  assumes "reg_ok N h b ms vs" and "m \<in> set ms" and "m' \<in> set ms"
  shows "m \<notin> set (vs m')" and "m \<noteq> m' \<Longrightarrow> set (vs m) \<inter> set (vs m') = {}"
proof -
  show "m \<notin> set (vs m')"
    using reg_ok_master [OF assms(1,2)] reg_ok_virtual [OF assms(1,3), of m] by (metis option.inject)
  show "set (vs m) \<inter> set (vs m') = {}" if "m \<noteq> m'"
  proof (rule ccontr)
    assume "set (vs m) \<inter> set (vs m') \<noteq> {}"
    then obtain v where "v \<in> set (vs m)" "v \<in> set (vs m')" by auto
    then show False
      using reg_ok_virtual [OF assms(1,2), of v] reg_ok_virtual [OF assms(1,3), of v] that
      by (metis option.inject)
  qed
qed

lemma reg_ok_distinct:
  assumes "reg_ok N h b ms vs"
  shows "distinct ms" and "m \<in> set ms \<Longrightarrow> distinct (vs m)"
  using assms by (auto simp: reg_ok_def master_ok_def intro: chain_distinct)

lemma reg_ok_bound: "reg_ok N h b ms vs \<Longrightarrow> b \<le> a \<Longrightarrow> N a = None"
  by (auto simp: reg_ok_def dom_def subset_iff)

lemma reg_ok_fuel:
  assumes "reg_ok N h b ms vs"
  shows "length ms < Suc b" and "m \<in> set ms \<Longrightarrow> length (vs m) < Suc b"
  using assms by (auto simp: reg_ok_def less_Suc_eq_le intro: chain_bounded elim!: reg_ok_master [OF assms])

section \<open>Access and lookups\<close>

lemma wp_get_node: "nodes s a = Some n \<Longrightarrow> wp (get_node (Some a)) Q E s = Q n s"
  by (simp add: get_node_def)

lemma wp_upd_node:
  "nodes s a = Some n \<Longrightarrow>
   wp (upd_node (Some a) f) Q E s = Q () (s\<lparr>nodes := (nodes s)(a \<mapsto> f n)\<rparr>)"
  by (simp add: upd_node_def wp_get_node)

lemma wp_get_link: "links s a = Some l \<Longrightarrow> wp (get_link (Some a)) Q E s = Q l s"
  by (simp add: get_link_def)

lemma wp_upd_link:
  "links s a = Some l \<Longrightarrow>
   wp (upd_link (Some a) f) Q E s = Q () (s\<lparr>links := (links s)(a \<mapsto> f l)\<rparr>)"
  by (simp add: upd_link_def wp_get_link)

abbreviation (input) reg_state :: "world \<Rightarrow> nat list \<Rightarrow> (nat \<Rightarrow> nat list) \<Rightarrow> bool" where
  "reg_state s ms vs \<equiv> reg_ok (nodes s) (master_head s) (node_brk s) ms vs"

definition named :: "(nat \<Rightarrow> serialNode option) \<Rightarrow> string \<Rightarrow> nat \<Rightarrow> bool" where
  "named N nm a \<longleftrightarrow> nm = node_name (the (N a))"

definition writes :: "(nat \<Rightarrow> serialNode option) \<Rightarrow> nat \<Rightarrow> bool" where
  "writes N a \<longleftrightarrow> nodeIsWriter (the (N a))"

lemma wp_serialGetNode:
  assumes "reg_state s ms vs"
  shows "wp (serialGetNode (Some nm)) Q E s = Q (find (named (nodes s) nm) ms) s"
proof -
  have "chain (nodes s) node_next (master_head s) ms" using assms by (simp add: reg_ok_def)
  with reg_ok_fuel(1) [OF assms] show ?thesis
    by (simp add: serialGetNode_def node_fuel_def wp_search named_def [abs_def])
qed

lemma wp_serialGetVirtualNode:
  assumes "reg_state s ms vs" and "m \<in> set ms"
  shows "wp (serialGetVirtualNode (Some m) (Some nm)) Q E s = Q (find (named (nodes s) nm) (vs m)) s"
proof -
  obtain n where "nodes s m = Some n" "chain (nodes s) node_next (virtual_head n) (vs m)"
    using assms by (rule reg_ok_master)
  with reg_ok_fuel(2) [OF assms] show ?thesis
    by (simp add: serialGetVirtualNode_def node_fuel_def wp_get_node wp_search named_def [abs_def])
qed

lemma wp_serialGetVirtualWriterNode:
  assumes "reg_state s ms vs" and "m \<in> set ms"
  shows "wp (serialGetVirtualWriterNode (Some m)) Q E s = Q (find (writes (nodes s)) (vs m)) s"
proof -
  obtain n where "nodes s m = Some n" "chain (nodes s) node_next (virtual_head n) (vs m)"
    using assms by (rule reg_ok_master)
  with reg_ok_fuel(2) [OF assms] show ?thesis
    by (simp add: serialGetVirtualWriterNode_def node_fuel_def wp_get_node wp_search writes_def [abs_def])
qed

section \<open>Growing the registry\<close>

lemma master_ok_upd_notin:
  "a \<noteq> m \<Longrightarrow> a \<notin> set xs \<Longrightarrow> master_ok (N(a := x)) m xs = master_ok N m xs"
  by (auto simp: master_ok_def)

lemma reg_ok_fresh:
  assumes "reg_ok N h b ms vs"
  shows "b \<notin> set ms" and "m \<in> set ms \<Longrightarrow> b \<notin> set (vs m)"
  using assms by (auto simp: reg_ok_def subset_iff)

lemma reg_ok_add_master:
  assumes reg: "reg_ok N h b ms vs"
    and n: "nodeIsMaster n" "\<not> nodeIsVirtual n" "virtualof n = None" "virtual_head n = None"
      "node_next n = h"
  shows "reg_ok (N(b \<mapsto> n)) (Some b) (Suc b) (b # ms) (vs(b := []))"
proof -
  note fresh = reg_ok_fresh [OF reg]
  have "master_ok (N(b \<mapsto> n)) m ((vs(b := [])) m)" if "m \<in> set (b # ms)" for m
  proof (cases "m = b")
    case True
    then show ?thesis using n by (simp add: master_ok_def)
  next
    case False
    with that fresh reg show ?thesis by (simp add: master_ok_upd_notin reg_ok_def)
  qed
  moreover have "(\<Union>m\<in>set ms. set ((vs(b := [])) m)) = (\<Union>m\<in>set ms. set (vs m))"
    using fresh by (intro SUP_cong) auto
  then have "dom (N(b \<mapsto> n)) = set (b # ms) \<union> (\<Union>m\<in>set (b # ms). set ((vs(b := [])) m))"
    using reg by (simp add: reg_ok_def insert_commute)
  moreover have "dom N \<subseteq> {..<b}" using reg unfolding reg_ok_def by blast
  then have "dom (N(b \<mapsto> n)) \<subseteq> {..<Suc b}" by (auto simp: lessThan_Suc)
  ultimately show ?thesis
    using reg n fresh by (simp add: reg_ok_def)
qed

lemma reg_ok_add_virtual:
  assumes reg: "reg_ok N h b ms vs" and m: "m \<in> set ms" "N m = Some mn"
    and k: "nodeIsVirtual k" "\<not> nodeIsMaster k" "virtualof k = Some m" "virtual_head k = None"
      "node_next k = virtual_head mn"
  shows "reg_ok (N(b \<mapsto> k, m \<mapsto> mn\<lparr>virtual_head := Some b\<rparr>)) h (Suc b) ms (vs(m := b # vs m))"
    (is "reg_ok ?N _ _ _ ?vs")
proof -
  note fresh = reg_ok_fresh [OF reg] and disj = reg_ok_disjoint [OF reg]
  have bm: "b \<noteq> m" using fresh m by auto
  have chain_ms: "chain ?N node_next p as = chain N node_next p as" if "b \<notin> set as" for p as
    using that m bm by (intro chain_cong) auto
  have mok: "master_ok N x (vs x)" if "x \<in> set ms" for x
    using reg that by (simp add: reg_ok_def)
  have "master_ok ?N x (?vs x)" if x: "x \<in> set ms" for x
  proof (cases "x = m")
    case True
    have "chain ?N node_next (Some b) (b # vs m)"
      using mok [OF m(1)] m(2) k(5) bm fresh(2) [OF m(1)]
      by (auto simp: master_ok_def chain_ms)
    then show ?thesis
      using mok [OF m(1)] m(2) k bm disj(1) [OF m(1) m(1)] fresh(2) [OF m(1)] True
      unfolding master_ok_def by (auto simp: nodeIsMaster_def nodeIsVirtual_def)
  next
    case False
    then have "master_ok ?N x (vs x) = master_ok N x (vs x)"
      using x m bm fresh disj(1) [OF m(1) x] by (simp add: master_ok_upd_notin)
        (metis master_ok_upd_notin)
    with False mok [OF x] show ?thesis by simp
  qed
  moreover have dom: "dom ?N = insert b (dom N)" using m(2) by auto
  then have "dom ?N = set ms \<union> (\<Union>x\<in>set ms. set (?vs x))"
    using reg m(1) by (auto simp: reg_ok_def split: if_splits)
  moreover have "dom N \<subseteq> {..<b}" using reg unfolding reg_ok_def by blast
  then have "dom ?N \<subseteq> {..<Suc b}" unfolding dom by (auto simp: lessThan_Suc)
  ultimately show ?thesis
    using reg fresh by (simp add: reg_ok_def chain_ms)
qed

text \<open>What a call that only touches the node registry leaves alone.\<close>

definition without_nodes :: "world \<Rightarrow> world" where
  "without_nodes s = s\<lparr>nodes := (\<lambda>_. None), node_brk := 0, master_head := None\<rparr>"

text \<open>Which link each node has.\<close>

definition linkof :: "(nat \<Rightarrow> serialNode option) \<Rightarrow> nat \<Rightarrow> ptr" where
  "linkof N n = (case N n of None \<Rightarrow> None | Some k \<Rightarrow> node_link k)"

lemma linkof_Some: "linkof N n = Some a \<longleftrightarrow> (\<exists>k. N n = Some k \<and> node_link k = Some a)"
  by (simp add: linkof_def split: option.splits)

lemma linkof_upd [simp]:
  "N a = Some n \<Longrightarrow> node_link n' = node_link n \<Longrightarrow> linkof (N(a \<mapsto> n')) = linkof N"
  "N a = None \<Longrightarrow> node_link n' = None \<Longrightarrow> linkof (N(a \<mapsto> n')) = linkof N"
  by (auto simp: linkof_def fun_eq_iff)

definition node_frame :: "world \<Rightarrow> world \<Rightarrow> bool" where
  "node_frame s t \<longleftrightarrow> quiet (without_nodes s) (without_nodes t) \<and> linkof (nodes t) = linkof (nodes s)"

lemma node_frame_refl [simp, intro]: "node_frame s s"
  by (simp add: node_frame_def)

lemma node_frame_trans [trans]: "node_frame s t \<Longrightarrow> node_frame t u \<Longrightarrow> node_frame s u"
  unfolding node_frame_def by (auto intro: quiet_trans)

lemma quiet_node_frame: "quiet s t \<Longrightarrow> node_frame s t"
  by (cases s; cases t) (simp add: node_frame_def without_nodes_def frame_defs)

lemma node_frame_upd [simp]:
  "linkof N = linkof (nodes t) \<Longrightarrow> node_frame s (t\<lparr>nodes := N\<rparr>) = node_frame s t"
  "node_frame s (t\<lparr>node_brk := b\<rparr>) = node_frame s t"
  "node_frame s (t\<lparr>master_head := h\<rparr>) = node_frame s t"
  by (simp_all add: node_frame_def without_nodes_def)

lemma node_frame_world:
  assumes "node_frame s t"
  shows "links t = links s" "link_brk t = link_brk s" "el t = el s" "tevs t = tevs s"
    "tev_brk t = tev_brk s" "fds t = fds s" "interest t = interest s" "logfile t = logfile s"
    "verbosity t = verbosity s" "hz t = hz s" "reconnect_interval t = reconnect_interval s"
    "cronloops t = cronloops s" "linkof (nodes t) = linkof (nodes s)" "cron_event_id t = cron_event_id s"
    "answers t = answers s"
  using quiet_world [of "without_nodes s" "without_nodes t"] assms
  by (simp_all add: node_frame_def without_nodes_def)

lemma node_frame_log_ok: "node_frame s t \<Longrightarrow> log_ok t = log_ok s"
  by (simp add: log_ok_def node_frame_world)

text \<open>Every call that can fail succeeds.\<close>

definition all_ok :: "world \<Rightarrow> bool" where
  "all_ok s \<longleftrightarrow> (\<forall>i. r_ok (answers s i))"

lemma all_ok_frame:
  "node_frame s t \<Longrightarrow> all_ok t = all_ok s" "quiet s t \<Longrightarrow> all_ok t = all_ok s" "same_env s t \<Longrightarrow> all_ok t = all_ok s"
  using quiet_same_env [of s t] by (auto simp: all_ok_def node_frame_world same_env_world)

definition new_node :: "string \<Rightarrow> mask \<Rightarrow> ptr \<Rightarrow> ptr \<Rightarrow> serialNode" where
  "new_node nm flags vof nxt =
     \<lparr>node_name = strlcpy nm PATH_MAX, node_flags = flags, virtual_head = None, virtualof = vof,
      baudrate = 9600, node_link = None, node_next = nxt\<rparr>"

lemma wp_serialCreateNode:
  assumes "log_ok s" and "all_ok s \<or> E (Exit 1)"
    and "\<And>t. quiet s t \<Longrightarrow> Q (Some (node_brk s))
      (t\<lparr>node_brk := Suc (node_brk s), nodes := (nodes s)(node_brk s \<mapsto> new_node nm flags None None)\<rparr>)"
  shows "wp (serialCreateNode (Some nm) flags) Q E s"
proof -
  have "wp (serverLog LL_ERROR msg) (\<lambda>_ _. E (Exit 1)) E t" if "quiet s t" "\<not> all_ok s" for t msg
    by (rule wp_serverLog) (use that assms in \<open>auto simp: log_ok_quiet\<close>)
  then have "wp (if \<not> ok then thn (serverLog LL_ERROR ''calloc failed'') (stop_with (Exit 1))
      else bnd (gets node_brk) (\<lambda>a.
        thn (modify (\<lambda>s. s\<lparr>node_brk := Suc a, nodes := (nodes s)(a \<mapsto> new_node nm flags None None)\<rparr>))
          (ret (Some a)))) Q E t" if "quiet s t" "ok = r_ok (answers s (calls s))" for t ok
    using assms(3) [OF that(1)] that by (auto simp: quiet_world all_ok_def)
  then show ?thesis
    unfolding serialCreateNode_def new_node_def option.case wp_bnd
    by (intro wp_sys_malloc) simp
qed

lemma wp_serialAddNode:
  assumes "nodes s a = Some n" and "node_next n = None"
    and "Q () (s\<lparr>nodes := (nodes s)(a \<mapsto> n\<lparr>node_next := master_head s\<rparr>), master_head := Some a\<rparr>)"
  shows "wp (serialAddNode (Some a)) Q E s"
proof (cases "master_head s")
  case None
  with assms(1,2) have "s\<lparr>nodes := (nodes s)(a \<mapsto> n\<lparr>node_next := None\<rparr>), master_head := Some a\<rparr>
      = s\<lparr>master_head := Some a\<rparr>"
    by (simp add: fun_upd_idem)
  with None assms(3) show ?thesis by (simp add: serialAddNode_def)
next
  case (Some h)
  with assms show ?thesis by (simp add: serialAddNode_def wp_upd_node)
qed

lemma wp_serialAddVirtualNode:
  assumes "nodes s m = Some mn" and "nodes s a = Some n" and "a \<noteq> m" and "node_next n = None"
    and "Q () (s\<lparr>nodes := (nodes s)(a \<mapsto> n\<lparr>node_next := virtual_head mn, virtualof := Some m\<rparr>,
           m \<mapsto> mn\<lparr>virtual_head := Some a\<rparr>)\<rparr>)"
  shows "wp (serialAddVirtualNode (Some m) (Some a)) Q E s"
proof -
  have upd: "(nodes s)(a \<mapsto> x, m \<mapsto> y, a \<mapsto> z) = (nodes s)(a \<mapsto> z, m \<mapsto> y)" for x y z
    using assms(3) by auto
  have upd2: "(nodes s)(m \<mapsto> y, a \<mapsto> z) = (nodes s)(a \<mapsto> z, m \<mapsto> y)" for y z
    using assms(3) by auto
  have "n\<lparr>node_next := None, virtualof := v\<rparr> = n\<lparr>virtualof := v\<rparr>" for v
    using assms(4) by (cases n) simp
  with assms show ?thesis
    by (cases "virtual_head mn")
       (auto simp: serialAddVirtualNode_def wp_get_node wp_upd_node upd upd2)
qed

end
