(* ===== verification/IniSpec.thy ===== *)
theory IniSpec
  imports Ini
begin

text \<open>
  What a client of the INI parser may rely on. The meaning of a file is the list of triples
  (section, name, value) the parser hands to its handler (\<open>ini_triples\<close>) and the line it reports as
  the first error (\<open>ini_errors\<close>). A handler that implements an abstract step on such triples is
  lifted to whole files by the locale \<open>ini_client\<close>.
\<close>

section \<open>The triples of a file\<close>

type_synonym triple = "string \<times> string \<times> string"

text \<open>A handler that only takes notes, and accepts what \<open>acc\<close> accepts.\<close>

definition collect :: "(triple \<Rightarrow> bool) \<Rightarrow> (triple list) ini_handler" where
  "collect acc sect name value l =
     Inr (if acc (sect, name, value) then 1 else 0, l @ [(sect, name, value)])"

definition ini_triples :: "(triple \<Rightarrow> bool) \<Rightarrow> string \<Rightarrow> triple list" where
  "ini_triples acc file = (case ini_parse_file file (collect acc) [] of Inl _ \<Rightarrow> [] | Inr (_, l) \<Rightarrow> l)"

definition ini_errors :: "(triple \<Rightarrow> bool) \<Rightarrow> string \<Rightarrow> int" where
  "ini_errors acc file = (case ini_parse_file file (collect acc) [] of Inl _ \<Rightarrow> 0 | Inr (r, _) \<Rightarrow> r)"

text \<open>The bounds on the strings a handler is given, kept by the parser's variables.\<close>

definition ini_args_ok :: "triple \<Rightarrow> bool" where
  "ini_args_ok = (\<lambda>(sect, name, value).
     length sect < MAX_SECTION \<and> length name < INI_MAX_LINE \<and> length value < INI_MAX_LINE)"

definition ini_state_ok :: "ini_state \<Rightarrow> bool" where
  "ini_state_ok v \<longleftrightarrow> length (ini_section v) < MAX_SECTION \<and> length (prev_name v) < MAX_NAME"

lemma length_rstrip: "length (rstrip s) \<le> length s"
  unfolding rstrip_def by (metis length_dropWhile_le length_rev)

lemma length_lskip: "length (lskip s) \<le> length s"
  by (simp add: lskip_def length_dropWhile_le)

lemma length_rstrip_take: "length (rstrip (take n s)) \<le> length s"
  using length_rstrip [of "take n s"] by simp

lemma length_lskip_drop: "length (lskip (drop n s)) \<le> length s"
  using length_lskip [of "drop n s"] by simp

lemma length_cstr: "length (cstr s) \<le> length s"
  by (simp add: cstr_def length_takeWhile_le)

lemma length_strncpy0: "0 < n \<Longrightarrow> length (strncpy0 s n) < n"
  by (auto simp: strncpy0_def)

lemma note_error_ok [simp]:
  "ini_section (note_error v) = ini_section v" "prev_name (note_error v) = prev_name v"
  "lineno (note_error v) = lineno v"
  by (simp_all add: note_error_def)

lemma ini_state_ok_simps [simp]:
  "ini_state_ok (note_error v) = ini_state_ok v" "ini_state_ok (v\<lparr>lineno := n\<rparr>) = ini_state_ok v"
  by (simp_all add: ini_state_ok_def)

lemma section_line_ok: "ini_state_ok v \<Longrightarrow> ini_state_ok (section_line v rest)"
  by (simp add: section_line_def Let_def length_strncpy0) (simp add: ini_state_ok_def length_strncpy0)

text \<open>One round of the parser's loop.\<close>

lemma ini_loop_line:
  assumes "fgets INI_MAX_LINE content = Some (line, content')"
  shows "loop (Suc fuel) (ini_body fgets h) (content, v)
    = bnd (ini_line h v line) (\<lambda>v'. loop fuel (ini_body fgets h) (content', v'))"
  using assms
  by (simp add: loop.simps ini_body_def fun_eq_iff bnd_def ret_def split: sum.splits prod.splits)

section \<open>Any handler\<close>

definition keeps :: "'s ini_handler \<Rightarrow> ('s \<Rightarrow> bool) \<Rightarrow> (halt \<Rightarrow> bool) \<Rightarrow> bool" where
  "keeps h P E \<longleftrightarrow> (\<forall>sect name value s. ini_args_ok (sect, name, value) \<longrightarrow> P s \<longrightarrow>
     wp (h sect name value) (\<lambda>_. P) E s)"

text \<open>What every line keeps of the parser's variables.\<close>

definition ini_vars :: "nat \<Rightarrow> ini_state \<Rightarrow> bool" where
  "ini_vars n v \<longleftrightarrow> ini_state_ok v \<and> lineno v = n \<and> ini_error v \<le> n"

lemma ini_vars_simps [simp]:
  assumes "ini_vars n v"
  shows "ini_vars n (note_error v)" and "ini_vars n (section_line v rest)"
proof -
  have v: "ini_state_ok v" "lineno v = n" "ini_error v \<le> n" using assms by (simp_all add: ini_vars_def)
  have "ini_error (note_error v) \<le> n" using v by (simp add: note_error_def)
  moreover have "lineno (section_line v rest) = n \<and> ini_error (section_line v rest) \<le> n"
    using v by (simp add: section_line_def Let_def note_error_def)
  ultimately show "ini_vars n (note_error v)" "ini_vars n (section_line v rest)"
    using v by (simp_all add: ini_vars_def section_line_ok)
qed

lemma call_handler_keeps:
  assumes "keeps h P E" and "ini_vars n v" and "ini_args_ok (ini_section v, name, value)" and "P s"
  shows "wp (call_handler h v name value) (\<lambda>w t. ini_vars n w \<and> P t) E s"
proof -
  have "wp (h (ini_section v) name value) (\<lambda>_. P) E s" using assms by (simp add: keeps_def)
  then show ?thesis
    unfolding call_handler_def wp_bnd by (rule wp_weaken) (use assms(2) in auto)
qed

lemma pair_line_keeps:
  assumes "keeps h P E" and v: "ini_vars n v" and len: "length start < INI_MAX_LINE" and "P s"
  shows "wp (pair_line h v start) (\<lambda>w t. ini_vars n w \<and> P t) E s"
proof -
  let ?e = "find_chars_or_comment start (Some ''=:'')"
  let ?name = "rstrip (take ?e start)" and ?rest = "lskip (drop (Suc ?e) start)"
  let ?val = "rstrip (take (find_chars_or_comment ?rest None) ?rest)"
  have "length ?name < INI_MAX_LINE"
    using length_rstrip_take len by (rule order.strict_trans1)
  moreover have "length ?val < INI_MAX_LINE"
    using order.trans [OF length_rstrip_take length_lskip_drop] len by (rule order.strict_trans1)
  ultimately have "wp (call_handler h (v\<lparr>prev_name := strncpy0 ?name MAX_NAME\<rparr>) ?name ?val)
      (\<lambda>w t. ini_vars n w \<and> P t) E s"
    using v by (intro call_handler_keeps [OF assms(1) _ _ assms(4)])
      (auto simp: ini_vars_def ini_state_ok_def ini_args_ok_def length_strncpy0)
  with v assms(4) show ?thesis by (simp add: pair_line_def Let_def)
qed

lemma ini_line_keeps:
  assumes "keeps h P E" and v: "ini_vars n v" and len: "length line < INI_MAX_LINE" and "P s"
  shows "wp (ini_line h v line) (\<lambda>w t. ini_vars (Suc n) w \<and> P t) E s"
proof -
  define v1 where "v1 = v\<lparr>lineno := Suc (lineno v)\<rparr>"
  define bom where "bom \<longleftrightarrow> lineno v1 = 1 \<and> take 3 (cstr line) = BOM"
  define body where "body = rstrip (if bom then drop 3 (cstr line) else cstr line)"
  have v1: "ini_vars (Suc n) v1" using v by (simp add: v1_def ini_vars_def)
  have "length body \<le> length (cstr line)"
    unfolding body_def using length_rstrip [of "cstr line"] length_rstrip [of "drop 3 (cstr line)"]
    by simp linarith
  then have short: "length (lskip body) < INI_MAX_LINE"
    using length_cstr [of line] length_lskip [of body] len by linarith
  have "wp (call_handler h v1 (prev_name v1) (lskip body)) (\<lambda>w t. ini_vars (Suc n) w \<and> P t) E s"
    using v1 short by (intro call_handler_keeps assms) (auto simp: ini_vars_def ini_args_ok_def ini_state_ok_def)
  moreover note pair_line_keeps [OF assms(1) v1 short assms(4)]
  ultimately show ?thesis
    unfolding ini_line_def Let_def v1_def [symmetric] bom_def [symmetric] body_def [symmetric]
    using v1 assms(4) by (auto split: list.splits)
qed

lemma ini_loop_keeps:
  assumes "keeps h P E" and "ini_vars n v" and "n + length content \<le> m" and "P s"
    and "length content < fuel"
  shows "wp (loop fuel (ini_body fgets h) (content, v)) (\<lambda>r t. 0 \<le> r \<and> r \<le> int m \<and> P t) E s"
  using assms
proof (induction fuel arbitrary: s v content n)
  case (Suc fuel)
  show ?case
  proof (cases "fgets INI_MAX_LINE content")
    case None
    with Suc.prems show ?thesis by (simp add: loop.simps ini_body_def ini_vars_def)
  next
    case (Some p)
    obtain line content' where p: "p = (line, content')" by (cases p)
    have len: "length line < INI_MAX_LINE"
      using Some p read_line_length [of 199 content line content'] by (auto simp: fgets_def split: if_splits)
    have "length content' < length content"
      by (rule fgets_shorter [OF _ Some [unfolded p]]) simp
    then have "Suc n + length content' \<le> m" "length content' < fuel" using Suc.prems(3,5) by simp_all
    note rest = Suc.IH [OF Suc.prems(1) _ this(1) _ this(2)]
    have "wp (ini_line h v line)
        (\<lambda>v'. wp (loop fuel (ini_body fgets h) (content', v')) (\<lambda>r t. 0 \<le> r \<and> r \<le> int m \<and> P t) E) E s"
      by (rule wp_weaken [OF ini_line_keeps [OF Suc.prems(1,2) len Suc.prems(4)]]) (use rest in auto)
    then show ?thesis by (simp add: ini_loop_line [OF Some [unfolded p], of fuel])
  qed
qed simp

lemma ini_parse_file_keeps:
  assumes "keeps h P E" and "P s"
  shows "wp (ini_parse_file file h) (\<lambda>r t. 0 \<le> r \<and> r \<le> int (length file) \<and> P t) E s"
  unfolding ini_parse_file_def ini_parse_stream_def
  using assms by (intro ini_loop_keeps) (auto simp: ini_vars_def ini_state_ok_def ini_init_def)

section \<open>Clients\<close>

locale ini_client =
  fixes handler :: "'s ini_handler"
    and acc :: "triple \<Rightarrow> bool"
    and step :: "triple \<Rightarrow> 'a \<Rightarrow> 'a"
    and rel :: "'s \<Rightarrow> 'a \<Rightarrow> bool"
    and E :: "halt \<Rightarrow> bool"
  assumes handler_step:
    "ini_args_ok (sect, name, value) \<Longrightarrow> rel s a \<Longrightarrow>
       wp (handler sect name value)
         (\<lambda>r t. rel t (step (sect, name, value) a) \<and> (r \<noteq> 0 \<longleftrightarrow> acc (sect, name, value))) E s"
begin

text \<open>The real run and the note-taking run, side by side.\<close>

definition follows :: "'a \<Rightarrow> (triple list, 'r) cmd \<Rightarrow> triple list \<Rightarrow> ('r \<Rightarrow> bool) \<Rightarrow> 'r \<Rightarrow> 's \<Rightarrow> bool" where
  "follows a m l P r t \<longleftrightarrow> (\<exists>l'. m l = Inr (r, l') \<and> rel t (fold step l' a) \<and> P r)"

lemma call_handler_follows:
  assumes "rel s (fold step l a)" and "ini_args_ok (ini_section v, name, value)" and "ini_state_ok v"
  shows "wp (call_handler handler v name value)
           (follows a (call_handler (collect acc) v name value) l ini_state_ok) E s"
proof -
  have "wp (handler (ini_section v) name value)
      (\<lambda>r t. follows a (call_handler (collect acc) v name value) l ini_state_ok
               (if r = 0 then note_error v else v) t) E s"
    using handler_step [OF assms(2,1)] by (rule wp_weaken)
      (use assms(3) in \<open>auto simp: follows_def call_handler_def collect_def bnd_def ret_def\<close>)
  then show ?thesis by (simp add: call_handler_def)
qed

lemma pair_line_follows:
  assumes "rel s (fold step l a)" and "ini_state_ok v" and "length start < INI_MAX_LINE"
  shows "wp (pair_line handler v start)
           (follows a (pair_line (collect acc) v start) l ini_state_ok) E s"
proof -
  let ?e = "find_chars_or_comment start (Some ''=:'')"
  let ?name = "rstrip (take ?e start)" and ?rest = "lskip (drop (Suc ?e) start)"
  let ?val = "rstrip (take (find_chars_or_comment ?rest None) ?rest)"
  have "length ?name < INI_MAX_LINE"
    using length_rstrip_take assms(3) by (rule order.strict_trans1)
  moreover have "length ?val < INI_MAX_LINE"
    using order.trans [OF length_rstrip_take length_lskip_drop] assms(3)
    by (rule order.strict_trans1)
  ultimately have "ini_args_ok (ini_section v, ?name, ?val)"
    using assms(2) by (simp add: ini_args_ok_def ini_state_ok_def)
  then have "wp (call_handler handler (v\<lparr>prev_name := strncpy0 ?name MAX_NAME\<rparr>) ?name ?val)
      (follows a (call_handler (collect acc) (v\<lparr>prev_name := strncpy0 ?name MAX_NAME\<rparr>) ?name ?val)
         l ini_state_ok) E s"
    using assms(1,2) by (intro call_handler_follows)
      (auto simp: ini_state_ok_def ini_args_ok_def length_strncpy0)
  moreover have "follows a (ret (note_error v)) l ini_state_ok (note_error v) s"
    using assms(1,2) by (simp add: follows_def ret_def)
  ultimately show ?thesis by (simp add: pair_line_def Let_def)
qed

lemma ini_line_follows:
  assumes "rel s (fold step l a)" and "ini_state_ok v" and "length line < INI_MAX_LINE"
  shows "wp (ini_line handler v line)
           (follows a (ini_line (collect acc) v line) l ini_state_ok) E s"
proof -
  define v1 where "v1 = v\<lparr>lineno := Suc (lineno v)\<rparr>"
  define bom where "bom \<longleftrightarrow> lineno v1 = 1 \<and> take 3 (cstr line) = BOM"
  define body where "body = rstrip (if bom then drop 3 (cstr line) else cstr line)"
  have v1: "ini_state_ok v1" using assms(2) by (simp add: v1_def)
  have "length body \<le> length (cstr line)"
    unfolding body_def using length_rstrip [of "cstr line"] length_rstrip [of "drop 3 (cstr line)"]
    by simp linarith
  then have len: "length (lskip body) < INI_MAX_LINE"
    using length_cstr [of line] length_lskip [of body] assms(3) by linarith
  have ret: "follows a (ret w) l ini_state_ok w s" if "ini_state_ok w" for w
    using assms(1) that by (simp add: follows_def ret_def)
  have line: "ini_line h v line =
      (case lskip body of
         [] \<Rightarrow> ret v1
       | c # rest \<Rightarrow>
           if c = CHR '';'' \<or> c = CHR ''#'' then ret v1
           else if prev_name v1 \<noteq> [] \<and> (bom \<or> length (lskip body) < length body)
             then call_handler h v1 (prev_name v1) (lskip body)
           else if c = CHR ''['' then ret (section_line v1 rest)
           else pair_line h v1 (lskip body))" for h :: "'x ini_handler"
    by (simp only: ini_line_def Let_def v1_def bom_def body_def ini_state.simps)
  have cont: "wp (call_handler handler v1 (prev_name v1) (lskip body))
      (follows a (call_handler (collect acc) v1 (prev_name v1) (lskip body)) l ini_state_ok) E s"
    using assms(1) v1 len by (intro call_handler_follows) (auto simp: ini_args_ok_def ini_state_ok_def)
  note pair = pair_line_follows [OF assms(1) v1 len]
  show ?thesis
    unfolding line using ret [OF v1] ret [OF section_line_ok [OF v1]] cont pair
    by (cases "lskip body") auto
qed

lemma loop_follows:
  assumes "rel s (fold step l a)" and "ini_state_ok v" and "length content < fuel"
  shows "wp (loop fuel (ini_body fgets handler) (content, v))
           (follows a (loop fuel (ini_body fgets (collect acc)) (content, v)) l (\<lambda>_. True)) E s"
  using assms
proof (induction fuel arbitrary: s l v content)
  case (Suc fuel)
  show ?case
  proof (cases "fgets INI_MAX_LINE content")
    case None
    with Suc.prems show ?thesis
      by (simp add: loop.simps ini_body_def follows_def bnd_def ret_def wp_def)
  next
    case (Some p)
    obtain line content' where p: "p = (line, content')" by (cases p)
    note round = ini_loop_line [OF Some [unfolded p], of fuel]
    have len: "length line < INI_MAX_LINE"
      using Some p read_line_length [of 199 content line content'] by (auto simp: fgets_def split: if_splits)
    have "length content' < length content"
      by (rule fgets_shorter [OF _ Some [unfolded p]]) simp
    then have shorter: "length content' < fuel" using Suc.prems(3) by simp
    have "wp (loop fuel (ini_body fgets handler) (content', v'))
        (follows a (loop (Suc fuel) (ini_body fgets (collect acc)) (content, v)) l (\<lambda>_. True)) E t"
      if f: "follows a (ini_line (collect acc) v line) l ini_state_ok v' t" for v' t
    proof -
      obtain l' where l': "ini_line (collect acc) v line l = Inr (v', l')" "rel t (fold step l' a)"
        "ini_state_ok v'" using f by (auto simp: follows_def)
      have "loop (Suc fuel) (ini_body fgets (collect acc)) (content, v) l
          = loop fuel (ini_body fgets (collect acc)) (content', v') l'"
        using l'(1) by (simp add: round bnd_def)
      with Suc.IH [OF l'(2,3) shorter] show ?thesis by (simp add: follows_def [abs_def])
    qed
    then have "wp (ini_line handler v line) (\<lambda>v'. wp (loop fuel (ini_body fgets handler) (content', v'))
        (follows a (loop (Suc fuel) (ini_body fgets (collect acc)) (content, v)) l (\<lambda>_. True)) E) E s"
      by (rule wp_weaken [OF ini_line_follows [OF Suc.prems(1,2) len]])
    then show ?thesis by (simp add: round [of handler])
  qed
qed simp

text \<open>A whole file: the handler's steps, in the order of the file's triples.\<close>

lemma file_step:
  assumes "rel s a"
  shows "wp (ini_parse_file file handler)
           (\<lambda>r t. r = ini_errors acc file \<and> rel t (fold step (ini_triples acc file) a)) E s"
proof -
  have "wp (ini_parse_file file handler)
      (follows a (ini_parse_file file (collect acc)) [] (\<lambda>_. True)) E s"
    unfolding ini_parse_file_def ini_parse_stream_def
    using assms by (intro loop_follows) (auto simp: ini_state_ok_def ini_init_def)
  then show ?thesis
    by (rule wp_weaken) (auto simp: follows_def ini_errors_def ini_triples_def)
qed

end

text \<open>The note-taking handler is a client itself, so every file has a meaning.\<close>

interpretation noted: ini_client "collect acc" acc "\<lambda>x l. l @ [x]" "(=)" "\<lambda>_. False"
  for acc
  by unfold_locales (simp add: wp_def collect_def)

lemma ini_parse_file_collect:
  "ini_parse_file file (collect acc) [] = Inr (ini_errors acc file, ini_triples acc file)"
proof -
  have "wp (ini_parse_file file (collect acc)) (\<lambda>r t. r = ini_errors acc file) (\<lambda>_. False) []"
    by (rule wp_weaken [OF noted.file_step [of "[]" "[]"]]) simp_all
  then obtain r t where "ini_parse_file file (collect acc) [] = Inr (r, t)"
    unfolding wp_returns by blast
  then show ?thesis by (simp add: ini_errors_def ini_triples_def)
qed

lemma ini_errors_pos: "0 \<le> ini_errors acc file"
proof -
  have "wp (ini_parse_file file (collect acc)) (\<lambda>r t. 0 \<le> r \<and> r \<le> int (length file) \<and> True) (\<lambda>_. True) []"
    by (rule ini_parse_file_keeps) (auto simp: keeps_def wp_def collect_def)
  then show ?thesis by (simp add: wp_def ini_parse_file_collect)
qed

end
