(* ===== verification/ConfigSpec.thy ===== *)
theory ConfigSpec
  imports Config Registry IniSpec
begin

text \<open>
  What the serial configuration file means, apart from pointers: a registry is a list of masters
  with a rate and named virtual nodes, and every pair of the file changes it by \<open>a_config\<close>. The
  handler of \<open>src/config.c\<close> refines \<open>a_config\<close> (\<open>wp_serialConfigHandler\<close>).
\<close>

section \<open>The abstract registry\<close>

record amaster =
  am_name :: string
  am_baud :: int
  am_virtuals :: "(string \<times> bool) list"

definition areg_wf :: "amaster list \<Rightarrow> bool" where
  "areg_wf R \<longleftrightarrow> distinct (map am_name R) \<and> (\<forall>a\<in>set R. distinct (map fst (am_virtuals a)))"

definition a_ensure_master :: "string \<Rightarrow> amaster list \<Rightarrow> amaster list" where
  "a_ensure_master sect R =
     (if sect \<in> set (map am_name R) then R
      else \<lparr>am_name = sect, am_baud = 9600, am_virtuals = []\<rparr> # R)"

definition a_update :: "string \<Rightarrow> (amaster \<Rightarrow> amaster) \<Rightarrow> amaster list \<Rightarrow> amaster list" where
  "a_update sect f R = map (\<lambda>a. if am_name a = sect then f a else a) R"

definition a_add_virtual :: "string \<Rightarrow> amaster \<Rightarrow> amaster" where
  "a_add_virtual nm a =
     (if nm \<in> set (map fst (am_virtuals a)) then a
      else a\<lparr>am_virtuals := (nm, False) # am_virtuals a\<rparr>)"

definition a_set_writer :: "string \<Rightarrow> amaster \<Rightarrow> amaster" where
  "a_set_writer nm a = a\<lparr>am_virtuals := map (\<lambda>(n, w). (n, w \<or> n = nm)) (am_virtuals a)\<rparr>"

text \<open>The device name of a virtual node.\<close>

definition vname :: "string \<Rightarrow> string \<Rightarrow> string" where
  "vname sect suffix = sect @ ''.'' @ suffix"

definition a_config :: "string \<Rightarrow> string \<Rightarrow> string \<Rightarrow> amaster list \<Rightarrow> amaster list" where
  "a_config sect name value R =
     (let R1 = a_ensure_master sect R in
      if strcaseeq name ''baudrate'' then a_update sect (\<lambda>a. a\<lparr>am_baud := atoi value\<rparr>) R1
      else if strcaseeq name ''virtuals'' then
        fold (\<lambda>tok. a_update sect (a_add_virtual (vname sect tok))) (strtok_tokens value) R1
      else if strcaseeq name ''writer'' then a_update sect (a_set_writer (vname sect value)) R1
      else R1)"

definition known_key :: "string \<Rightarrow> bool" where
  "known_key name \<longleftrightarrow> strcaseeq name ''baudrate'' \<or> strcaseeq name ''virtuals'' \<or> strcaseeq name ''writer''"

lemma am_name_add_virtual [simp]: "am_name (a_add_virtual nm a) = am_name a"
  by (simp add: a_add_virtual_def)

lemma am_name_set_writer [simp]: "am_name (a_set_writer nm a) = am_name a"
  by (simp add: a_set_writer_def)

lemma names_a_update:
  "(\<And>a. am_name (f a) = am_name a) \<Longrightarrow> map am_name (a_update sect f R) = map am_name R"
  by (simp add: a_update_def)

lemma areg_wf_update:
  assumes "areg_wf R" and "\<And>a. am_name (f a) = am_name a"
    and "\<And>a. distinct (map fst (am_virtuals a)) \<Longrightarrow> distinct (map fst (am_virtuals (f a)))"
  shows "areg_wf (a_update sect f R)"
  using assms by (auto simp: areg_wf_def names_a_update) (auto simp: a_update_def)

lemma distinct_add_virtual:
  "distinct (map fst (am_virtuals a)) \<Longrightarrow> distinct (map fst (am_virtuals (a_add_virtual nm a)))"
  by (simp add: a_add_virtual_def)

lemma fst_set_writer: "map fst (am_virtuals (a_set_writer nm a)) = map fst (am_virtuals a)"
  by (simp add: a_set_writer_def comp_def split_def)

lemma areg_wf_ensure: "areg_wf R \<Longrightarrow> areg_wf (a_ensure_master sect R)"
  by (auto simp: a_ensure_master_def areg_wf_def)

lemma areg_wf_fold:
  "areg_wf R \<Longrightarrow> areg_wf (fold (\<lambda>tok. a_update sect (a_add_virtual (vn tok))) toks R)"
  by (induction toks arbitrary: R) (simp_all add: areg_wf_update distinct_add_virtual)

lemma a_config_wf: "areg_wf R \<Longrightarrow> areg_wf (a_config sect name value R)"
  by (auto simp: a_config_def Let_def fst_set_writer
      intro!: areg_wf_update areg_wf_fold areg_wf_ensure)

section \<open>The abstraction\<close>

definition entry :: "(nat \<Rightarrow> serialNode option) \<Rightarrow> (nat \<Rightarrow> nat list) \<Rightarrow> nat \<Rightarrow> amaster" where
  "entry N vs m =
     \<lparr>am_name = node_name (the (N m)), am_baud = baudrate (the (N m)),
      am_virtuals = map (\<lambda>v. (node_name (the (N v)), nodeIsWriter (the (N v)))) (vs m)\<rparr>"

definition view ::
    "(nat \<Rightarrow> serialNode option) \<Rightarrow> nat list \<Rightarrow> (nat \<Rightarrow> nat list) \<Rightarrow> amaster list" where
  "view N ms vs = map (entry N vs) ms"

definition reg_rel :: "world \<Rightarrow> nat list \<Rightarrow> (nat \<Rightarrow> nat list) \<Rightarrow> amaster list \<Rightarrow> bool" where
  "reg_rel s ms vs R \<longleftrightarrow> reg_state s ms vs \<and> view (nodes s) ms vs = R \<and> areg_wf R"

text \<open>The state holds the abstract registry \<open>R\<close>.\<close>

definition holds_registry :: "world \<Rightarrow> amaster list \<Rightarrow> bool" where
  "holds_registry s R \<longleftrightarrow> (\<exists>ms vs. reg_rel s ms vs R)"

lemma map_a_update:
  assumes "distinct (map (am_name \<circ> e) ms)" and "m \<in> set ms"
    and "e' m = f (e m)" and "\<And>x. x \<in> set ms \<Longrightarrow> x \<noteq> m \<Longrightarrow> e' x = e x"
  shows "map e' ms = a_update (am_name (e m)) f (map e ms)"
proof -
  have "am_name (e x) \<noteq> am_name (e m)" if "x \<in> set ms" "x \<noteq> m" for x
    using assms(1,2) that by (auto simp: distinct_map inj_on_def)
  with assms(3,4) show ?thesis by (auto simp: a_update_def)
qed

lemma reg_rel_update:
  assumes rel: "reg_rel s ms vs R" and m: "m \<in> set ms" "node_name (the (nodes s m)) = sect"
    and reg: "reg_state t ms vs'"
    and "entry (nodes t) vs' m = f (entry (nodes s) vs m)"
    and "\<And>x. x \<in> set ms \<Longrightarrow> x \<noteq> m \<Longrightarrow> entry (nodes t) vs' x = entry (nodes s) vs x"
    and "areg_wf (a_update sect f R)"
  shows "reg_rel t ms vs' (a_update sect f R)"
proof -
  have R: "R = map (entry (nodes s) vs) ms" using rel by (simp add: reg_rel_def view_def)
  have name: "am_name (entry (nodes s) vs m) = sect" using m(2) by (simp add: entry_def)
  have "distinct (map (am_name \<circ> entry (nodes s) vs) ms)"
    using rel by (simp add: reg_rel_def areg_wf_def view_def flip: map_map)
  then have "map (entry (nodes t) vs') ms = a_update sect f R"
    unfolding R name [symmetric] using m(1) assms(5,6) by (intro map_a_update)
  with reg assms(7) show ?thesis by (simp add: reg_rel_def view_def)
qed

lemma entry_upd_notin:
  "a \<noteq> m \<Longrightarrow> a \<notin> set (vs m) \<Longrightarrow> entry (N(a := x)) vs m = entry N vs m"
  by (auto simp: entry_def)

lemma reg_rel_names:
  assumes "reg_rel s ms vs R"
  shows "map am_name R = map (\<lambda>m. node_name (the (nodes s m))) ms"
  using assms by (auto simp: reg_rel_def view_def entry_def)

lemma find_named:
  "find (named N nm) xs = None \<longleftrightarrow> nm \<notin> set (map (\<lambda>x. node_name (the (N x))) xs)"
  by (auto simp: find_None_iff named_def)

lemma find_Some_in: "find P xs = Some x \<Longrightarrow> x \<in> set xs \<and> P x"
  by (auto simp: find_Some_iff)

section \<open>The handler refines the abstract operation\<close>

text \<open>The program is left only if some call fails: no name is too long.\<close>

lemma wp_strdup_or_exit:
  assumes "all_ok s \<or> E (Exit 1)" and "\<And>t. quiet s t \<Longrightarrow> Q (Some v) t"
  shows "wp (strdup_or_exit msg v) Q E s"
  unfolding strdup_or_exit_def wp_bnd
  by (rule wp_sys_malloc) (use assms in \<open>auto simp: all_ok_def\<close>)

lemma wp_master_for:
  assumes rel: "reg_rel s ms vs R" and ok: "log_ok s" "all_ok s \<or> E (Exit 1)" and len: "length sect < PATH_MAX"
    and Q: "\<And>t ms' vs' m. reg_rel t ms' vs' (a_ensure_master sect R) \<Longrightarrow> node_frame s t \<Longrightarrow>
      m \<in> set ms' \<Longrightarrow> node_name (the (nodes t m)) = sect \<Longrightarrow> Q (Some m) t"
  shows "wp (master_for sect) Q E s"
proof -
  have reg: "reg_state s ms vs" and wf: "areg_wf R" and view: "view (nodes s) ms vs = R"
    using rel by (simp_all add: reg_rel_def)
  show ?thesis
  proof (cases "find (named (nodes s) sect) ms")
    case (Some m)
    then have m: "m \<in> set ms" "node_name (the (nodes s m)) = sect"
      by (auto dest!: find_Some_in simp: named_def)
    then have "sect \<in> set (map am_name R)" by (auto simp: reg_rel_names [OF rel])
    with rel have "reg_rel s ms vs (a_ensure_master sect R)" by (simp add: a_ensure_master_def)
    with Some Q [of s ms vs m] m show ?thesis by (simp add: master_for_def wp_serialGetNode [OF reg])
  next
    case None
    let ?b = "node_brk s"
    let ?n = "new_node sect SERIAL_FLAG_MASTER None (master_head s)"
    have notin: "sect \<notin> set (map am_name R)"
      using None by (simp add: find_named reg_rel_names [OF rel])
    have n: "nodeIsMaster ?n" "\<not> nodeIsVirtual ?n" "virtualof ?n = None" "virtual_head ?n = None"
      "node_next ?n = master_head s"
      by (simp_all add: new_node_def nodeIsMaster_def nodeIsVirtual_def)
    note fresh = reg_ok_fresh [OF reg]
    have "Q (Some ?b) (t\<lparr>node_brk := Suc ?b, nodes := (nodes s)(?b \<mapsto> ?n), master_head := Some ?b\<rparr>)"
      if q: "quiet s t" for t
    proof (rule Q)
      let ?t = "t\<lparr>node_brk := Suc ?b, nodes := (nodes s)(?b \<mapsto> ?n), master_head := Some ?b\<rparr>"
      have "reg_state ?t (?b # ms) (vs(?b := []))"
        using reg_ok_add_master [OF reg n] by simp
      moreover have "view (nodes ?t) (?b # ms) (vs(?b := [])) = a_ensure_master sect R"
      proof -
        have "entry (nodes ?t) (vs(?b := [])) x = entry (nodes s) vs x" if "x \<in> set ms" for x
          using that fresh by (auto simp: entry_def)
        then have "map (entry (nodes ?t) (vs(?b := []))) ms = R"
          using view by (simp add: view_def cong: map_cong)
        moreover have "entry (nodes ?t) (vs(?b := [])) ?b
            = \<lparr>am_name = sect, am_baud = 9600, am_virtuals = []\<rparr>"
          using len by (simp add: entry_def new_node_def strlcpy_def)
        ultimately show ?thesis using notin by (simp add: view_def a_ensure_master_def)
      qed
      ultimately show "reg_rel ?t (?b # ms) (vs(?b := [])) (a_ensure_master sect R)"
        using areg_wf_ensure [OF wf] by (simp add: reg_rel_def)
      show "node_frame s ?t"
        using quiet_node_frame [OF q] reg_ok_bound [OF reg, of ?b] by (simp add: new_node_def quiet_world [OF q])
      show "?b \<in> set (?b # ms)" by simp
      show "node_name (the (nodes ?t ?b)) = sect" using len by (simp add: new_node_def strlcpy_def)
    qed
    with None show ?thesis
      using ok by (auto simp: master_for_def wp_serialGetNode [OF reg] new_node_def quiet_world
          intro!: wp_serialCreateNode wp_serialAddNode)
  qed
qed

lemma wp_ensure_virtual:
  assumes rel: "reg_rel s ms vs R" and ok: "log_ok s" "all_ok s \<or> E (Exit 1)"
    and m: "m \<in> set ms" "node_name (the (nodes s m)) = sect"
    and len: "length sect + length tok + 1 < PATH_MAX"
    and Q: "\<And>t vs'. reg_rel t ms vs' (a_update sect (a_add_virtual (vname sect tok)) R) \<Longrightarrow>
      node_frame s t \<Longrightarrow> node_name (the (nodes t m)) = sect \<Longrightarrow> Q () t"
  shows "wp (ensure_virtual sect (Some m) tok) Q E s"
proof -
  let ?nm = "vname sect tok"
  have reg: "reg_state s ms vs" and wf: "areg_wf R" using rel by (simp_all add: reg_rel_def)
  have wf': "areg_wf (a_update sect (a_add_virtual ?nm) R)"
    using wf by (rule areg_wf_update) (simp_all add: distinct_add_virtual)
  have virt: "map fst (am_virtuals (entry (nodes s) vs m)) = map (\<lambda>x. node_name (the (nodes s x))) (vs m)"
    by (simp add: entry_def)
  have name: "serialVirtualName sect tok PATH_MAX = (0, ?nm)"
    using len by (simp add: serialVirtualName_def vname_def)
  show ?thesis
  proof (cases "find (named (nodes s) ?nm) (vs m)")
    case (Some v)
    then have "?nm \<in> set (map fst (am_virtuals (entry (nodes s) vs m)))"
      unfolding virt by (metis find_named option.distinct(1))
    then have "reg_rel s ms vs (a_update sect (a_add_virtual ?nm) R)"
      using rel m reg wf' by (intro reg_rel_update) (auto simp: a_add_virtual_def)
    with Some Q [of s vs] m show ?thesis
      by (simp add: ensure_virtual_def name wp_serialGetVirtualNode [OF reg])
  next
    case None
    have notin: "?nm \<notin> set (map fst (am_virtuals (entry (nodes s) vs m)))"
      using None unfolding virt by (simp add: find_named)
    let ?b = "node_brk s"
    obtain mn where mn: "nodes s m = Some mn" using reg m(1) by (rule reg_ok_master)
    let ?k = "new_node ?nm SERIAL_FLAG_VIRTUAL (Some m) (virtual_head mn)"
    let ?N = "(nodes s)(?b \<mapsto> ?k, m \<mapsto> mn\<lparr>virtual_head := Some ?b\<rparr>)"
    have k: "nodeIsVirtual ?k" "\<not> nodeIsMaster ?k" "virtualof ?k = Some m" "virtual_head ?k = None"
      "node_next ?k = virtual_head mn"
      by (simp_all add: new_node_def nodeIsMaster_def nodeIsVirtual_def)
    note fresh = reg_ok_fresh [OF reg] and disj = reg_ok_disjoint [OF reg]
    have bm: "?b \<noteq> m" using fresh(1) m(1) by auto
    have "Q () (t\<lparr>node_brk := Suc ?b, nodes := ?N\<rparr>)" if q: "quiet s t" for t
    proof (rule Q)
      let ?t = "t\<lparr>node_brk := Suc ?b, nodes := ?N\<rparr>"
      let ?vs = "vs(m := ?b # vs m)"
      have "reg_state ?t ms ?vs"
        using reg_ok_add_virtual [OF reg m(1) mn k] by (simp add: quiet_world [OF q])
      moreover have "entry ?N ?vs m = a_add_virtual ?nm (entry (nodes s) vs m)"
      proof -
        have "x \<noteq> ?b \<and> x \<noteq> m" if "x \<in> set (vs m)" for x
          using that fresh(2) [OF m(1)] disj(1) [OF m(1) m(1)] by auto
        with notin mn bm len show ?thesis
          by (auto simp: a_add_virtual_def entry_def new_node_def nodeIsWriter_def strlcpy_def vname_def)
      qed
      moreover have "entry ?N ?vs x = entry (nodes s) vs x" if "x \<in> set ms" "x \<noteq> m" for x
        using that m(1) fresh disj(1) [OF m(1) that(1)] by (auto simp: entry_def)
      ultimately show "reg_rel ?t ms ?vs (a_update sect (a_add_virtual ?nm) R)"
        using rel m wf' by (intro reg_rel_update) simp_all
      show "node_frame s ?t"
        using quiet_node_frame [OF q] reg_ok_bound [OF reg, of ?b] mn bm
        by (simp add: new_node_def quiet_world [OF q])
      show "node_name (the (nodes ?t m)) = sect" using mn m(2) by simp
    qed
    with None mn bm ok show ?thesis
      by (auto simp: ensure_virtual_def name wp_serialGetVirtualNode [OF reg m(1)] new_node_def
          quiet_world intro!: wp_serialCreateNode wp_serialAddVirtualNode)
  qed
qed

lemma wp_ensure_virtuals:
  assumes "reg_rel s ms vs R" and ok: "log_ok s" "all_ok s \<or> E (Exit 1)"
    and m: "m \<in> set ms" "node_name (the (nodes s m)) = sect"
    and "\<And>tok. tok \<in> set toks \<Longrightarrow> length sect + length tok + 1 < PATH_MAX"
    and "\<And>t vs'. reg_rel t ms vs' (fold (\<lambda>tok. a_update sect (a_add_virtual (vname sect tok))) toks R) \<Longrightarrow>
      node_frame s t \<Longrightarrow> Q () t"
  shows "wp (for_each toks (ensure_virtual sect (Some m))) Q E s"
  using assms
proof (induction toks arbitrary: s vs R)
  case Nil
  then show ?case by auto
next
  case (Cons tok toks)
  have "wp (ensure_virtual sect (Some m) tok)
      (\<lambda>_. wp (for_each toks (ensure_virtual sect (Some m))) Q E) E s"
  proof (rule wp_ensure_virtual [where E = E, OF Cons.prems(1-5)])
    show "length sect + length tok + 1 < PATH_MAX" using Cons.prems(6) by simp
    fix t vs'
    assume rel: "reg_rel t ms vs' (a_update sect (a_add_virtual (vname sect tok)) R)"
      and frame: "node_frame s t" and name: "node_name (the (nodes t m)) = sect"
    show "wp (for_each toks (ensure_virtual sect (Some m))) Q E t"
    proof (rule Cons.IH [OF rel _ _ Cons.prems(4) name])
      show "log_ok t" using frame Cons.prems(2) by (simp add: node_frame_log_ok)
      show "all_ok t \<or> E (Exit 1)" using frame Cons.prems(3) by (simp add: all_ok_frame)
      show "Q () u" if "reg_rel u ms vs''
          (fold (\<lambda>tok. a_update sect (a_add_virtual (vname sect tok))) toks
            (a_update sect (a_add_virtual (vname sect tok)) R))"
        and "node_frame t u" for u vs''
        using that Cons.prems(7) [of u vs''] frame by (auto intro: node_frame_trans)
    qed (use Cons.prems(6) in auto)
  qed
  then show ?case by simp
qed

lemma find_named_unique:
  assumes "find (named N nm) xs = Some v" and "distinct (map (\<lambda>x. node_name (the (N x))) xs)"
    and "x \<in> set xs"
  shows "node_name (the (N x)) = nm \<longleftrightarrow> x = v"
  using assms by (auto simp: distinct_map inj_on_def named_def dest!: find_Some_in)

lemma writer_flag:
  "nodeIsWriter (n\<lparr>node_flags := node_flags n OR SERIAL_FLAG_WRITER\<rparr>)"
  "shape (n\<lparr>node_flags := node_flags n OR SERIAL_FLAG_WRITER\<rparr>) = shape n"
  by (simp_all add: nodeIsWriter_def shape_def nodeIsMaster_def nodeIsVirtual_def
      bit.conj_disj_distrib2)

lemma wp_set_writer:
  assumes rel: "reg_rel s ms vs R" and m: "m \<in> set ms" "node_name (the (nodes s m)) = sect"
    and len: "length sect + length value + 1 < PATH_MAX"
    and Q: "\<And>t. reg_rel t ms vs (a_update sect (a_set_writer (vname sect value)) R) \<Longrightarrow>
      node_frame s t \<Longrightarrow> Q () t"
  shows "wp (set_writer sect (Some m) value) Q E s"
proof -
  let ?nm = "vname sect value"
  have reg: "reg_state s ms vs" and wf: "areg_wf R" using rel by (simp_all add: reg_rel_def)
  have wf': "areg_wf (a_update sect (a_set_writer ?nm) R)"
    using wf by (rule areg_wf_update) (simp_all add: fst_set_writer)
  have name: "serialVirtualName sect value PATH_MAX = (0, ?nm)"
    using len by (simp add: serialVirtualName_def vname_def)
  have names: "distinct (map (\<lambda>x. node_name (the (nodes s x))) (vs m))"
  proof -
    have "entry (nodes s) vs m \<in> set R" using rel m(1) by (auto simp: reg_rel_def view_def)
    then have "distinct (map fst (am_virtuals (entry (nodes s) vs m)))"
      using wf by (simp add: areg_wf_def)
    then show ?thesis by (simp add: entry_def comp_def)
  qed
  show ?thesis
  proof (cases "find (named (nodes s) ?nm) (vs m)")
    case None
    then have "a_set_writer ?nm (entry (nodes s) vs m) = entry (nodes s) vs m"
      by (auto simp: a_set_writer_def entry_def find_None_iff named_def)
    then have "reg_rel s ms vs (a_update sect (a_set_writer ?nm) R)"
      using rel m reg wf' by (intro reg_rel_update) auto
    with None Q [of s] show ?thesis
      by (simp add: set_writer_def name wp_serialGetVirtualNode [OF reg m(1)])
  next
    case (Some v)
    then have v: "v \<in> set (vs m)" by (auto dest: find_Some_in)
    obtain n where n: "nodes s v = Some n" using reg m(1) v by (rule reg_ok_virtual)
    let ?n = "n\<lparr>node_flags := node_flags n OR SERIAL_FLAG_WRITER\<rparr>"
    let ?t = "s\<lparr>nodes := (nodes s)(v \<mapsto> ?n)\<rparr>"
    have "reg_state ?t ms vs"
      using reg_ok_shape [OF _ reg, of "nodes ?t"] n writer_flag(2) by simp
    moreover have vx: "v \<noteq> x" if "x \<in> set ms" for x
      using reg_ok_disjoint(1) [OF reg that m(1)] v by auto
    moreover have "entry (nodes ?t) vs x = entry (nodes s) vs x" if "x \<in> set ms" "x \<noteq> m" for x
      using reg_ok_disjoint(2) [OF reg that(1) m(1) that(2)] v vx [OF that(1)]
      by (auto intro!: entry_upd_notin)
    moreover have "entry (nodes ?t) vs m = a_set_writer ?nm (entry (nodes s) vs m)"
      using find_named_unique [OF Some names] n calculation(2) [OF m(1)] writer_flag(1) [of n]
      by (auto simp: entry_def a_set_writer_def)
    ultimately have "reg_rel ?t ms vs (a_update sect (a_set_writer ?nm) R)"
      using rel m wf' by (intro reg_rel_update) simp_all
    with Q [of ?t] Some n show ?thesis
      by (simp add: set_writer_def name wp_serialGetVirtualNode [OF reg m(1)] wp_upd_node)
  qed
qed

lemma wp_serialConfigHandler:
  assumes rel: "reg_rel s ms vs R" and ok: "log_ok s" "all_ok s \<or> E (Exit 1)"
    and args: "ini_args_ok (sect, name, value)"
    and Q: "\<And>t ms' vs'. reg_rel t ms' vs' (a_config sect name value R) \<Longrightarrow> node_frame s t \<Longrightarrow>
      Q (if known_key name then 1 else 0) t"
  shows "wp (serialConfigHandler sect name value) Q E s"
proof -
  have len: "length sect < 50" "length value < 200" using args by (simp_all add: ini_args_ok_def)
  have toks: "length sect + length tok + 1 < 4096" if "tok \<in> set (strtok_tokens value)" for tok
    using strtok_tokens_token [OF that] len by simp
  let ?R1 = "a_ensure_master sect R"
  show ?thesis
    unfolding serialConfigHandler_def wp_bnd
  proof (rule wp_master_for [where E = E, OF rel ok])
    show "length sect < PATH_MAX" using len by simp
    fix t ms' vs' m
    assume t: "reg_rel t ms' vs' ?R1" "node_frame s t" "m \<in> set ms'" "node_name (the (nodes t m)) = sect"
    have okt: "log_ok t" "all_ok t \<or> E (Exit 1)" using ok t by (simp_all add: node_frame_log_ok all_ok_frame)
    have regt: "reg_state t ms' vs'" using t(1) by (simp add: reg_rel_def)
    consider (baud) "strcaseeq name ''baudrate''"
      | (virtuals) "\<not> strcaseeq name ''baudrate''" "strcaseeq name ''virtuals''"
      | (writer) "\<not> strcaseeq name ''baudrate''" "\<not> strcaseeq name ''virtuals''"
          "strcaseeq name ''writer''"
      | (other) "\<not> known_key name"
      by (auto simp: known_key_def)
    then show "wp (if strcaseeq name ''baudrate'' then
         thn (upd_node (Some m) (\<lambda>n. n\<lparr>baudrate := atoi value\<rparr>)) (ret 1)
       else if strcaseeq name ''virtuals'' then
         bnd (strdup_or_exit ''Can't set virtuals: '' value) (\<lambda>str.
           thn (for_each (strtok_tokens value) (ensure_virtual sect (Some m))) (ret 1))
       else if strcaseeq name ''writer'' then
         thn (set_writer sect (Some m) value) (ret 1)
       else ret 0) Q E t"
    proof cases
      case baud
      obtain n where n: "nodes t m = Some n" using regt t(3) by (rule reg_ok_master)
      let ?u = "t\<lparr>nodes := (nodes t)(m \<mapsto> n\<lparr>baudrate := atoi value\<rparr>)\<rparr>"
      have "shape (n\<lparr>baudrate := atoi value\<rparr>) = shape n"
        by (simp add: shape_def nodeIsMaster_def nodeIsVirtual_def)
      then have "reg_state ?u ms' vs'" using reg_ok_shape [OF _ regt, of "nodes ?u"] n by simp
      moreover have "areg_wf (a_update sect (\<lambda>a. a\<lparr>am_baud := atoi value\<rparr>) ?R1)"
        using t(1) by (auto simp: reg_rel_def intro: areg_wf_update)
      moreover have "m \<notin> set (vs' x)" if "x \<in> set ms'" for x
        using reg_ok_disjoint(1) [OF regt t(3) that] .
      ultimately have "reg_rel ?u ms' vs' (a_update sect (\<lambda>a. a\<lparr>am_baud := atoi value\<rparr>) ?R1)"
        using n t(3) by (intro reg_rel_update [OF t(1,3,4)]) (auto simp: entry_def)
      with baud Q [of ?u] t(2) n show ?thesis
        by (simp add: a_config_def Let_def known_key_def wp_upd_node)
    next
      case virtuals
      have "wp (for_each (strtok_tokens value) (ensure_virtual sect (Some m))) (\<lambda>_. wp (ret 1) Q E) E u"
        if u: "quiet t u" for u
      proof (rule wp_ensure_virtuals [where E = E and s = u and R = ?R1, OF _ _ _ t(3)])
        show "reg_rel u ms' vs' ?R1" using t(1) u by (simp add: reg_rel_def quiet_world)
        show "log_ok u" "all_ok u \<or> E (Exit 1)" using okt u by (simp_all add: log_ok_quiet all_ok_frame)
        show "node_name (the (nodes u m)) = sect" using t(4) u by (simp add: quiet_world)
        show "wp (ret 1) Q E w" if "reg_rel w ms' vs''
            (fold (\<lambda>tok. a_update sect (a_add_virtual (vname sect tok))) (strtok_tokens value) ?R1)"
          and "node_frame u w" for w vs''
          using virtuals Q [of w ms' vs''] that(1)
            node_frame_trans [OF t(2) node_frame_trans [OF quiet_node_frame [OF u] that(2)]]
          by (simp add: a_config_def Let_def known_key_def)
      qed (use toks in auto)
      with virtuals show ?thesis by (simp add: wp_strdup_or_exit [where E = E, OF okt(2)])
    next
      case writer
      have "wp (set_writer sect (Some m) value) (\<lambda>_. wp (ret 1) Q E) E t"
      proof (rule wp_set_writer [OF t(1,3,4)])
        show "length sect + length value + 1 < PATH_MAX" using len by simp
        show "wp (ret 1) Q E w" if "reg_rel w ms' vs' (a_update sect (a_set_writer (vname sect value)) ?R1)"
          and "node_frame t w" for w
          using that(1) writer Q [of w ms' vs'] node_frame_trans [OF t(2) that(2)]
          by (simp add: a_config_def Let_def known_key_def)
      qed
      with writer show ?thesis by simp
    next
      case other
      with Q [of t ms' vs'] t show ?thesis by (simp add: known_key_def a_config_def Let_def)
    qed
  qed
qed

section \<open>Whole files\<close>

definition serial_acc :: "triple \<Rightarrow> bool" where
  "serial_acc = (\<lambda>(sect, name, value). known_key name)"

definition serial_step :: "triple \<Rightarrow> amaster list \<Rightarrow> amaster list" where
  "serial_step = (\<lambda>(sect, name, value). a_config sect name value)"

text \<open>The registry a file describes, starting from the registry \<open>R\<close>.\<close>

definition file_registry :: "string \<Rightarrow> amaster list \<Rightarrow> amaster list" where
  "file_registry file R = fold serial_step (ini_triples serial_acc file) R"

interpretation serial_file: ini_client serialConfigHandler serial_acc serial_step
  "\<lambda>s R. holds_registry s R \<and> node_frame s0 s \<and> log_ok s0" "\<lambda>h. h = Exit 1 \<and> \<not> all_ok s0"
  for s0
proof unfold_locales
  fix sect name val s R
  assume args: "ini_args_ok (sect, name, val)"
    and "holds_registry s R \<and> node_frame s0 s \<and> log_ok s0"
  then obtain ms vs where rel: "reg_rel s ms vs R" "node_frame s0 s" "log_ok s0" "log_ok s"
    by (auto simp: holds_registry_def node_frame_log_ok)
  show "wp (serialConfigHandler sect name val)
      (\<lambda>r t. (holds_registry t (serial_step (sect, name, val) R) \<and> node_frame s0 t \<and> log_ok s0) \<and>
             (r \<noteq> 0 \<longleftrightarrow> serial_acc (sect, name, val))) (\<lambda>h. h = Exit 1 \<and> \<not> all_ok s0) s"
    by (rule wp_serialConfigHandler [where E = "\<lambda>h. h = Exit 1 \<and> \<not> all_ok s0", OF rel(1,4) _ args])
       (use rel all_ok_frame(1) [OF rel(2)] in simp, use rel in \<open>auto simp: holds_registry_def serial_step_def serial_acc_def
          intro: node_frame_trans\<close>)
qed

text \<open>
  Parsing a file by name: the environment's next answer says whether the file opens and what it
  holds, and the descriptor is closed again at the end.
\<close>

lemma wp_ini_parse:
  assumes "fd_ok s"
    and "\<And>t. quiet s t \<Longrightarrow> \<not> r_ok (answers s (calls s)) \<Longrightarrow> Q (-1) t"
    and "\<And>t fd. same_env s t \<Longrightarrow> fds t = fd # fds s \<Longrightarrow> fd \<notin> set (fds s) \<Longrightarrow>
           interest t = interest s \<Longrightarrow> r_ok (answers s (calls s)) \<Longrightarrow>
           wp (ini_parse_file (r_data (answers s (calls s))) h) (\<lambda>e. wp (thn (sys_close fd) (ret e)) Q E) E t"
  shows "wp (ini_parse f h) Q E s"
proof -
  let ?fd = "lowest_fd (fds s)"
  let ?t = "s\<lparr>calls := Suc (calls s), fds := ?fd # fds s, trace := trace s @ [Opened f ?fd]\<rparr>"
  have "same_env s ?t" by (simp add: same_env_def)
  moreover have "quiet s (s\<lparr>calls := Suc (calls s), errno := e\<rparr>)" for e by (simp add: frame_defs)
  ultimately show ?thesis
    using assms lowest_fd_fresh [of "fds s"]
    by (simp add: ini_parse_def sys_fopen_read_def wp_kernel)
qed

lemma wp_serialLoadConfig:
  assumes "holds_registry s R" and "log_ok s" and E: "all_ok s \<or> E (Exit 1)"
    and Q: "\<And>t. r_ok (answers s (calls s)) \<Longrightarrow>
      holds_registry t (file_registry (r_data (answers s (calls s))) R) \<Longrightarrow> node_frame s t \<Longrightarrow> Q () t"
  shows "wp (serialLoadConfig (Some f)) Q E s"
proof -
  let ?file = "r_data (answers s (calls s))"
  have "wp (ini_parse_file ?file serialConfigHandler) (\<lambda>e. wp (thn (sys_close fd) (ret e))
      (\<lambda>r. wp (if r < 0 then exit_saying 2 (''Can't load serial config file: '' @ f @ [newline_char]) 1 else ret ()) Q E) E) E t"
    if t: "same_env s t" "fds t = fd # fds s" "fd \<notin> set (fds s)" "interest t = interest s"
      "r_ok (answers s (calls s))" for t fd
  proof -
    have "holds_registry t R"
      using assms(1) by (simp add: holds_registry_def reg_rel_def same_env_world [OF t(1)])
    moreover have "log_ok t" using assms(2) t(2,4) by (simp add: log_ok_def same_env_world [OF t(1)])
    ultimately have "wp (ini_parse_file ?file serialConfigHandler)
        (\<lambda>r u. r = ini_errors serial_acc ?file \<and> holds_registry u (file_registry ?file R)
               \<and> node_frame t u \<and> log_ok t) (\<lambda>h. h = Exit 1 \<and> \<not> all_ok t) t"
      unfolding file_registry_def by (intro serial_file.file_step) simp
    then show ?thesis
    proof (rule wp_mono)
      fix e u
      assume u: "e = ini_errors serial_acc ?file \<and> holds_registry u (file_registry ?file R)
               \<and> node_frame t u \<and> log_ok t"
      let ?u = "u\<lparr>fds := remove1 fd (fds u), interest := (interest u)(fd := None),
                   trace := trace u @ [Closed fd]\<rparr>"
      have fds: "fds u = fd # fds s" "interest u = interest s"
        using node_frame_world [of t u] u t(2,4) by simp_all
      have "(interest s)(fd := None) = interest s"
        using assms(2) t(3) by (intro fun_upd_idem) (simp add: log_ok_def)
      with u t(1) fds have "node_frame s ?u"
        by (cases s; cases t; cases u) (simp add: node_frame_def without_nodes_def frame_defs)
      moreover have "holds_registry ?u (file_registry ?file R)"
        using u by (simp add: holds_registry_def reg_rel_def)
      ultimately show "wp (thn (sys_close fd) (ret e))
          (\<lambda>r. wp (if r < 0 then exit_saying 2 (''Can't load serial config file: '' @ f @ [newline_char]) 1 else ret ()) Q E) E u"
        using Q [OF t(5)] fds u ini_errors_pos [of serial_acc ?file] by (simp add: wp_sys_close)
    qed (use E all_ok_frame(3) [OF t(1)] in auto)
  qed
  note run = this
  show ?thesis
    unfolding serialLoadConfig_def option.case wp_bnd
    by (rule wp_ini_parse [OF log_ok_fd_ok [OF assms(2)]]) (use E in \<open>simp add: all_ok_def\<close>, blast, rule run)
qed

end
