(* ===== verification/OptionSpec.thy ===== *)
theory OptionSpec
  imports ConfigSpec
begin

text \<open>
  What the system configuration file means: every option has the value the last matching pair of
  the file gives it, or keeps the one it had. The handler of \<open>src/config.c\<close> keeps this up pair by
  pair (\<open>system_file\<close>), so it holds of whole files.
\<close>

section \<open>The last setting of an option\<close>

definition matches :: "string \<Rightarrow> string \<Rightarrow> triple \<Rightarrow> bool" where
  "matches sec key = (\<lambda>(sect, name, _). strcaseeq sect sec \<and> strcaseeq name key)"

definition setting :: "string \<Rightarrow> string \<Rightarrow> (string \<Rightarrow> 'v) \<Rightarrow> 'v \<Rightarrow> triple list \<Rightarrow> 'v" where
  "setting sec key f d ts =
     (let xs = filter (matches sec key) ts in if xs = [] then d else f (snd (snd (last xs))))"

lemma setting_Nil [simp]: "setting sec key f d [] = d"
  by (simp add: setting_def)

lemma setting_snoc [simp]:
  "setting sec key f d (ts @ [(sect, name, v)]) =
     (if strcaseeq sect sec \<and> strcaseeq name key then f v else setting sec key f d ts)"
  by (simp add: setting_def matches_def)

text \<open>The names in lower case, which tells the options apart.\<close>

lemma option_names [simp]:
  "strcaseeq s ''logging'' = (map tolower s = ''logging'')"
  "strcaseeq s ''system'' = (map tolower s = ''system'')"
  "strcaseeq s ''logfile'' = (map tolower s = ''logfile'')"
  "strcaseeq s ''syslog-enabled'' = (map tolower s = ''syslog-enabled'')"
  "strcaseeq s ''loglevel'' = (map tolower s = ''loglevel'')"
  "strcaseeq s ''hz'' = (map tolower s = ''hz'')"
  "strcaseeq s ''reconnect-interval'' = (map tolower s = ''reconnect-interval'')"
  "strcaseeq s ''pidfile'' = (map tolower s = ''pidfile'')"
  "strcaseeq s ''serial-configfile'' = (map tolower s = ''serial-configfile'')"
proof -
  have "map tolower ''logging'' = ''logging''" "map tolower ''system'' = ''system''"
    "map tolower ''logfile'' = ''logfile''" "map tolower ''syslog-enabled'' = ''syslog-enabled''"
    "map tolower ''loglevel'' = ''loglevel''" "map tolower ''hz'' = ''hz''"
    "map tolower ''reconnect-interval'' = ''reconnect-interval''"
    "map tolower ''pidfile'' = ''pidfile''" "map tolower ''serial-configfile'' = ''serial-configfile''"
    by code_simp+
  then show "strcaseeq s ''logging'' = (map tolower s = ''logging'')"
    "strcaseeq s ''system'' = (map tolower s = ''system'')"
    "strcaseeq s ''logfile'' = (map tolower s = ''logfile'')"
    "strcaseeq s ''syslog-enabled'' = (map tolower s = ''syslog-enabled'')"
    "strcaseeq s ''loglevel'' = (map tolower s = ''loglevel'')"
    "strcaseeq s ''hz'' = (map tolower s = ''hz'')"
    "strcaseeq s ''reconnect-interval'' = (map tolower s = ''reconnect-interval'')"
    "strcaseeq s ''pidfile'' = (map tolower s = ''pidfile'')"
    "strcaseeq s ''serial-configfile'' = (map tolower s = ''serial-configfile'')"
    unfolding strcaseeq_def by metis+
qed

lemma clamp_range: "lo \<le> hi \<Longrightarrow> lo \<le> clamp lo hi v \<and> clamp lo hi v \<le> hi"
  by (simp add: clamp_def Let_def)

section \<open>The options a list of pairs sets\<close>

definition hz_of :: "string \<Rightarrow> int" where
  "hz_of v = clamp CONFIG_MIN_HZ CONFIG_MAX_HZ (atoi v)"

definition interval_of :: "string \<Rightarrow> int" where
  "interval_of v =
     clamp CONFIG_MIN_RECONNECT_INTERVAL_MS CONFIG_MAX_RECONNECT_INTERVAL_MS (atoi v)"

text \<open>\<open>t\<close> is \<open>s\<close> with the options as the pairs \<open>ts\<close> set them.\<close>

definition configured :: "world \<Rightarrow> triple list \<Rightarrow> world \<Rightarrow> bool" where
  "configured s ts t \<longleftrightarrow>
     logfile t = setting ''logging'' ''logfile'' Some (logfile s) ts \<and>
     syslog t = setting ''logging'' ''syslog-enabled'' yesnotoi (syslog s) ts \<and>
     verbosity t = setting ''logging'' ''loglevel'' (\<lambda>v. getLogLevel (Some v)) (verbosity s) ts \<and>
     hz t = setting ''system'' ''hz'' hz_of (hz s) ts \<and>
     reconnect_interval t = setting ''system'' ''reconnect-interval'' interval_of (reconnect_interval s) ts \<and>
     pidfile t = setting ''system'' ''pidfile'' Some (pidfile s) ts \<and>
     serial_configfile t = setting ''system'' ''serial-configfile'' Some (serial_configfile s) ts"

text \<open>Nothing but the options differs.\<close>

definition without_options :: "world \<Rightarrow> world" where
  "without_options s = s\<lparr>logfile := None, syslog := 0, verbosity := 0, hz := 0,
     reconnect_interval := 0, pidfile := None, serial_configfile := None\<rparr>"

definition options_frame :: "world \<Rightarrow> world \<Rightarrow> bool" where
  "options_frame s t \<longleftrightarrow> quiet (without_options s) (without_options t)"

lemma options_frame_refl [simp, intro]: "options_frame s s"
  by (simp add: options_frame_def)

lemma options_frame_upd [simp]:
  "options_frame s (t\<lparr>logfile := l\<rparr>) = options_frame s t"
  "options_frame s (t\<lparr>syslog := i\<rparr>) = options_frame s t"
  "options_frame s (t\<lparr>verbosity := i\<rparr>) = options_frame s t"
  "options_frame s (t\<lparr>hz := i\<rparr>) = options_frame s t"
  "options_frame s (t\<lparr>reconnect_interval := i\<rparr>) = options_frame s t"
  "options_frame s (t\<lparr>pidfile := l\<rparr>) = options_frame s t"
  "options_frame s (t\<lparr>serial_configfile := l\<rparr>) = options_frame s t"
  by (simp_all add: options_frame_def without_options_def)

lemma quiet_without_options: "quiet s t \<Longrightarrow> quiet (without_options s) (without_options t)"
  by (cases s; cases t) (simp add: without_options_def frame_defs)

lemma options_frame_quiet:
  "options_frame s t \<Longrightarrow> quiet t u \<Longrightarrow> options_frame s u"
  unfolding options_frame_def by (metis quiet_trans quiet_without_options)

lemma configured_quiet:
  assumes "quiet t u"
  shows "configured s ts u = configured s ts t"
proof -
  have "serial_configfile u = serial_configfile t"
    using assms by (cases t; cases u) (simp add: frame_defs)
  then show ?thesis by (simp add: configured_def quiet_world [OF assms])
qed

section \<open>The handler\<close>

definition option_acc :: "triple \<Rightarrow> bool" where
  "option_acc x \<longleftrightarrow>
     matches ''logging'' ''logfile'' x \<or> matches ''logging'' ''syslog-enabled'' x
     \<or> matches ''logging'' ''loglevel'' x \<or> matches ''system'' ''hz'' x
     \<or> matches ''system'' ''reconnect-interval'' x \<or> matches ''system'' ''pidfile'' x
     \<or> matches ''system'' ''serial-configfile'' x"

interpretation system_file: ini_client serverConfigHandler option_acc "\<lambda>x ts. ts @ [x]"
  "\<lambda>t ts. configured s0 ts t \<and> options_frame s0 t" "\<lambda>h. h = Exit 1"
  for s0
proof unfold_locales
  fix sect name val s ts
  assume s: "configured s0 ts s \<and> options_frame s0 s"
  have quiet: "configured s0 ts t \<and> options_frame s0 t" if "quiet s t" for t
    using s configured_quiet [OF that] options_frame_quiet [OF _ that] by auto
  let ?S = "map tolower sect" and ?N = "map tolower name"
  let ?Q = "\<lambda>r t. (configured s0 (ts @ [(sect, name, val)]) t \<and> options_frame s0 t) \<and>
             (r \<noteq> 0 \<longleftrightarrow> option_acc (sect, name, val))"
  note defs = serverConfigHandler_def option_acc_def matches_def
  consider (logfile) "?S = ''logging''" "?N = ''logfile''"
    | (syslog) "?S = ''logging''" "?N = ''syslog-enabled''"
    | (level) "?S = ''logging''" "?N = ''loglevel''"
    | (hz) "?S = ''system''" "?N = ''hz''"
    | (interval) "?S = ''system''" "?N = ''reconnect-interval''"
    | (pidfile) "?S = ''system''" "?N = ''pidfile''"
    | (serial) "?S = ''system''" "?N = ''serial-configfile''"
    | (other) "\<not> option_acc (sect, name, val)"
    by (simp add: option_acc_def matches_def) blast
  then show "wp (serverConfigHandler sect name val) ?Q (\<lambda>h. h = Exit 1) s"
  proof cases
    case logfile
    have "wp (strdup_or_exit ''Can't set config file: '' val) (\<lambda>v. wp (thn (modify (\<lambda>s. s\<lparr>logfile := v\<rparr>)) (ret (1::int))) ?Q
        (\<lambda>h. h = Exit 1)) (\<lambda>h. h = Exit 1) s"
      by (rule wp_strdup_or_exit [OF disjI2 [OF refl]])
        (use logfile in \<open>auto simp: defs configured_def dest!: quiet\<close>)
    with logfile show ?thesis by (simp add: serverConfigHandler_def)
  next
    case syslog
    with s show ?thesis by (simp add: defs configured_def)
  next
    case level
    with s show ?thesis by (simp add: defs configured_def)
  next
    case hz
    with s show ?thesis by (simp add: defs configured_def hz_of_def)
  next
    case interval
    with s show ?thesis by (simp add: defs configured_def interval_of_def)
  next
    case pidfile
    have "wp (strdup_or_exit ''Can't set pid file: '' val) (\<lambda>v. wp (thn (modify (\<lambda>s. s\<lparr>pidfile := v\<rparr>)) (ret (1::int))) ?Q
        (\<lambda>h. h = Exit 1)) (\<lambda>h. h = Exit 1) s"
      by (rule wp_strdup_or_exit [OF disjI2 [OF refl]])
        (use pidfile in \<open>auto simp: defs configured_def dest!: quiet\<close>)
    with pidfile show ?thesis by (simp add: serverConfigHandler_def)
  next
    case serial
    have "wp (strdup_or_exit ''Can't set serial config file: '' val) (\<lambda>v. wp (thn (modify (\<lambda>s. s\<lparr>serial_configfile := v\<rparr>)) (ret (1::int))) ?Q
        (\<lambda>h. h = Exit 1)) (\<lambda>h. h = Exit 1) s"
      by (rule wp_strdup_or_exit [OF disjI2 [OF refl]])
        (use serial in \<open>auto simp: defs configured_def dest!: quiet\<close>)
    with serial show ?thesis by (simp add: serverConfigHandler_def)
  next
    case other
    then have "serverConfigHandler sect name val = ret 0"
      unfolding defs Let_def by simp (intro conjI impI; blast)
    moreover have "configured s0 (ts @ [(sect, name, val)]) s"
      using s other unfolding configured_def option_acc_def matches_def
      by simp (intro conjI impI; blast)
    ultimately show ?thesis using s other by simp
  qed
qed

lemma fold_snoc: "fold (\<lambda>x ts. ts @ [x]) xs ts = ts @ xs"
  by (induction xs arbitrary: ts) simp_all

text \<open>The pairs of a system file.\<close>

definition system_pairs :: "string \<Rightarrow> triple list" where
  "system_pairs file = ini_triples option_acc file"

lemma wp_serverLoadConfig:
  assumes "fd_ok s" and E: "E (Exit 1)"
    and Q: "\<And>t. r_ok (answers s (calls s)) \<Longrightarrow>
      configured s (system_pairs (r_data (answers s (calls s)))) t \<Longrightarrow> options_frame s t \<Longrightarrow> Q () t"
  shows "wp (serverLoadConfig (Some f)) Q E s"
proof -
  let ?file = "r_data (answers s (calls s))"
  have "wp (ini_parse_file ?file serverConfigHandler) (\<lambda>e. wp (thn (sys_close fd) (ret e))
      (\<lambda>r. wp (if r < 0 then exit_saying 2 (''Can't load config file: '' @ f @ [newline_char]) 1 else ret ()) Q E) E) E t"
    if t: "same_env s t" "fds t = fd # fds s" "fd \<notin> set (fds s)" "interest t = interest s"
      "r_ok (answers s (calls s))" for t fd
  proof -
    have "wp (ini_parse_file ?file serverConfigHandler)
        (\<lambda>r u. r = ini_errors option_acc ?file \<and> configured t (system_pairs ?file) u
               \<and> options_frame t u) (\<lambda>h. h = Exit 1) t"
      using system_file.file_step [of t "[]" t ?file]
      by (simp add: fold_snoc system_pairs_def configured_def)
    then show ?thesis
    proof (rule wp_mono)
      fix e u
      assume u: "e = ini_errors option_acc ?file \<and> configured t (system_pairs ?file) u
               \<and> options_frame t u"
      let ?u = "u\<lparr>fds := remove1 fd (fds u), interest := (interest u)(fd := None),
                   trace := trace u @ [Closed fd]\<rparr>"
      have fds: "fds u = fd # fds s" "interest u = interest s"
        using u t(2,4) by (auto simp: options_frame_def without_options_def frame_defs)
      have "(interest s)(fd := None) = interest s"
        using assms(1) t(3) by (intro fun_upd_idem) (simp add: fd_ok_def)
      with u t(1) fds have "options_frame s ?u"
        by (cases s; cases t; cases u) (simp add: options_frame_def without_options_def frame_defs)
      moreover have "serial_configfile t = serial_configfile s"
        using t(1) by (cases s; cases t) (simp add: same_env_def)
      then have "configured s (system_pairs ?file) ?u"
        using u by (simp add: configured_def same_env_world [OF t(1)])
      ultimately show "wp (thn (sys_close fd) (ret e))
          (\<lambda>r. wp (if r < 0 then exit_saying 2 (''Can't load config file: '' @ f @ [newline_char]) 1 else ret ()) Q E) E u"
        using Q [OF t(5)] E fds by (simp add: wp_sys_close)
    qed (simp add: E)
  qed
  note run = this
  show ?thesis
    unfolding serverLoadConfig_def option.case wp_bnd
    by (rule wp_ini_parse [OF assms(1)]) (simp add: E, rule run)
qed

end
