(* ===== verification/SerialLinks.thy ===== *)
theory SerialLinks
  imports SerialNodes
begin

text \<open>
  The links of \<open>src/serial.c\<close>: opening a node's device or pseudo-terminal and registering it with
  the event loop, the read and write handlers that move the bytes, reconnection, the reset before
  every poll, and the shutdown of all nodes.
\<close>

section \<open>Event flags\<close>

definition serialEventFlags :: "ptr \<Rightarrow> mask io" where
  "serialEventFlags p =
     bnd (get_node p) (\<lambda>node.
       if nodeIsMaster node then
         bnd (serialGetVirtualWriterNode p) (\<lambda>w.
           ret (if w \<noteq> None then AE_READABLE OR AE_WRITABLE else AE_READABLE))
       else if nodeIsVirtual node then
         ret (if nodeIsWriter node then AE_WRITABLE OR AE_READABLE else AE_WRITABLE)
       else ret 0)"

definition serialEventString :: "ptr \<Rightarrow> string option io" where
  "serialEventString p =
     bnd (serialEventFlags p) (\<lambda>flags.
       ret (if flags AND (AE_READABLE OR AE_WRITABLE) \<noteq> 0 then Some ''rw''
            else if flags AND AE_READABLE \<noteq> 0 then Some ''r''
            else if flags AND AE_READABLE \<noteq> 0 then Some ''w''
            else None))"

text \<open>What glibc prints for \<open>%s\<close>.\<close>

definition show_str :: "string option \<Rightarrow> string" where
  "show_str p = (case p of None \<Rightarrow> ''(null)'' | Some t \<Rightarrow> t)"

section \<open>Closing a link\<close>

definition serialFreeLink :: "ptr \<Rightarrow> unit io" where
  "serialFreeLink p =
     bnd (get_link p) (\<lambda>link.
       thn (when_do (link_fd link \<noteq> -1 \<and> link_node link \<noteq> None)
              (bnd (serialEventFlags (link_node link)) (\<lambda>flags.
                aeDeleteFileEvent (link_fd link) flags)))
      (thn (when_do (link_node link \<noteq> None)
              (upd_node (link_node link) (\<lambda>n. n\<lparr>node_link := None\<rparr>)))
      (thn (when_do (link_fd link \<noteq> -1) (thn (sys_close (link_fd link)) (ret ())))
      (thn (when_do (link_sfd link \<noteq> -1) (thn (sys_close (link_sfd link)) (ret ())))
        (modify (\<lambda>s. s\<lparr>links := (links s)(the p := None)\<rparr>))))))"

definition serialLinkIOError :: "ptr \<Rightarrow> unit io" where
  "serialLinkIOError p = serialFreeLink p"

section \<open>Opening a link\<close>

text \<open>Each phase returns false where the code jumps to \<open>err\<close>.\<close>

definition open_master :: "ptr \<Rightarrow> string \<Rightarrow> bool io" where
  "open_master p name =
     bnd (sys_open name) (\<lambda>fd.
       thn (upd_link p (\<lambda>l. l\<lparr>link_fd := fd\<rparr>))
        (if fd = -1 then thn (serverLogErrno LL_ERROR ''open'') (ret False)
         else bnd (sys_isatty fd) (\<lambda>tty.
           if tty = -1 then thn (serverLogErrno LL_ERROR ''isatty'') (ret False)
           else ret True)))"

definition open_virtual :: "ptr \<Rightarrow> string \<Rightarrow> bool io" where
  "open_virtual p name =
     bnd sys_openpty (\<lambda>(r, fd, sfd).
       if r = -1 then thn (serverLogErrno LL_ERROR ''openpty'') (ret False)
       else
         thn (upd_link p (\<lambda>l. l\<lparr>link_fd := fd, link_sfd := sfd\<rparr>))
        (thn (sys_remove name)
          (bnd (sys_ttyname sfd) (\<lambda>tty.
           bnd (sys_symlink tty name) (\<lambda>r.
             if r = -1 then thn (serverLogErrno LL_ERROR ''symlink'') (ret False)
             else ret True)))))"

text \<open>The rates with a \<open>case\<close> of their own, in the order of the switch.\<close>

definition baud_cases :: "int list" where
  "baud_cases = [0, 50, 75, 110, 134, 150, 200, 300, 600, 1200, 1800, 2400, 4800, 7200, 9600,
     14400, 19200, 28800, 57600, 76800, 38400, 115200, 128000, 153600, 230400, 256000, 460800,
     576000, 921600, 1000000, 1152000, 1500000, 2000000, 2500000, 3000000, 3500000, 4000000]"

text \<open>
  \<open>switch (node->baudrate)\<close>: the constant for the rate where the platform defines one (it is
  named by its rate here), else a custom divisor set with \<open>ioctl\<close>. \<open>None\<close>: jump to \<open>err\<close>;
  \<open>Some None\<close>: \<open>custom_baud\<close>.
\<close>

definition select_baud :: "int \<Rightarrow> int \<Rightarrow> int option option io" where
  "select_baud fd rate =
     bnd (gets speeds) (\<lambda>defined.
       if rate \<in> set baud_cases \<and> rate \<in> set defined then ret (Some (Some rate))
       else bnd (sys_tiocgserial fd) (\<lambda>(r, ser).
         if r = -1 then ret None
         else if rate = 0 then stop_with DivByZero
         else if baud_base ser = INT_MIN \<and> rate = -1 then stop_with IntOverflow
         else
           bnd (sys_tiocsserial fd
                  (ser\<lparr>custom_divisor := c_div (baud_base ser) rate,
                       ser_flags := (ser_flags ser AND NOT ASYNC_SPD_MASK) OR ASYNC_SPD_CUST\<rparr>))
             (\<lambda>r. if r = -1 then thn (serverLogErrno LL_ERROR ''ioctl'') (ret None)
                   else ret (Some None))))"

definition set_speed :: "int option \<Rightarrow> termios \<Rightarrow> termios" where
  "set_speed baud ts = (case baud of None \<Rightarrow> ts | Some b \<Rightarrow> ts\<lparr>ispeed := b, ospeed := b\<rparr>)"

definition configure_tty :: "ptr \<Rightarrow> serialNode \<Rightarrow> bool io" where
  "configure_tty p node =
     bnd (get_link p) (\<lambda>link.
     bnd (sys_tcgetattr (link_fd link)) (\<lambda>(r, ts).
       if r = -1 then thn (serverLogErrno LL_ERROR ''tcgetattr'') (ret False)
       else
         bnd (if nodeIsMaster node then select_baud (link_fd link) (baudrate node)
              else ret (Some None)) (\<lambda>sel.
           case sel of
             None \<Rightarrow> ret False
           | Some baud \<Rightarrow>
               bnd (sys_tcsetattr (link_fd link) ((set_speed baud ts)\<lparr>rawmode := True\<rparr>)) (\<lambda>r.
                 if r = -1 then thn (serverLogErrno LL_ERROR ''tcsetattr'') (ret False)
                 else ret True))))"

definition serialCreateLink :: "ptr \<Rightarrow> ptr io" where
  "serialCreateLink np =
     bnd sys_malloc (\<lambda>ok.
       if \<not> ok then thn (serverLog LL_ERROR ''calloc failed'') (stop_with (Exit 1))
       else
         bnd (gets link_brk) (\<lambda>a.
         thn (modify (\<lambda>s. s\<lparr>link_brk := Suc a, links := (links s)(a \<mapsto>
                \<lparr>link_fd = -1, link_sfd = -1, recvbuf = [], recvbuflen = 0, link_node = None\<rparr>)\<rparr>))
        (bnd (get_node np) (\<lambda>node.
         bnd (if nodeIsMaster node then open_master (Some a) (node_name node)
              else if nodeIsVirtual node then open_virtual (Some a) (node_name node)
              else ret True) (\<lambda>opened.
         bnd (if opened then configure_tty (Some a) node else ret False) (\<lambda>ready.
           if \<not> ready then thn (serialLinkIOError (Some a)) (ret None)
           else
             bnd (serialEventFlags np) (\<lambda>flags.
             bnd (get_link (Some a)) (\<lambda>link.
               thn (aeCreateFileEvent (link_fd link) flags serialEventHandler_fp (Some a))
              (thn (upd_node np (\<lambda>n. n\<lparr>node_link := Some a\<rparr>))
              (thn (upd_link (Some a) (\<lambda>l. l\<lparr>link_node := np\<rparr>))
                (ret (Some a))))))))))))"

definition serialConnectNode :: "ptr \<Rightarrow> int io" where
  "serialConnectNode np =
     bnd (get_node np) (\<lambda>node.
       if node_link node \<noteq> None then ret C_ERR
       else bnd (serialCreateLink np) (\<lambda>link. if link = None then ret C_ERR else ret C_OK))"

section \<open>Moving bytes\<close>

definition serialWriteLink :: "ptr \<Rightarrow> ptr \<Rightarrow> unit io" where
  "serialWriteLink fromlink tolink =
     (case fromlink of
        None \<Rightarrow> ret ()
      | Some _ \<Rightarrow>
          bnd (get_link fromlink) (\<lambda>from.
            if recvbuflen from > 0 then
              bnd (get_link tolink) (\<lambda>to.
              bnd (sys_write (link_fd to) (take (nat (recvbuflen from)) (recvbuf from))) (\<lambda>nwrite.
                if nwrite \<le> 0 then
                  bnd (get_node (link_node to)) (\<lambda>ton.
                  thn (serverLogErrno LL_ERROR (''I/O error writing to '' @ node_name ton @ '' (''
                         @ show_int (link_fd to) @ '') node link''))
                    (serialLinkIOError tolink))
                else
                  bnd (get_node (link_node from)) (\<lambda>fromn.
                  bnd (get_node (link_node to)) (\<lambda>ton.
                    serverLog LL_DEBUG (''Wrote '' @ show_int nwrite @ '' bytes from ''
                      @ node_name fromn @ '' ('' @ show_int (link_fd from) @ '') to ''
                      @ node_name ton @ '' ('' @ show_int (link_fd to) @ '')'')))))
            else ret ()))"

definition serialWriteHandler :: "ptr \<Rightarrow> unit io" where
  "serialWriteHandler p =
     bnd (get_link p) (\<lambda>link.
     bnd (get_node (link_node link)) (\<lambda>node.
       if nodeIsVirtual node then
         bnd (get_node (virtualof node)) (\<lambda>master. serialWriteLink (node_link master) p)
       else if nodeIsMaster node then
         bnd (serialGetVirtualWriterNode (link_node link)) (\<lambda>w.
           case w of
             None \<Rightarrow> ret ()
           | Some _ \<Rightarrow> bnd (get_node w) (\<lambda>virt. serialWriteLink (node_link virt) p))
       else ret ()))"

text \<open>The bytes \<open>read\<close> stores replace the front of the buffer.\<close>

definition store_front :: "string \<Rightarrow> string \<Rightarrow> string" where
  "store_front new old = new @ drop (length new) old"

definition serialReadHandler :: "ptr \<Rightarrow> unit io" where
  "serialReadHandler p =
     bnd (get_link p) (\<lambda>link.
     bnd (sys_read (link_fd link) BUFSIZ) (\<lambda>(nread, bytes).
       if nread \<le> 0 then
         bnd (gets errno) (\<lambda>e.
           if e \<noteq> EAGAIN then
             bnd (get_node (link_node link)) (\<lambda>node.
             thn (serverLogErrno LL_ERROR (''I/O error reading from '' @ node_name node @ '' (''
                    @ show_int (link_fd link) @ '') node link''))
               (serialLinkIOError p))
           else ret ())
       else
         thn (upd_link p (\<lambda>l. l\<lparr>recvbuf := store_front bytes (recvbuf l)\<rparr>))
        (bnd (get_node (link_node link)) (\<lambda>node.
         thn (serverLog LL_DEBUG (''Read '' @ show_int nread @ '' bytes from '' @ node_name node
                @ '' ('' @ show_int (link_fd link) @ '')''))
           (upd_link p (\<lambda>l. l\<lparr>recvbuflen := nread\<rparr>))))))"

definition serialEventHandler :: "int \<Rightarrow> ptr \<Rightarrow> mask \<Rightarrow> unit io" where
  "serialEventHandler fd privdata m =
     (if privdata = None then ret ()
      else
        thn (when_do (m AND AE_READABLE \<noteq> 0) (serialReadHandler privdata))
          (when_do (m AND AE_WRITABLE \<noteq> 0) (serialWriteHandler privdata)))"

section \<open>Reconnection, reset and shutdown\<close>

text \<open>The message after a successful connection, with its arguments evaluated.\<close>

definition log_reconnected :: "string \<Rightarrow> ptr \<Rightarrow> unit io" where
  "log_reconnected what p =
     bnd (get_node p) (\<lambda>n. bnd (get_link (node_link n)) (\<lambda>l. bnd (serialEventString p) (\<lambda>str.
       serverLog LL_INFO (what @ node_name n @ '' ('' @ show_int (link_fd l) @ '') ['' @ show_str str
         @ '']''))))"

definition reconnect_virtual :: "ptr \<Rightarrow> (ptr + unit) io" where
  "reconnect_virtual vp =
     (case vp of
        None \<Rightarrow> ret (Inr ())
      | Some _ \<Rightarrow>
          bnd (get_node vp) (\<lambda>v.
          thn (when_do (node_link v = None)
                 (bnd (serialConnectNode vp) (\<lambda>r.
                    if r = C_ERR
                    then serverLog LL_WARN
                           (''Problem reconnecting virtual serial device: '' @ node_name v)
                    else log_reconnected ''Reconnected virtual: '' vp)))
            (bnd (get_node vp) (\<lambda>v. ret (Inl (node_next v))))))"

definition reconnect_master :: "ptr \<Rightarrow> (ptr + unit) io" where
  "reconnect_master np =
     (case np of
        None \<Rightarrow> ret (Inr ())
      | Some _ \<Rightarrow>
          bnd (get_node np) (\<lambda>n.
          bnd (if node_link n = None
               then bnd (serialConnectNode np) (\<lambda>r.
                      if r = C_ERR
                      then thn (serverLog LL_WARN
                                  (''Problem reconnecting serial device: '' @ node_name n))
                             (ret False)
                      else thn (log_reconnected ''Reconnected serial: '' np) (ret True))
               else ret True) (\<lambda>connected.
          thn (when_do connected
                 (bnd (gets node_fuel) (\<lambda>fuel. bnd (get_node np) (\<lambda>n.
                    loop fuel reconnect_virtual (virtual_head n)))))
            (bnd (get_node np) (\<lambda>n. ret (Inl (node_next n)))))))"

definition serialReconnect :: "unit io" where
  "serialReconnect =
     bnd (gets node_fuel) (\<lambda>fuel. bnd (gets master_head) (\<lambda>h. loop fuel reconnect_master h))"

definition serialCron :: "unit io" where
  "serialCron = serialReconnect"

definition reset_node :: "ptr \<Rightarrow> unit io" where
  "reset_node p =
     bnd (get_node p) (\<lambda>n.
       when_do (node_link n \<noteq> None) (upd_link (node_link n) (\<lambda>l. l\<lparr>recvbuflen := 0\<rparr>)))"

definition reset_virtual :: "ptr \<Rightarrow> (ptr + unit) io" where
  "reset_virtual vp =
     (case vp of
        None \<Rightarrow> ret (Inr ())
      | Some _ \<Rightarrow> thn (reset_node vp) (bnd (get_node vp) (\<lambda>v. ret (Inl (node_next v)))))"

definition reset_master :: "ptr \<Rightarrow> (ptr + unit) io" where
  "reset_master np =
     (case np of
        None \<Rightarrow> ret (Inr ())
      | Some _ \<Rightarrow>
          thn (reset_node np)
            (bnd (gets node_fuel) (\<lambda>fuel. bnd (get_node np) (\<lambda>n.
              thn (loop fuel reset_virtual (virtual_head n))
                (bnd (get_node np) (\<lambda>n. ret (Inl (node_next n))))))))"

definition serialBeforeSleep :: "unit io" where
  "serialBeforeSleep =
     bnd (gets node_fuel) (\<lambda>fuel. bnd (gets master_head) (\<lambda>h.
       thn (loop fuel reset_master h) (sys_usleep 1000000)))"

text \<open>Close the link of a node about to be freed.\<close>

definition close_node :: "ptr \<Rightarrow> unit io" where
  "close_node p =
     bnd (get_node p) (\<lambda>n.
       when_do (node_link n \<noteq> None)
         (thn (serialFreeLink (node_link n)) (upd_node p (\<lambda>n. n\<lparr>node_link := None\<rparr>))))"

definition term_virtual :: "ptr \<Rightarrow> (ptr + unit) io" where
  "term_virtual vp =
     (case vp of
        None \<Rightarrow> ret (Inr ())
      | Some _ \<Rightarrow>
          bnd (get_node vp) (\<lambda>v.
          thn (serverLog LL_INFO (''Closing virtual: '' @ node_name v))
         (thn (close_node vp)
         (thn (serialFreeNode vp)
           (ret (Inl (node_next v)))))))"

definition term_master :: "ptr \<Rightarrow> (ptr + unit) io" where
  "term_master np =
     (case np of
        None \<Rightarrow> ret (Inr ())
      | Some _ \<Rightarrow>
          bnd (gets node_fuel) (\<lambda>fuel. bnd (get_node np) (\<lambda>n.
          thn (loop fuel term_virtual (virtual_head n))
         (bnd (get_node np) (\<lambda>n.
          thn (serverLog LL_INFO (''Closing serial: '' @ node_name n))
         (thn (close_node np)
         (thn (serialFreeNode np)
           (ret (Inl (node_next n))))))))))"

definition serialTerm :: "unit io" where
  "serialTerm =
     bnd (gets node_fuel) (\<lambda>fuel. bnd (gets master_head) (\<lambda>h. loop fuel term_master h))"

end
