(* ===== verification/AeFiles.thy ===== *)
theory AeFiles
  imports Frame
begin

text \<open>
  The file events of \<open>src/ae.c\<close>. \<open>table_ok\<close> is the contract between the three places that record
  which descriptors are watched: the event table, \<open>maxfd\<close> and the kernel's epoll set. Creating
  and deleting events keeps them in step.
\<close>

section \<open>The event table and the epoll set\<close>

definition evmask :: "aeEventLoop \<Rightarrow> int \<Rightarrow> mask" where
  "evmask L fd = (if 0 \<le> fd \<and> fd < setsize L then fe_mask (events L ! nat fd) else AE_NONE)"

definition watch :: "mask \<Rightarrow> mask option" where
  "watch m = (if m = AE_NONE then None else Some (epoll_events_of m))"

definition is_highest :: "aeEventLoop \<Rightarrow> int \<Rightarrow> bool" where
  "is_highest L h \<longleftrightarrow>
     (h = -1 \<or> evmask L h \<noteq> AE_NONE) \<and> (\<forall>fd. evmask L fd \<noteq> AE_NONE \<longrightarrow> fd \<le> h)"

definition table_ok :: "aeEventLoop \<Rightarrow> (int \<Rightarrow> mask option) \<Rightarrow> bool" where
  "table_ok L I \<longleftrightarrow>
     0 \<le> setsize L \<and> length (events L) = nat (setsize L) \<and> length (fired L) = nat (setsize L)
     \<and> is_highest L (maxfd L) \<and> (\<forall>fd. I fd = watch (evmask L fd))"

lemma evmask_set:
  assumes "length (events L) = nat (setsize L)" and "0 \<le> fd" "fd < setsize L"
  shows "evmask (L\<lparr>events := (events L)[nat fd := fe]\<rparr>) = (evmask L)(fd := fe_mask fe)"
  using assms by (auto simp: evmask_def fun_eq_iff nth_list_update)

lemma evmask_simps [simp]:
  "evmask (L\<lparr>maxfd := h\<rparr>) = evmask L" "evmask (L\<lparr>fired := f\<rparr>) = evmask L"
  "evmask (L\<lparr>stop := b\<rparr>) = evmask L" "evmask (L\<lparr>timeEventHead := p\<rparr>) = evmask L"
  "evmask (L\<lparr>timeEventNextId := i\<rparr>) = evmask L" "evmask (L\<lparr>lastTime := i\<rparr>) = evmask L"
  "evmask (L\<lparr>beforesleep := q\<rparr>) = evmask L"
  by (simp_all add: evmask_def fun_eq_iff)

lemma is_highest_cong: "evmask L = evmask M \<Longrightarrow> is_highest L h = is_highest M h"
  by (simp add: is_highest_def)

lemma table_ok_simps [simp]:
  "length f = length (fired L) \<Longrightarrow> table_ok (L\<lparr>fired := f\<rparr>) I = table_ok L I"
  "table_ok (L\<lparr>stop := b\<rparr>) I = table_ok L I" "table_ok (L\<lparr>timeEventHead := p\<rparr>) I = table_ok L I"
  "table_ok (L\<lparr>timeEventNextId := i\<rparr>) I = table_ok L I" "table_ok (L\<lparr>lastTime := i\<rparr>) I = table_ok L I"
  "table_ok (L\<lparr>beforesleep := q\<rparr>) I = table_ok L I"
  by (simp_all add: table_ok_def is_highest_def)

text \<open>The loop that looks for the next lower registered descriptor.\<close>

lemma highest_below_bound: "highest_below evs n < int n \<and> -1 \<le> highest_below evs n"
  by (induction n) auto

lemma highest_below_mask:
  "highest_below evs n \<noteq> -1 \<Longrightarrow> fe_mask (evs ! nat (highest_below evs n)) \<noteq> AE_NONE"
  by (induction n) auto

lemma highest_below_max:
  "j < n \<Longrightarrow> fe_mask (evs ! j) \<noteq> AE_NONE \<Longrightarrow> int j \<le> highest_below evs n"
  by (induction n) (auto simp: less_Suc_eq)

lemma is_highest_below:
  assumes "length (events L) = nat (setsize L)" and "h \<le> setsize L" "0 \<le> setsize L"
    and "\<And>fd. evmask L fd \<noteq> AE_NONE \<Longrightarrow> fd < h"
  shows "is_highest L (highest_below (events L) (nat h))"
proof -
  let ?r = "highest_below (events L) (nat h)"
  have r: "?r < int (nat h)" "-1 \<le> ?r" using highest_below_bound [of "events L" "nat h"] by auto
  have "?r = -1 \<or> evmask L ?r \<noteq> AE_NONE"
    using highest_below_mask [of "events L" "nat h"] r assms(2,3) by (auto simp: evmask_def split: if_splits)
  moreover have "fd \<le> ?r" if "evmask L fd \<noteq> AE_NONE" for fd
  proof -
    have "0 \<le> fd" "fe_mask (events L ! nat fd) \<noteq> AE_NONE"
      using that by (auto simp: evmask_def split: if_splits)
    with assms(4) [OF that] highest_below_max [of "nat fd" "nat h" "events L"] show ?thesis by simp
  qed
  ultimately show ?thesis by (simp add: is_highest_def)
qed

section \<open>Access rules\<close>

lemma wp_get_loop: "el s = Some L \<Longrightarrow> wp get_loop Q E s = Q L s"
  by (simp add: get_loop_def)

lemma wp_upd_loop: "el s = Some L \<Longrightarrow> wp (upd_loop f) Q E s = Q () (s\<lparr>el := Some (f L)\<rparr>)"
  by (simp add: upd_loop_def wp_get_loop)

lemma wp_event_at:
  assumes "el s = Some L" and "table_ok L I" and "0 \<le> fd" "fd < setsize L"
  shows "wp (event_at fd) Q E s = Q (events L ! nat fd) s"
  using assms by (simp add: event_at_def wp_get_loop table_ok_def)

lemma wp_upd_event:
  "el s = Some L \<Longrightarrow> wp (upd_event fd f) Q E s =
     Q () (s\<lparr>el := Some (L\<lparr>events := (events L)[nat fd := f (events L ! nat fd)]\<rparr>)\<rparr>)"
  by (simp add: upd_event_def wp_upd_loop)

section \<open>Creating an event\<close>

text \<open>The loop after a successful registration.\<close>

definition with_event :: "aeEventLoop \<Rightarrow> int \<Rightarrow> mask \<Rightarrow> fnptr \<Rightarrow> ptr \<Rightarrow> aeEventLoop" where
  "with_event L fd m proc cd =
     L\<lparr>events := (events L)[nat fd := register_event m proc cd (events L ! nat fd)],
       maxfd := max (maxfd L) fd\<rparr>"

lemma table_ok_with_event:
  assumes ok: "table_ok L I" and fd: "0 \<le> fd" "fd < setsize L" and m: "m \<noteq> AE_NONE"
  shows "table_ok (with_event L fd m proc cd) (I(fd \<mapsto> epoll_events_of (evmask L fd OR m)))"
proof -
  let ?m = "evmask L fd OR m"
  have len: "length (events L) = nat (setsize L)" using ok by (simp add: table_ok_def)
  have ev: "evmask (with_event L fd m proc cd) = (evmask L)(fd := ?m)"
    using evmask_set [OF len fd, of "register_event m proc cd (events L ! nat fd)"] fd
    by (simp add: with_event_def register_event_def evmask_def fun_eq_iff)
  have "?m \<noteq> AE_NONE" using m by (metis or_eq_0_iff)
  then show ?thesis
    using ok fd unfolding table_ok_def is_highest_def ev
    by (auto simp: with_event_def watch_def max_def)
qed

lemma wp_aeCreateFileEvent:
  assumes L: "el s = Some L" "table_ok L (interest s)" and fd: "0 \<le> fd" "fd \<in> set (fds s)"
    and err: "\<And>t. quiet s t \<Longrightarrow> Q AE_ERR t"
    and set: "\<And>t. quiet s t \<Longrightarrow> fd < setsize L \<Longrightarrow>
      Q AE_OK (t\<lparr>interest := (interest s)(fd \<mapsto> epoll_events_of (evmask L fd OR m)),
                 el := Some (with_event L fd m proc cd)\<rparr>)"
  shows "wp (aeCreateFileEvent fd m proc cd) Q E s"
proof (cases "setsize L \<le> fd")
  case True
  then show ?thesis
    using L err [of "s\<lparr>errno := ERANGE\<rparr>"]
    by (simp add: aeCreateFileEvent_def wp_get_loop wp_kernel frame_defs)
next
  case False
  have I: "interest s fd = watch (evmask L fd)" using L(2) by (simp add: table_ok_def)
  have ev: "fe_mask (events L ! nat fd) = evmask L fd" using False fd by (simp add: evmask_def)
  let ?s = "s\<lparr>calls := Suc (calls s)\<rparr>"
  let ?I = "(interest s)(fd \<mapsto> epoll_events_of (evmask L fd OR m))"
  have q: "quiet s (?s\<lparr>errno := e\<rparr>)" "quiet s ?s" for e by (simp_all add: frame_defs)
  have "(if maxfd L < fd then M\<lparr>maxfd := fd\<rparr> else M) = M\<lparr>maxfd := max (maxfd L) fd\<rparr>"
    if "maxfd M = maxfd L" for M :: aeEventLoop
    using that by (cases M) (auto simp: max_def)
  then have "with_event L fd m proc cd =
      (if maxfd L < fd
       then L\<lparr>events := (events L)[nat fd := register_event m proc cd (events L ! nat fd)], maxfd := fd\<rparr>
       else L\<lparr>events := (events L)[nat fd := register_event m proc cd (events L ! nat fd)]\<rparr>)"
    by (simp add: with_event_def)
  with set [OF q(2)] err q(1) False fd L I ev show ?thesis
    by (simp add: aeCreateFileEvent_def aeApiAddEvent_def sys_epoll_ctl_def wp_get_loop
        wp_event_at [OF L] wp_kernel watch_def or.commute wp_upd_event wp_upd_loop)
qed

section \<open>Deleting an event\<close>

text \<open>The loop after a deletion: the mask is cleared and \<open>maxfd\<close> goes down when it has to.\<close>

definition cleared :: "aeEventLoop \<Rightarrow> int \<Rightarrow> mask \<Rightarrow> aeEventLoop" where
  "cleared L fd m =
     L\<lparr>events := (events L)[nat fd := (events L ! nat fd)\<lparr>fe_mask := evmask L fd AND NOT m\<rparr>]\<rparr>"

definition without_event :: "aeEventLoop \<Rightarrow> int \<Rightarrow> mask \<Rightarrow> aeEventLoop" where
  "without_event L fd m =
     (if fd = maxfd L \<and> evmask L fd AND NOT m = AE_NONE
      then (cleared L fd m)\<lparr>maxfd := highest_below (events (cleared L fd m)) (nat fd)\<rparr>
      else cleared L fd m)"

lemma cleared_fields [simp]:
  "maxfd (cleared L fd m) = maxfd L" "setsize (cleared L fd m) = setsize L"
  "fired (cleared L fd m) = fired L" "length (events (cleared L fd m)) = length (events L)"
  by (simp_all add: cleared_def)

lemma evmask_cleared:
  assumes "length (events L) = nat (setsize L)" and "0 \<le> fd" "fd < setsize L"
  shows "evmask (cleared L fd m) = (evmask L)(fd := evmask L fd AND NOT m)"
  using evmask_set [OF assms] by (simp add: cleared_def)

lemma evmask_without:
  assumes "length (events L) = nat (setsize L)" and "0 \<le> fd" "fd < setsize L"
  shows "evmask (without_event L fd m) = (evmask L)(fd := evmask L fd AND NOT m)"
  unfolding without_event_def if_distrib [of evmask] evmask_simps evmask_cleared [OF assms] by (rule if_cancel)

lemma table_ok_without_event:
  assumes ok: "table_ok L I" and fd: "evmask L fd \<noteq> AE_NONE"
  shows "table_ok (without_event L fd m) (I(fd := watch (evmask L fd AND NOT m)))"
proof -
  let ?M = "cleared L fd m"
  have range: "0 \<le> fd" "fd < setsize L" using fd by (auto simp: evmask_def split: if_splits)
  have len: "length (events L) = nat (setsize L)" and h: "is_highest L (maxfd L)"
    using ok by (simp_all add: table_ok_def)
  note ev = evmask_without [OF len range, of m]
  note evM = evmask_cleared [OF len range, of m]
  have "is_highest (without_event L fd m) (maxfd (without_event L fd m))"
  proof (cases "fd = maxfd L \<and> evmask L fd AND NOT m = AE_NONE")
    case True
    have "is_highest ?M (highest_below (events ?M) (nat fd))"
    proof (rule is_highest_below)
      show "0 \<le> setsize ?M" using range by simp
      show "x < fd" if "evmask ?M x \<noteq> AE_NONE" for x
        using that h True unfolding evM by (auto simp: is_highest_def split: if_splits)
    qed (use len range in auto)
    moreover have "maxfd (without_event L fd m) = highest_below (events ?M) (nat fd)"
      unfolding without_event_def if_P [OF True] by simp
    ultimately show ?thesis
      using is_highest_cong [of "without_event L fd m" ?M] ev evM by simp
  next
    case False
    then have "maxfd (without_event L fd m) = maxfd L" by (auto simp: without_event_def)
    with False h fd show ?thesis unfolding is_highest_def ev by auto
  qed
  then show ?thesis
    using ok unfolding table_ok_def ev
    by (simp add: without_event_def)
qed

lemma wp_aeDeleteFileEvent:
  assumes L: "el s = Some L" "table_ok L (interest s)" and fd: "0 \<le> fd"
    and all: "evmask L fd AND NOT m = AE_NONE" and opened: "evmask L fd \<noteq> AE_NONE \<Longrightarrow> fd \<in> set (fds s)"
    and none: "evmask L fd = AE_NONE \<Longrightarrow> Q () s"
    and some: "evmask L fd \<noteq> AE_NONE \<Longrightarrow>
      Q () (s\<lparr>interest := (interest s)(fd := None), el := Some (without_event L fd m)\<rparr>)"
  shows "wp (aeDeleteFileEvent fd m) Q E s"
proof (cases "evmask L fd = AE_NONE")
  case True
  with fd L none show ?thesis
    by (auto simp: aeDeleteFileEvent_def wp_get_loop wp_event_at [OF L] evmask_def)
next
  case False
  then have range: "fd < setsize L" by (auto simp: evmask_def split: if_splits)
  obtain e where I: "interest s fd = Some e" using L(2) False by (auto simp: table_ok_def watch_def)
  have ev: "fe_mask (events L ! nat fd) = evmask L fd" using range fd by (simp add: evmask_def)
  have len: "nat fd < length (events L)" using range fd L(2) by (simp add: table_ok_def)
  have without: "without_event L fd m =
      (if fd = maxfd L
       then (cleared L fd m)\<lparr>maxfd := highest_below (events (cleared L fd m)) (nat (maxfd L))\<rparr>
       else cleared L fd m)"
    using all by (simp add: without_event_def)
  from some [OF False] all opened [OF False] False range fd L I len ev show ?thesis
    unfolding without
    by (cases "fd = maxfd L") (simp_all add: aeDeleteFileEvent_def aeApiDelEvent_def sys_epoll_ctl_def wp_get_loop
        wp_event_at [OF L] wp_kernel wp_upd_event wp_upd_loop Let_def cleared_def)
qed

text \<open>Deleting all the events of a descriptor, registered or not.\<close>

definition dropped :: "aeEventLoop \<Rightarrow> int \<Rightarrow> mask \<Rightarrow> aeEventLoop" where
  "dropped L fd m = (if evmask L fd = AE_NONE then L else without_event L fd m)"

definition bare_loop :: "aeEventLoop \<Rightarrow> aeEventLoop" where
  "bare_loop L = L\<lparr>events := [], maxfd := -1\<rparr>"

lemma bare_dropped [simp]: "bare_loop (dropped L fd m) = bare_loop L"
  by (simp add: bare_loop_def dropped_def without_event_def cleared_def)

lemma bare_with_event [simp]: "bare_loop (with_event L fd m p cd) = bare_loop L"
  by (simp add: bare_loop_def with_event_def)

lemma dropped_ok:
  assumes ok: "table_ok L I" and all: "evmask L fd AND NOT m = AE_NONE"
  shows "table_ok (dropped L fd m) (I(fd := None))"
    and "evmask (dropped L fd m) = (evmask L)(fd := AE_NONE)"
    and "x \<noteq> fd \<Longrightarrow> evmask L x \<noteq> AE_NONE \<Longrightarrow> events (dropped L fd m) ! nat x = events L ! nat x"
proof -
  have len: "length (events L) = nat (setsize L)" using ok by (simp add: table_ok_def)
  have none: "I(fd := None) = I" if "evmask L fd = AE_NONE"
    using ok that by (intro fun_upd_idem) (simp add: table_ok_def watch_def)
  show "table_ok (dropped L fd m) (I(fd := None))"
    using ok none table_ok_without_event [OF ok, of fd m] all by (simp add: dropped_def watch_def)
  show "evmask (dropped L fd m) = (evmask L)(fd := AE_NONE)"
  proof (cases "evmask L fd = AE_NONE")
    case False
    then have "0 \<le> fd" "fd < setsize L" by (auto simp: evmask_def split: if_splits)
    from evmask_without [OF len this, of m] all False show ?thesis by (simp add: dropped_def)
  qed (auto simp: dropped_def)
  show "events (dropped L fd m) ! nat x = events L ! nat x" if "x \<noteq> fd" "evmask L x \<noteq> AE_NONE"
  proof -
    have "0 \<le> x" using that(2) by (auto simp: evmask_def split: if_splits)
    moreover have "0 \<le> fd" if "evmask L fd \<noteq> AE_NONE" using that by (auto simp: evmask_def split: if_splits)
    ultimately show ?thesis
      using that(1) by (auto simp: dropped_def without_event_def cleared_def)
  qed
qed

lemma wp_delete_all:
  assumes L: "el s = Some L" "table_ok L (interest s)" and fd: "0 \<le> fd" "fd \<in> set (fds s)"
    and all: "evmask L fd AND NOT m = AE_NONE"
    and Q: "Q () (s\<lparr>interest := (interest s)(fd := None), el := Some (dropped L fd m)\<rparr>)"
  shows "wp (aeDeleteFileEvent fd m) Q E s"
proof (rule wp_aeDeleteFileEvent [OF L fd(1) all fd(2)])
  assume none: "evmask L fd = AE_NONE"
  then have "(interest s)(fd := None) = interest s"
    using L(2) by (intro fun_upd_idem) (simp add: table_ok_def watch_def)
  then have "s\<lparr>interest := (interest s)(fd := None), el := Some (dropped L fd m)\<rparr> = s"
    using L(1) none by (simp add: dropped_def)
  with Q show "Q () s" by simp
qed (use Q in \<open>simp add: dropped_def\<close>)

end
