(* ===== verification/LinkInv.thy ===== *)
theory LinkInv
  imports Registry SerialLinks AeFiles
begin

text \<open>
  The invariant of the running daemon: the node registry, the links of its nodes, the open
  descriptors and the event table agree. \<open>daemon_ok B ms vs s\<close>: \<open>ms\<close> are the masters and \<open>vs\<close> their
  virtual nodes, and every open descriptor is one of \<open>B\<close> (those that are not the links' business)
  or belongs to exactly one link.
\<close>

section \<open>Nodes up to their links\<close>

definition unlinked :: "serialNode \<Rightarrow> serialNode" where
  "unlinked n = n\<lparr>node_link := None\<rparr>"

definition relinked :: "(nat \<Rightarrow> serialNode option) \<Rightarrow> (nat \<Rightarrow> serialNode option) \<Rightarrow> bool" where
  "relinked N N' \<longleftrightarrow> (\<forall>a. map_option unlinked (N' a) = map_option unlinked (N a))"

lemma unlinked_upd [simp]: "unlinked (n\<lparr>node_link := p\<rparr>) = unlinked n"
  by (simp add: unlinked_def)

lemma unlinked_eqD:
  assumes "unlinked n' = unlinked n"
  shows "node_name n' = node_name n" "node_flags n' = node_flags n" "virtual_head n' = virtual_head n"
    "virtualof n' = virtualof n" "baudrate n' = baudrate n" "node_next n' = node_next n"
  using assms by (cases n; cases n'; simp add: unlinked_def)+

lemma relinked_refl [simp, intro]: "relinked N N"
  by (simp add: relinked_def)

lemma relinked_trans: "relinked N M \<Longrightarrow> relinked M P \<Longrightarrow> relinked N P"
  by (simp add: relinked_def)

lemma relinked_upd [simp]: "N a = Some n \<Longrightarrow> relinked N (N(a \<mapsto> n\<lparr>node_link := p\<rparr>))"
  by (simp add: relinked_def)

lemma relinked_Some:
  assumes "relinked N N'" and "N a = Some n"
  obtains n' where "N' a = Some n'" "unlinked n' = unlinked n"
  using assms unfolding relinked_def by (metis map_option_eq_Some)

lemma relinked_Some':
  assumes "relinked N N'" and "N' a = Some n'"
  obtains n where "N a = Some n" "unlinked n' = unlinked n"
  using assms unfolding relinked_def by (metis map_option_eq_Some)

lemma relinked_shape:
  assumes "relinked N N'"
  shows "same_shape N N'"
proof -
  have "map_option shape (N' a) = map_option shape (N a)" for a
  proof (cases "N a")
    case None
    then have "N' a = None" using assms unfolding relinked_def by (metis map_option_is_None)
    with None show ?thesis by simp
  next
    case (Some n)
    obtain n' where "N' a = Some n'" "unlinked n' = unlinked n" using assms Some by (rule relinked_Some)
    with Some unlinked_eqD [of n' n] show ?thesis
      by (simp add: shape_def nodeIsMaster_def nodeIsVirtual_def)
  qed
  then show ?thesis by (simp add: same_shape_def)
qed

section \<open>The events a node asks for\<close>

definition ev_flags :: "(nat \<Rightarrow> serialNode option) \<Rightarrow> (nat \<Rightarrow> nat list) \<Rightarrow> nat \<Rightarrow> mask" where
  "ev_flags N vs a =
     (if nodeIsMaster (the (N a)) then
        (if \<exists>v\<in>set (vs a). writes N v then AE_READABLE OR AE_WRITABLE else AE_READABLE)
      else if writes N a then AE_WRITABLE OR AE_READABLE else AE_WRITABLE)"

lemma relinked_flags:
  assumes "relinked N N'"
  shows "ev_flags N' vs = ev_flags N vs"
proof -
  have "nodeIsMaster (the (N' a)) = nodeIsMaster (the (N a)) \<and> writes N' a = writes N a" for a
  proof (cases "N a")
    case None
    then have "N' a = None" using assms unfolding relinked_def by (metis map_option_is_None)
    with None show ?thesis by (simp add: writes_def)
  next
    case (Some n)
    obtain n' where "N' a = Some n'" "unlinked n' = unlinked n" using assms Some by (rule relinked_Some)
    with Some unlinked_eqD [of n' n] show ?thesis
      by (simp add: writes_def nodeIsMaster_def nodeIsWriter_def)
  qed
  then show ?thesis by (simp add: ev_flags_def fun_eq_iff)
qed

lemma ev_flags_mask: "ev_flags N vs a \<noteq> AE_NONE"
  by (simp add: ev_flags_def)

lemma wp_serialEventFlags:
  assumes reg: "reg_state s ms vs" and n: "nodes s a = Some n"
  shows "wp (serialEventFlags (Some a)) Q E s = Q (ev_flags (nodes s) vs a) s"
  using reg n
proof (cases rule: reg_ok_cases)
  case master
  have "find (writes (nodes s)) (vs a) = None \<longleftrightarrow> \<not> (\<exists>v\<in>set (vs a). writes (nodes s) v)"
    by (auto simp: find_None_iff)
  with master n show ?thesis
    by (cases "find (writes (nodes s)) (vs a)") (simp_all add: serialEventFlags_def wp_get_node wp_serialGetVirtualWriterNode [OF reg] ev_flags_def)
next
  case (virtual m)
  with n show ?thesis
    by (simp add: serialEventFlags_def wp_get_node ev_flags_def writes_def)
qed

section \<open>The invariant\<close>

definition fds_of :: "serialLink \<Rightarrow> int set" where
  "fds_of lk = insert (link_fd lk) (if link_sfd lk = -1 then {} else {link_sfd lk})"

definition link_fds :: "(nat \<Rightarrow> serialLink option) \<Rightarrow> int set" where
  "link_fds K = (\<Union>lk\<in>ran K. fds_of lk)"

definition buf_ok :: "serialLink \<Rightarrow> bool" where
  "buf_ok lk \<longleftrightarrow> 0 \<le> recvbuflen lk \<and> nat (recvbuflen lk) \<le> length (recvbuf lk) \<and> length (recvbuf lk) \<le> BUFSIZ"

definition link_ok :: "(nat \<Rightarrow> serialNode option) \<Rightarrow> nat \<Rightarrow> serialLink \<Rightarrow> bool" where
  "link_ok N a lk \<longleftrightarrow>
     0 \<le> link_fd lk \<and> -1 \<le> link_sfd lk \<and> link_fd lk \<noteq> link_sfd lk \<and> buf_ok lk
     \<and> (\<exists>n k. link_node lk = Some n \<and> N n = Some k \<and> node_link k = Some a)"

text \<open>The event registered for a descriptor is the one of the link that owns it.\<close>

definition event_ok :: "(nat \<Rightarrow> mask) \<Rightarrow> (nat \<Rightarrow> serialLink option) \<Rightarrow> int \<Rightarrow> aeFileEvent \<Rightarrow> bool" where
  "event_ok flags K fd fe \<longleftrightarrow>
     (\<exists>a lk. fe_clientData fe = Some a \<and> K a = Some lk \<and> link_fd lk = fd
        \<and> fe_mask fe = flags (the (link_node lk))
        \<and> (fe_mask fe AND AE_READABLE \<noteq> 0 \<longrightarrow> rfileProc fe = Some serialEventHandler_fp)
        \<and> (fe_mask fe AND AE_WRITABLE \<noteq> 0 \<longrightarrow> wfileProc fe = Some serialEventHandler_fp))"

definition links_ok ::
    "int set \<Rightarrow> (nat \<Rightarrow> serialNode option) \<Rightarrow> (nat \<Rightarrow> mask) \<Rightarrow> (nat \<Rightarrow> serialLink option) \<Rightarrow> nat
     \<Rightarrow> int list \<Rightarrow> aeEventLoop \<Rightarrow> bool" where
  "links_ok B N flags K brk F L \<longleftrightarrow>
     distinct F \<and> set F = B \<union> link_fds K \<and> B \<inter> link_fds K = {} \<and> dom K \<subseteq> {..<brk}
     \<and> (\<forall>a lk. K a = Some lk \<longrightarrow> link_ok N a lk)
     \<and> (\<forall>a b lk lk'. K a = Some lk \<longrightarrow> K b = Some lk' \<longrightarrow> a \<noteq> b \<longrightarrow> fds_of lk \<inter> fds_of lk' = {})
     \<and> (\<forall>n k a. N n = Some k \<longrightarrow> node_link k = Some a \<longrightarrow>
          (\<exists>lk. K a = Some lk \<and> link_node lk = Some n))
     \<and> (\<forall>fd. evmask L fd \<noteq> AE_NONE \<longrightarrow> event_ok flags K fd (events L ! nat fd))"

lemma links_ok_link:
  assumes "links_ok B N flags K brk F L" and "K a = Some lk"
  obtains n k where "link_node lk = Some n" "N n = Some k" "node_link k = Some a"
    "0 \<le> link_fd lk" "-1 \<le> link_sfd lk" "link_fd lk \<noteq> link_sfd lk" "buf_ok lk"
proof -
  from assms have "link_ok N a lk" by (simp add: links_ok_def)
  with that show thesis by (auto simp: link_ok_def)
qed

lemma links_ok_node:
  assumes "links_ok B N flags K brk F L" and "N n = Some k" and "node_link k = Some a"
  obtains lk where "K a = Some lk" "link_node lk = Some n"
  using assms unfolding links_ok_def by blast

lemma links_ok_fds:
  assumes "links_ok B N flags K brk F L"
  shows "distinct F" "set F = B \<union> link_fds K" "B \<inter> link_fds K = {}" "dom K \<subseteq> {..<brk}"
    and "K a = Some lk \<Longrightarrow> K b = Some lk' \<Longrightarrow> a \<noteq> b \<Longrightarrow> fds_of lk \<inter> fds_of lk' = {}"
  using assms unfolding links_ok_def by blast+

lemma links_ok_event:
  "links_ok B N flags K brk F L \<Longrightarrow> evmask L fd \<noteq> AE_NONE \<Longrightarrow> event_ok flags K fd (events L ! nat fd)"
  by (simp add: links_ok_def)

definition daemon_ok :: "int set \<Rightarrow> nat list \<Rightarrow> (nat \<Rightarrow> nat list) \<Rightarrow> world \<Rightarrow> bool" where
  "daemon_ok B ms vs s \<longleftrightarrow> reg_state s ms vs \<and> logfile s \<noteq> None \<and>
     (\<exists>L. el s = Some L \<and> table_ok L (interest s) \<and>
        links_ok B (nodes s) (ev_flags (nodes s) vs) (links s) (link_brk s) (fds s) L)"

lemma wf_quiet: "quiet s t \<Longrightarrow> daemon_ok B ms vs t = daemon_ok B ms vs s"
  by (simp add: daemon_ok_def quiet_world)

lemma wf_loop:
  assumes "daemon_ok B ms vs s"
  obtains L where "el s = Some L" "table_ok L (interest s)"
    "links_ok B (nodes s) (ev_flags (nodes s) vs) (links s) (link_brk s) (fds s) L"
  using assms by (auto simp: daemon_ok_def)

lemma links_ok_watched:
  assumes "links_ok B N flags K brk F L" and "evmask L fd \<noteq> AE_NONE"
  shows "fd \<in> set F" and "fd \<notin> B"
proof -
  from assms have "event_ok flags K fd (events L ! nat fd)" by (simp add: links_ok_def)
  then have "fd \<in> link_fds K" by (auto simp: event_ok_def link_fds_def fds_of_def ran_def)
  with assms(1) show "fd \<in> set F" "fd \<notin> B" by (auto simp: links_ok_def)
qed

lemma daemon_ok_masters: "daemon_ok B ms vs s \<Longrightarrow> set ms \<subseteq> dom (nodes s)"
  by (auto simp: daemon_ok_def reg_ok_def)

lemma wf_log_ok:
  assumes "daemon_ok B ms vs s"
  shows "log_ok s"
proof -
  obtain L where L: "table_ok L (interest s)"
    "links_ok B (nodes s) (ev_flags (nodes s) vs) (links s) (link_brk s) (fds s) L"
    using assms by (rule wf_loop)
  have "interest s fd = None" if "fd \<notin> set (fds s)" for fd
    using L(1) links_ok_watched(1) [OF L(2), of fd] that by (auto simp: table_ok_def watch_def)
  then show ?thesis using assms by (simp add: log_ok_def daemon_ok_def)
qed

lemma wf_link:
  assumes "daemon_ok B ms vs s" and "links s a = Some lk"
  obtains n k where "link_node lk = Some n" "nodes s n = Some k" "node_link k = Some a"
    "0 \<le> link_fd lk" "-1 \<le> link_sfd lk" "link_fd lk \<noteq> link_sfd lk" "buf_ok lk"
    "fds_of lk \<subseteq> set (fds s)"
proof -
  obtain L where L: "links_ok B (nodes s) (ev_flags (nodes s) vs) (links s) (link_brk s) (fds s) L"
    using assms(1) by (rule wf_loop)
  then have "link_ok (nodes s) a lk" "fds_of lk \<subseteq> set (fds s)"
    using assms(2) by (auto simp: links_ok_def link_fds_def ran_def)
  with that show thesis by (auto simp: link_ok_def)
qed

lemma wf_node_link:
  assumes "daemon_ok B ms vs s" and "nodes s n = Some k" and "node_link k = Some a"
  obtains lk where "links s a = Some lk" "link_node lk = Some n"
proof -
  obtain L where "links_ok B (nodes s) (ev_flags (nodes s) vs) (links s) (link_brk s) (fds s) L"
    using assms(1) by (rule wf_loop)
  from this assms(2,3) show thesis by (rule links_ok_node) (rule that)
qed

section \<open>Closing a link keeps the invariant\<close>

lemma link_fds_remove:
  assumes "\<And>a b lk lk'. K a = Some lk \<Longrightarrow> K b = Some lk' \<Longrightarrow> a \<noteq> b \<Longrightarrow> fds_of lk \<inter> fds_of lk' = {}"
    and "K a = Some lk"
  shows "link_fds (K(a := None)) = link_fds K - fds_of lk"
proof -
  have "x \<in> ran K \<longleftrightarrow> x = lk \<or> x \<in> ran (K(a := None))" for x
    using assms(2) by (auto simp: ran_def) (metis option.inject)
  then have "ran K = insert lk (ran (K(a := None)))" by blast
  moreover have "fds_of lk' \<inter> fds_of lk = {}" if "lk' \<in> ran (K(a := None))" for lk'
    using that assms(1) [OF _ assms(2)] by (fastforce simp: ran_def split: if_splits)
  ultimately show ?thesis by (auto simp: link_fds_def)
qed

lemma links_ok_remove:
  assumes ok: "links_ok B N flags K brk F L" and a: "K a = Some lk" "link_node lk = Some n" "N n = Some k"
    and L': "evmask L' = (evmask L)(link_fd lk := AE_NONE)"
      "\<And>fd. fd \<noteq> link_fd lk \<Longrightarrow> evmask L fd \<noteq> AE_NONE \<Longrightarrow> events L' ! nat fd = events L ! nat fd"
    and F': "distinct F'" "set F' = set F - fds_of lk"
  shows "links_ok B (N(n \<mapsto> k\<lparr>node_link := None\<rparr>)) flags (K(a := None)) brk F' L'"
proof -
  have disj: "fds_of lk \<inter> fds_of lk' = {}" if "K b = Some lk'" "a \<noteq> b" for b lk'
    using ok a(1) that by (rule links_ok_fds(5))
  have rm: "link_fds (K(a := None)) = link_fds K - fds_of lk"
    by (rule link_fds_remove [where a = a]) (rule links_ok_fds(5) [OF ok], assumption+, rule a(1))
  have owner: "b = a" if b: "K b = Some lk'" "link_node lk' = Some n" for b lk'
    using links_ok_link [OF ok a(1)] links_ok_link [OF ok b(1)] a(2,3) b(2) by (metis option.inject)
  have "link_ok (N(n \<mapsto> k\<lparr>node_link := None\<rparr>)) b lk'" if "(K(a := None)) b = Some lk'" for b lk'
  proof -
    from that have b: "K b = Some lk'" "b \<noteq> a" by (auto split: if_splits)
    then have "link_ok N b lk'" using ok by (simp add: links_ok_def)
    moreover have "link_node lk' \<noteq> Some n" using owner b by blast
    ultimately show ?thesis by (auto simp: link_ok_def)
  qed
  moreover have "event_ok flags (K(a := None)) fd (events L' ! nat fd)" if "evmask L' fd \<noteq> AE_NONE" for fd
  proof -
    from that have fd: "fd \<noteq> link_fd lk" "evmask L fd \<noteq> AE_NONE" unfolding L' by (auto split: if_splits)
    have "event_ok flags K fd (events L ! nat fd)" using ok fd(2) by (rule links_ok_event)
    then have "event_ok flags (K(a := None)) fd (events L ! nat fd)"
      unfolding event_ok_def using fd(1) a(1) by (metis fun_upd_other option.inject)
    with L'(2) [OF fd] show ?thesis by simp
  qed
  moreover have "\<exists>lk'. (K(a := None)) b = Some lk' \<and> link_node lk' = Some m"
    if j: "(N(n \<mapsto> k\<lparr>node_link := None\<rparr>)) m = Some j" "node_link j = Some b" for m j b
  proof -
    from j have m: "m \<noteq> n" "N m = Some j" by (auto split: if_splits)
    obtain lk' where "K b = Some lk'" "link_node lk' = Some m"
      using ok m(2) j(2) by (rule links_ok_node)
    with m a show ?thesis by auto
  qed
  moreover have "dom (K(a := None)) \<subseteq> {..<brk}" using links_ok_fds(4) [OF ok] by auto
  moreover have "fds_of x \<inter> fds_of y = {}"
    if "(K(a := None)) b = Some x" "(K(a := None)) c = Some y" "b \<noteq> c" for b c x y
    using that links_ok_fds(5) [OF ok] by (auto split: if_splits)
  moreover have "fds_of lk \<subseteq> link_fds K" using a(1) by (auto simp: link_fds_def ran_def)
  then have "set F' = B \<union> link_fds (K(a := None))" "B \<inter> link_fds (K(a := None)) = {}"
    using links_ok_fds(2,3) [OF ok] F' rm by auto
  ultimately show ?thesis
    using F'(1) unfolding links_ok_def by blast
qed

text \<open>The descriptors that are left once a link is gone.\<close>

lemma daemon_ok_fds_removed:
  assumes s: "daemon_ok B ms vs s" "links s a = Some lk" and t: "daemon_ok B ms vs t" "links t = (links s)(a := None)"
  shows "set (fds t) = set (fds s) - fds_of lk"
proof -
  obtain L M where ok: "links_ok B (nodes s) (ev_flags (nodes s) vs) (links s) (link_brk s) (fds s) L"
    "links_ok B (nodes t) (ev_flags (nodes t) vs) (links t) (link_brk t) (fds t) M"
    using s(1) t(1) by (auto simp: daemon_ok_def)
  have "link_fds (links t) = link_fds (links s) - fds_of lk"
    unfolding t(2) by (rule link_fds_remove) (rule links_ok_fds(5) [OF ok(1)], assumption+, rule s(2))
  moreover have "fds_of lk \<subseteq> link_fds (links s)" using s(2) by (auto simp: link_fds_def ran_def)
  ultimately show ?thesis
    using links_ok_fds(2,3) [OF ok(1)] links_ok_fds(2) [OF ok(2)] by auto
qed

section \<open>The daemon before any link is open\<close>

lemma daemon_ok_unlinked:
  assumes "reg_state s ms vs" and "logfile s \<noteq> None" and "distinct (fds s)" and "el s = Some L"
    and "table_ok L (interest s)" and "evmask L = (\<lambda>_. AE_NONE)"
    and "links s = (\<lambda>_. None)" and "linkof (nodes s) = (\<lambda>_. None)"
  shows "daemon_ok (set (fds s)) ms vs s"
proof -
  have "node_link k = None" if "nodes s n = Some k" for n k
    using fun_cong [OF assms(8), of n] that by (simp add: linkof_def)
  with assms show ?thesis by (auto simp: daemon_ok_def links_ok_def link_fds_def)
qed

end
