(* ===== verification/LinkOps.thy ===== *)
theory LinkOps
  imports LinkInv
begin

text \<open>
  Opening and closing the link of a node (\<open>src/serial.c\<close>): both keep the invariant, and a failed
  attempt to open leaves no descriptor behind.
\<close>

section \<open>What link operations leave alone\<close>

definition without_links :: "world \<Rightarrow> world" where
  "without_links s = s\<lparr>nodes := (\<lambda>_. None), links := (\<lambda>_. None), link_brk := 0, fds := [],
     interest := (\<lambda>_. None), trace := [], el := map_option bare_loop (el s)\<rparr>"

text \<open>Only links and descriptors differ, and the bytes \<open>w\<close> were written.\<close>

definition link_frame :: "(int \<times> string) list \<Rightarrow> world \<Rightarrow> world \<Rightarrow> bool" where
  "link_frame w s t \<longleftrightarrow> relinked (nodes s) (nodes t) \<and> same_env (without_links s) (without_links t)
     \<and> wrote (trace t) = wrote (trace s) @ w"

lemma link_frame_refl [simp, intro]: "link_frame [] s s"
  by (simp add: link_frame_def)

lemma link_frame_trans: "link_frame w s t \<Longrightarrow> link_frame w' t u \<Longrightarrow> link_frame (w @ w') s u"
  unfolding link_frame_def by (auto intro: relinked_trans same_env_trans)

lemma link_frame_trans0:
  "link_frame [] s t \<Longrightarrow> link_frame w t u \<Longrightarrow> link_frame w s u"
  "link_frame w s t \<Longrightarrow> link_frame [] t u \<Longrightarrow> link_frame w s u"
  using link_frame_trans by fastforce+

lemma same_env_without_links: "same_env s t \<Longrightarrow> same_env (without_links s) (without_links t)"
  by (cases s; cases t) (simp add: same_env_def without_links_def)

lemma same_env_frame: "same_env s t \<Longrightarrow> link_frame [] s t"
  by (simp add: link_frame_def same_env_without_links same_env_world)

lemmas quiet_link_frame = quiet_same_env [THEN same_env_frame]

lemma link_frame_world:
  assumes "link_frame w s t"
  shows "tevs t = tevs s" "tev_brk t = tev_brk s" "master_head t = master_head s"
    "node_brk t = node_brk s" "logfile t = logfile s" "verbosity t = verbosity s" "hz t = hz s"
    "reconnect_interval t = reconnect_interval s" "cronloops t = cronloops s"
    "shutdown t = shutdown s" "pidfile t = pidfile s" "daemonize t = daemonize s"
    "cron_event_id t = cron_event_id s" "syslog t = syslog s" "speeds t = speeds s"
    "map_option bare_loop (el t) = map_option bare_loop (el s)"
    "relinked (nodes s) (nodes t)" "wrote (trace t) = wrote (trace s) @ w" "answers t = answers s" "maxclients t = maxclients s"
  using assms same_env_world [of "without_links s" "without_links t"]
  by (simp_all add: link_frame_def without_links_def)

section \<open>Closing\<close>

lemma wp_serialFreeLink:
  assumes wf: "daemon_ok B ms vs s" and a: "links s a = Some lk"
    and Q: "\<And>t n k. link_node lk = Some n \<Longrightarrow> nodes s n = Some k \<Longrightarrow> daemon_ok B ms vs t \<Longrightarrow>
      link_frame [] s t \<Longrightarrow> links t = (links s)(a := None) \<Longrightarrow>
      nodes t = (nodes s)(n \<mapsto> k\<lparr>node_link := None\<rparr>) \<Longrightarrow> Q () t"
  shows "wp (serialFreeLink (Some a)) Q E s"
proof -
  have reg: "reg_state s ms vs" using wf by (simp add: daemon_ok_def)
  obtain L where L: "el s = Some L" "table_ok L (interest s)"
    and ok: "links_ok B (nodes s) (ev_flags (nodes s) vs) (links s) (link_brk s) (fds s) L"
    using wf by (rule wf_loop)
  obtain n k where n: "link_node lk = Some n" "nodes s n = Some k" "node_link k = Some a"
    and fd: "0 \<le> link_fd lk" "-1 \<le> link_sfd lk" "link_fd lk \<noteq> link_sfd lk"
    and sub: "fds_of lk \<subseteq> set (fds s)"
    using wf a by (rule wf_link)
  let ?fd = "link_fd lk" and ?sfd = "link_sfd lk" and ?m = "ev_flags (nodes s) vs n"
  let ?N = "(nodes s)(n \<mapsto> k\<lparr>node_link := None\<rparr>)" and ?L = "dropped L ?fd ?m"
  have unwatched: "evmask L ?sfd = AE_NONE"
  proof (rule ccontr)
    assume "evmask L ?sfd \<noteq> AE_NONE"
    then obtain b lk' where b: "links s b = Some lk'" "link_fd lk' = ?sfd"
      using links_ok_event [OF ok] unfolding event_ok_def by blast
    then have "?sfd \<noteq> -1" using wf_link [OF wf b(1)] by (metis (no_types) not_numeral_le_zero neg_numeral_le_zero linorder_not_le less_minus_one_simps(1))
    with b a fd links_ok_fds(5) [OF ok a b(1)] show False
      by (cases "a = b") (auto simp: fds_of_def)
  qed
  have all: "evmask L ?fd AND NOT ?m = AE_NONE"
  proof (cases "evmask L ?fd = AE_NONE")
    case False
    then obtain b lk' where b: "links s b = Some lk'" "link_fd lk' = ?fd"
      "fe_mask (events L ! nat ?fd) = ev_flags (nodes s) vs (the (link_node lk'))"
      using links_ok_event [OF ok] unfolding event_ok_def by blast
    then have "b = a" using links_ok_fds(5) [OF ok a b(1)] by (auto simp: fds_of_def)
    with b a n(1) False show ?thesis by (auto simp: evmask_def split: if_splits)
  qed simp
  note drop = dropped_ok [OF L(2) all]
  let ?F = "(if ?sfd = -1 then remove1 ?fd (fds s) else remove1 ?sfd (remove1 ?fd (fds s)))"
  have F: "distinct ?F" "set ?F = set (fds s) - fds_of lk"
    using links_ok_fds(1) [OF ok] by (auto simp: fds_of_def)
  have relinked: "relinked (nodes s) ?N" using n(2) by simp
  have ok': "links_ok B ?N (ev_flags ?N vs) ((links s)(a := None)) (link_brk s) ?F ?L"
    using links_ok_remove [OF ok a n(1,2) drop(2,3) F] relinked_flags [OF relinked] by simp
  have reg': "reg_ok ?N (master_head s) (node_brk s) ms vs"
    using reg_ok_shape [OF relinked_shape [OF relinked] reg] .
  have I: "((interest s)(?fd := None, ?sfd := None)) = (interest s)(?fd := None)"
    using unwatched L(2) by (auto simp: table_ok_def watch_def fun_eq_iff)
  have log: "logfile s \<noteq> None" using wf by (simp add: daemon_ok_def)
  have final: "Q () t"
    if t: "nodes t = ?N" "links t = (links s)(a := None)" "link_brk t = link_brk s" "fds t = ?F"
      "interest t = (interest s)(?fd := None)" "el t = Some ?L" "link_frame [] s t" for t
  proof (rule Q [OF n(1,2) _ t(7,2,1)])
    show "daemon_ok B ms vs t"
      using t reg' ok' drop(1) log by (simp add: daemon_ok_def link_frame_world [OF t(7)])
  qed
  have opened: "?fd \<in> set (fds s)" "?sfd \<noteq> -1 \<Longrightarrow> ?sfd \<in> set (fds s)"
    using sub by (auto simp: fds_of_def)
  have frame: "link_frame [] s (s\<lparr>el := Some ?L, nodes := ?N, fds := F, interest := I', trace := trace s @ tr,
      links := K\<rparr>)" if "wrote tr = []" for F I' tr K
    using that relinked L(1) by (simp add: link_frame_def without_links_def same_env_def)
  show ?thesis
  proof (cases "?sfd = -1")
    case True
    have "Q () (s\<lparr>el := Some ?L, nodes := ?N, fds := remove1 ?fd (fds s), interest := (interest s)(?fd := None),
        trace := trace s @ [Closed ?fd], links := (links s)(a := None)\<rparr>)"
      by (rule final) (simp_all add: True frame)
    with True opened fd(1) n show ?thesis
      unfolding serialFreeLink_def wp_bnd wp_get_link [OF a]
      by (simp add: wp_serialEventFlags [OF reg n(2)])
         (rule wp_delete_all [OF L], simp_all add: all wp_upd_node wp_sys_close)
  next
    case False
    have "Q () (s\<lparr>el := Some ?L, nodes := ?N, fds := remove1 ?sfd (remove1 ?fd (fds s)),
        interest := (interest s)(?fd := None), trace := trace s @ [Closed ?fd, Closed ?sfd],
        links := (links s)(a := None)\<rparr>)"
      by (rule final) (simp_all add: False frame)
    with False opened fd(1,3) n show ?thesis
      unfolding serialFreeLink_def wp_bnd wp_get_link [OF a]
      by (simp add: wp_serialEventFlags [OF reg n(2)])
         (rule wp_delete_all [OF L], simp_all add: all wp_upd_node wp_sys_close I)
  qed
qed

section \<open>Opening\<close>

text \<open>A link under construction: allocated, not yet known to its node, with its descriptors.\<close>

definition blank_link :: "int \<Rightarrow> int \<Rightarrow> ptr \<Rightarrow> serialLink" where
  "blank_link fd sfd np = \<lparr>link_fd = fd, link_sfd = sfd, recvbuf = [], recvbuflen = 0, link_node = np\<rparr>"

definition new_fds :: "int list \<Rightarrow> int \<Rightarrow> int \<Rightarrow> int list" where
  "new_fds F fd sfd = (if fd = -1 then F else if sfd = -1 then fd # F else sfd # fd # F)"

definition fresh_fds :: "int list \<Rightarrow> int \<Rightarrow> int \<Rightarrow> bool" where
  "fresh_fds F fd sfd \<longleftrightarrow> -1 \<le> fd \<and> -1 \<le> sfd
     \<and> (fd \<noteq> -1 \<longrightarrow> fd \<notin> set F) \<and> (sfd \<noteq> -1 \<longrightarrow> sfd \<notin> set F) \<and> (fd = sfd \<longrightarrow> fd = -1) \<and> (fd = -1 \<longrightarrow> sfd = -1)"

definition half_open :: "world \<Rightarrow> int \<Rightarrow> int \<Rightarrow> world \<Rightarrow> bool" where
  "half_open s fd sfd t \<longleftrightarrow>
     same_env (s\<lparr>links := (links s)(link_brk s \<mapsto> blank_link fd sfd None), link_brk := Suc (link_brk s)\<rparr>) t
     \<and> interest t = interest s \<and> fds t = new_fds (fds s) fd sfd \<and> fresh_fds (fds s) fd sfd"

lemma half_open_quiet: "half_open s fd sfd t \<Longrightarrow> quiet t u \<Longrightarrow> half_open s fd sfd u"
  by (auto simp: half_open_def quiet_def elim: same_env_trans)

lemma half_open_world:
  assumes "half_open s fd sfd t"
  shows "nodes t = nodes s" "links t = (links s)(link_brk s \<mapsto> blank_link fd sfd None)" "el t = el s"
    "link_brk t = Suc (link_brk s)" "node_brk t = node_brk s" "master_head t = master_head s"
    "logfile t = logfile s" "interest t = interest s" "fds t = new_fds (fds s) fd sfd"
    "speeds t = speeds s" "fresh_fds (fds s) fd sfd" "wrote (trace t) = wrote (trace s)"
  using assms same_env_world [of "s\<lparr>links := (links s)(link_brk s \<mapsto> blank_link fd sfd None),
      link_brk := Suc (link_brk s)\<rparr>" t]
  by (simp_all add: half_open_def)

lemma half_open_frame: "half_open s fd sfd t \<Longrightarrow> link_frame [] s t"
  by (cases s; cases t) (simp add: half_open_def link_frame_def without_links_def same_env_def)

lemma half_open_log_ok: "log_ok s \<Longrightarrow> half_open s fd sfd t \<Longrightarrow> log_ok t"
  by (auto simp: log_ok_def half_open_world new_fds_def)

lemma wp_sys_open:
  assumes "\<And>t. quiet s t \<Longrightarrow> Q (-1) t"
    and "\<And>t fd. same_env s t \<Longrightarrow> interest t = interest s \<Longrightarrow> fds t = fd # fds s \<Longrightarrow>
      fd \<notin> set (fds s) \<Longrightarrow> 0 \<le> fd \<Longrightarrow> Q fd t"
  shows "wp (sys_open path) Q E s"
proof -
  let ?fd = "lowest_fd (fds s)"
  have "quiet s (s\<lparr>calls := Suc (calls s), errno := e\<rparr>)" for e by (simp add: frame_defs)
  moreover have "same_env s (s\<lparr>calls := Suc (calls s), fds := ?fd # fds s,
      trace := trace s @ [Opened path ?fd]\<rparr>)" by (simp add: same_env_def)
  ultimately show ?thesis
    using assms lowest_fd_fresh [of "fds s"] by (simp add: sys_open_def wp_kernel)
qed

lemma wp_sys_openpty:
  assumes "\<And>t. quiet s t \<Longrightarrow> Q (-1, -1, -1) t"
    and "\<And>t fd sfd. same_env s t \<Longrightarrow> interest t = interest s \<Longrightarrow> fds t = sfd # fd # fds s \<Longrightarrow>
      fd \<notin> set (fds s) \<Longrightarrow> sfd \<notin> set (fds s) \<Longrightarrow> sfd \<noteq> fd \<Longrightarrow> 0 \<le> fd \<Longrightarrow> 0 \<le> sfd \<Longrightarrow> Q (0, fd, sfd) t"
  shows "wp sys_openpty Q E s"
proof -
  let ?fd = "lowest_fd (fds s)"
  let ?sfd = "lowest_fd (?fd # fds s)"
  have "quiet s (s\<lparr>calls := Suc (calls s), errno := e\<rparr>)" for e by (simp add: frame_defs)
  moreover have "same_env s (s\<lparr>calls := Suc (calls s), fds := ?sfd # ?fd # fds s,
      trace := trace s @ [PtyOpened ?fd ?sfd]\<rparr>)" by (simp add: same_env_def)
  ultimately show ?thesis
    using assms lowest_fd_fresh [of "fds s"] lowest_fd_fresh [of "?fd # fds s"]
    by (simp add: sys_openpty_def wp_kernel)
qed

lemma wp_half_open_log:
  assumes "log_ok s" and "half_open s fd sfd t" and "\<And>u. half_open s fd sfd u \<Longrightarrow> Q () u"
  shows "wp (serverLogErrno LL_ERROR msg) Q E t"
  by (rule wp_serverLogErrno) (use assms in \<open>auto intro: half_open_log_ok half_open_quiet\<close>)

lemma wp_half_open_quiet:
  assumes "half_open s fd sfd t" and "wp m (\<lambda>_ u. quiet t u) (\<lambda>_. False) t"
    and "\<And>x u. half_open s fd sfd u \<Longrightarrow> Q x u"
  shows "wp m Q E t"
  by (rule quiet_wp [OF assms(2)]) (blast intro: assms(3) half_open_quiet [OF assms(1)])

text \<open>Storing new descriptors in the link.\<close>

lemma half_open_store:
  assumes "half_open s (-1) (-1) t" and "same_env t u" "interest u = interest t"
    and "fds u = new_fds (fds s) fd sfd" and "fresh_fds (fds s) fd sfd"
  shows "half_open s fd sfd (u\<lparr>links := (links u)(link_brk s \<mapsto> blank_link fd sfd None)\<rparr>)"
  using assms by (cases s; cases t; cases u) (simp add: half_open_def same_env_def)

lemma half_open_link:
  "half_open s fd sfd t \<Longrightarrow> same_env t u \<Longrightarrow> links u (link_brk s) = Some (blank_link fd sfd None)"
  by (simp add: same_env_world half_open_world)

lemma wp_open_master:
  assumes o: "half_open s (-1) (-1) t" and log: "log_ok s"
    and Q: "\<And>u fd b. half_open s fd (-1) u \<Longrightarrow> (b \<longrightarrow> fd \<noteq> -1) \<Longrightarrow> Q b u"
  shows "wp (open_master (Some (link_brk s)) name) Q E t"
  unfolding open_master_def wp_bnd
proof (rule wp_sys_open)
  note link = half_open_link [OF o]
  have fds: "fds t = fds s" using o by (simp add: half_open_world new_fds_def)
  {
    fix u assume u: "quiet t u"
    let ?u = "u\<lparr>links := (links u)(link_brk s \<mapsto> blank_link (-1) (-1) None)\<rparr>"
    have "half_open s (-1) (-1) ?u"
      using half_open_store [OF o quiet_same_env [OF u], of "-1" "-1"] u fds
      by (simp add: quiet_world new_fds_def fresh_fds_def half_open_world [OF o])
    then have "wp (serverLogErrno LL_ERROR ''open'') (\<lambda>_. Q False) E ?u"
      by (rule wp_half_open_log [OF log]) (simp add: Q)
    then show "wp (thn (upd_link (Some (link_brk s)) (\<lambda>l. l\<lparr>link_fd := -1\<rparr>))
        (if -1 = (-1::int) then thn (serverLogErrno LL_ERROR ''open'') (ret False)
         else bnd (sys_isatty (-1)) (\<lambda>tty.
           if tty = -1 then thn (serverLogErrno LL_ERROR ''isatty'') (ret False) else ret True))) Q E u"
      using link [OF quiet_same_env [OF u]] by (simp add: wp_upd_link blank_link_def)
  next
    fix u fd
    assume u: "same_env t u" "interest u = interest t" "fds u = fd # fds t" "fd \<notin> set (fds t)" "0 \<le> fd"
    let ?u = "u\<lparr>links := (links u)(link_brk s \<mapsto> blank_link fd (-1) None)\<rparr>"
    have "half_open s fd (-1) ?u"
      using half_open_store [OF o u(1,2)] u fds by (simp add: new_fds_def fresh_fds_def)
    then have "wp (sys_isatty fd) (\<lambda>tty. wp (if tty = -1 then
        thn (serverLogErrno LL_ERROR ''isatty'') (ret False) else ret True) Q E) E ?u"
      by (rule wp_half_open_quiet [OF _ quiet_isatty])
         (use u(5) log in \<open>auto intro: Q wp_half_open_log\<close>)
    then show "wp (thn (upd_link (Some (link_brk s)) (\<lambda>l. l\<lparr>link_fd := fd\<rparr>))
        (if fd = -1 then thn (serverLogErrno LL_ERROR ''open'') (ret False)
         else bnd (sys_isatty fd) (\<lambda>tty.
           if tty = -1 then thn (serverLogErrno LL_ERROR ''isatty'') (ret False) else ret True))) Q E u"
      using link [OF u(1)] u(5) by (simp add: wp_upd_link blank_link_def)
  }
qed

lemma wp_open_virtual:
  assumes o: "half_open s (-1) (-1) t" and log: "log_ok s"
    and Q: "\<And>u fd sfd b. half_open s fd sfd u \<Longrightarrow> (b \<longrightarrow> fd \<noteq> -1) \<Longrightarrow> Q b u"
  shows "wp (open_virtual (Some (link_brk s)) name) Q E t"
  unfolding open_virtual_def wp_bnd
proof (rule wp_sys_openpty)
  have fds: "fds t = fds s" using o by (simp add: half_open_world new_fds_def)
  fix u assume u: "quiet t u"
  have "half_open s (-1) (-1) u" using o u by (rule half_open_quiet)
  then have "wp (serverLogErrno LL_ERROR ''openpty'') (\<lambda>_. Q False) E u"
    by (rule wp_half_open_log [OF log]) (simp add: Q)
  then show "wp (case (-1, -1, -1) of (r, fd, sfd) \<Rightarrow>
      if r = (-1::int) then thn (serverLogErrno LL_ERROR ''openpty'') (ret False)
      else thn (upd_link (Some (link_brk s)) (\<lambda>l. l\<lparr>link_fd := fd, link_sfd := sfd\<rparr>))
        (thn (sys_remove name)
          (bnd (sys_ttyname sfd) (\<lambda>tty. bnd (sys_symlink tty name) (\<lambda>r.
             if r = -1 then thn (serverLogErrno LL_ERROR ''symlink'') (ret False) else ret True))))) Q E u"
    by simp
next
  have fds: "fds t = fds s" using o by (simp add: half_open_world new_fds_def)
  fix u fd sfd
  assume u: "same_env t u" "interest u = interest t" "fds u = sfd # fd # fds t" "fd \<notin> set (fds t)"
    "sfd \<notin> set (fds t)" "sfd \<noteq> fd" "0 \<le> fd" "0 \<le> sfd"
  let ?u = "u\<lparr>links := (links u)(link_brk s \<mapsto> blank_link fd sfd None)\<rparr>"
  have "half_open s fd sfd ?u"
    using half_open_store [OF o u(1,2)] u fds by (simp add: new_fds_def fresh_fds_def)
  then have "wp (sys_remove name) (\<lambda>_. wp (sys_ttyname sfd) (\<lambda>tty. wp (sys_symlink tty name) (\<lambda>r.
      wp (if r = -1 then thn (serverLogErrno LL_ERROR ''symlink'') (ret False) else ret True) Q E) E) E) E ?u"
    by (rule wp_half_open_quiet [OF _ quiet_remove], elim wp_half_open_quiet [OF _ quiet_ttyname]
        wp_half_open_quiet [OF _ quiet_symlink])
       (use u(7) log in \<open>auto intro: Q wp_half_open_log\<close>)
  then show "wp (case (0, fd, sfd) of (r, fd, sfd) \<Rightarrow>
      if r = (-1::int) then thn (serverLogErrno LL_ERROR ''openpty'') (ret False)
      else thn (upd_link (Some (link_brk s)) (\<lambda>l. l\<lparr>link_fd := fd, link_sfd := sfd\<rparr>))
        (thn (sys_remove name)
          (bnd (sys_ttyname sfd) (\<lambda>tty. bnd (sys_symlink tty name) (\<lambda>r.
             if r = -1 then thn (serverLogErrno LL_ERROR ''symlink'') (ret False) else ret True))))) Q E u"
    using half_open_link [OF o u(1)] by (simp add: wp_upd_link blank_link_def wp_bnd_fun)
qed

text \<open>
  Terminal settings. A rate above zero cannot divide by zero and is not the \<open>-1\<close> whose quotient
  would overflow.
\<close>

lemma wp_select_baud:
  assumes o: "half_open s fd sfd t" and log: "log_ok s"
    and E: "rate \<le> 0 \<Longrightarrow> E DivByZero \<and> E IntOverflow"
    and Q: "\<And>x u. half_open s fd sfd u \<Longrightarrow> Q x u"
  shows "wp (select_baud f rate) Q E t"
proof -
  have "wp (sys_tiocsserial f ser) (\<lambda>r. wp (if r = -1 then thn (serverLogErrno LL_ERROR ''ioctl'') (ret None)
      else ret (Some None)) Q E) E u" if "half_open s fd sfd u" for ser u
    using that by (rule wp_half_open_quiet [OF _ quiet_tiocsserial])
      (use log in \<open>auto intro: Q wp_half_open_log\<close>)
  then have "wp (sys_tiocgserial f) (\<lambda>(r, ser). wp
      (if r = -1 then ret None else if rate = 0 then stop_with DivByZero
       else if baud_base ser = INT_MIN \<and> rate = -1 then stop_with IntOverflow
       else bnd (sys_tiocsserial f
                  (ser\<lparr>custom_divisor := c_div (baud_base ser) rate,
                       ser_flags := (ser_flags ser AND NOT ASYNC_SPD_MASK) OR ASYNC_SPD_CUST\<rparr>))
             (\<lambda>r. if r = -1 then thn (serverLogErrno LL_ERROR ''ioctl'') (ret None)
                   else ret (Some None))) Q E) E t"
    using E Q by (intro wp_half_open_quiet [OF o quiet_tiocgserial]) (auto split: prod.splits)
  with Q [OF o] show ?thesis by (simp add: select_baud_def split_def)
qed

lemma wp_configure_tty:
  assumes o: "half_open s fd sfd t" and log: "log_ok s"
    and E: "nodeIsMaster node \<Longrightarrow> baudrate node \<le> 0 \<Longrightarrow> E DivByZero \<and> E IntOverflow"
    and Q: "\<And>b u. half_open s fd sfd u \<Longrightarrow> Q b u"
  shows "wp (configure_tty (Some (link_brk s)) node) Q E t"
proof -
  have finish: "wp (sys_tcsetattr f ts) (\<lambda>r. wp (if r = -1 then
      thn (serverLogErrno LL_ERROR ''tcsetattr'') (ret False) else ret True) Q E) E u"
    if "half_open s fd sfd u" for f ts u
    using that by (rule wp_half_open_quiet [OF _ quiet_tcsetattr])
      (use log in \<open>auto intro: Q wp_half_open_log\<close>)
  have "wp (if nodeIsMaster node then select_baud f (baudrate node) else ret (Some None)) (\<lambda>sel. wp
      (case sel of None \<Rightarrow> ret False
       | Some baud \<Rightarrow> bnd (sys_tcsetattr f ((set_speed baud ts)\<lparr>rawmode := True\<rparr>)) (\<lambda>r.
           if r = -1 then thn (serverLogErrno LL_ERROR ''tcsetattr'') (ret False) else ret True)) Q E) E u"
    if u: "half_open s fd sfd u" for u f ts
  proof (cases "nodeIsMaster node")
    case True
    with E show ?thesis
      by (auto intro!: wp_select_baud [OF u log] split: option.splits intro: Q finish)
  next
    case False
    with finish [OF u] show ?thesis by simp
  qed
  then have "wp (sys_tcgetattr f) (\<lambda>(r, ts). wp
      (if r = -1 then thn (serverLogErrno LL_ERROR ''tcgetattr'') (ret False)
       else bnd (if nodeIsMaster node then select_baud f (baudrate node) else ret (Some None))
        (\<lambda>sel. case sel of None \<Rightarrow> ret False
          | Some baud \<Rightarrow> bnd (sys_tcsetattr f ((set_speed baud ts)\<lparr>rawmode := True\<rparr>)) (\<lambda>r.
              if r = -1 then thn (serverLogErrno LL_ERROR ''tcsetattr'') (ret False) else ret True))) Q E) E t" for f
    by (intro wp_half_open_quiet [OF o quiet_tcgetattr])
       (auto split: prod.splits intro: Q wp_half_open_log [OF log])
  moreover have "links t (link_brk s) = Some (blank_link fd sfd None)"
    using o by (simp add: half_open_world)
  ultimately show ?thesis by (simp add: configure_tty_def wp_get_link split_def)
qed

section \<open>A failed attempt\<close>

lemma wf_no_link: "daemon_ok B ms vs s \<Longrightarrow> links s (link_brk s) = None"
  by (auto simp: daemon_ok_def links_ok_def dom_def subset_iff)

lemma wp_free_half_open:
  assumes o: "half_open s fd sfd t" and wf: "daemon_ok B ms vs s"
    and Q: "\<And>u. quiet (s\<lparr>link_brk := Suc (link_brk s)\<rparr>) u \<Longrightarrow> Q () u"
  shows "wp (serialLinkIOError (Some (link_brk s))) Q E t"
proof -
  have new: "(links s)(link_brk s \<mapsto> x, link_brk s := None) = links s" for x
    using wf_no_link [OF wf] by auto
  have unwatched: "(interest s)(x := None) = interest s" if "x \<notin> set (fds s)" for x
    using wf_log_ok [OF wf] that by (intro fun_upd_idem) (simp add: log_ok_def)
  have final: "Q () (t\<lparr>fds := fds s, interest := interest s, trace := trace t @ tr, links := links s\<rparr>)"
    if "wrote tr = []" for tr
    by (rule Q, use o that in \<open>cases s; cases t; simp add: half_open_def frame_defs\<close>)
  have fresh: "fresh_fds (fds s) fd sfd" using o by (simp add: half_open_world)
  have l: "links t (link_brk s) = Some (blank_link fd sfd None)" using o by (simp add: half_open_world)
  consider "fd = -1" "sfd = -1" | "fd \<noteq> -1" "sfd = -1" | "fd \<noteq> -1" "sfd \<noteq> -1"
    using fresh unfolding fresh_fds_def by blast
  then show ?thesis
  proof cases
    case 1
    have "t\<lparr>fds := fds s, interest := interest s, trace := trace t, links := links s\<rparr> = t\<lparr>links := links s\<rparr>"
      using o 1 by (cases t) (simp add: half_open_def new_fds_def)
    with final [of "[]"] 1 l new show ?thesis
      by (simp add: serialLinkIOError_def serialFreeLink_def wp_get_link blank_link_def half_open_world [OF o])
  next
    case 2
    with final [of "[Closed fd]"] l new fresh unwatched show ?thesis
      by (simp add: serialLinkIOError_def serialFreeLink_def wp_get_link blank_link_def wp_sys_close
          half_open_world [OF o] new_fds_def fresh_fds_def)
  next
    case 3
    with final [of "[Closed fd, Closed sfd]"] l new fresh unwatched show ?thesis
      by (auto simp: serialLinkIOError_def serialFreeLink_def wp_get_link blank_link_def wp_sys_close
          half_open_world [OF o] new_fds_def fresh_fds_def)
  qed
qed

text \<open>Such an attempt only uses up an address.\<close>

lemma links_ok_brk:
  assumes "links_ok B N flags K brk F L"
  shows "links_ok B N flags K (Suc brk) F L"
proof -
  have "dom K \<subseteq> {..<Suc brk}" using links_ok_fds(4) [OF assms] by (auto simp: lessThan_Suc)
  with assms show ?thesis unfolding links_ok_def by blast
qed

lemma wf_link_brk:
  assumes "daemon_ok B ms vs s" and "quiet (s\<lparr>link_brk := Suc (link_brk s)\<rparr>) t"
  shows "daemon_ok B ms vs t" and "link_frame [] s t" and "links t = links s" and "nodes t = nodes s"
proof -
  show "daemon_ok B ms vs t"
    using assms(1) quiet_world [OF assms(2)] by (auto simp: daemon_ok_def intro: links_ok_brk)
  show "link_frame [] s t"
    using assms(2) by (cases s; cases t) (simp add: link_frame_def without_links_def frame_defs)
  show "links t = links s" "nodes t = nodes s" using quiet_world [OF assms(2)] by simp_all
qed

section \<open>A successful attempt\<close>

lemma links_ok_add:
  assumes ok: "links_ok B N flags K brk F L" and n: "N n = Some k" "node_link k = None"
    and fd: "fresh_fds F fd sfd" "fd \<noteq> -1"
    and L': "\<And>x. evmask L' x \<noteq> AE_NONE \<Longrightarrow>
      x \<noteq> fd \<and> evmask L x \<noteq> AE_NONE \<and> events L' ! nat x = events L ! nat x
      \<or> x = fd \<and> event_ok flags (K(brk \<mapsto> blank_link fd sfd (Some n))) fd (events L' ! nat fd)"
  shows "links_ok B (N(n \<mapsto> k\<lparr>node_link := Some brk\<rparr>)) flags (K(brk \<mapsto> blank_link fd sfd (Some n)))
    (Suc brk) (new_fds F fd sfd) L'"
proof -
  let ?lk = "blank_link fd sfd (Some n)"
  let ?N = "N(n \<mapsto> k\<lparr>node_link := Some brk\<rparr>)" and ?K = "K(brk \<mapsto> ?lk)"
  note old = links_ok_fds [OF ok]
  have brk: "K brk = None" using old(4) by (auto simp: dom_def subset_iff)
  have fds: "fds_of ?lk \<inter> set F = {}" "set (new_fds F fd sfd) = set F \<union> fds_of ?lk"
    "distinct (new_fds F fd sfd)"
    using fd old(1) by (auto simp: fresh_fds_def fds_of_def blank_link_def new_fds_def)
  have "ran ?K = insert ?lk (ran K)" using brk by (rule ran_map_upd)
  then have lfds: "link_fds ?K = fds_of ?lk \<union> link_fds K" by (simp add: link_fds_def)
  have "link_ok ?N a lk" if "?K a = Some lk" for a lk
  proof (cases "a = brk")
    case True
    with that fd n show ?thesis
      by (auto simp: link_ok_def blank_link_def buf_ok_def fresh_fds_def)
  next
    case False
    with that have "K a = Some lk" by simp
    with ok obtain m j where "link_node lk = Some m" "N m = Some j" "node_link j = Some a"
      and "link_ok N a lk" unfolding links_ok_def link_ok_def by blast
    moreover from this n have "m \<noteq> n" by auto
    ultimately show ?thesis by (auto simp: link_ok_def)
  qed
  moreover have "fds_of x \<inter> fds_of y = {}" if "?K a = Some x" "?K b = Some y" "a \<noteq> b" for a b x y
  proof -
    have sub: "fds_of z \<subseteq> set F" if "K c = Some z" for c z
      using that old(2) by (auto simp: link_fds_def ran_def)
    with that fds(1) old(5) [of a x b y] show ?thesis by (fastforce split: if_splits)
  qed
  moreover have "\<exists>lk. ?K a = Some lk \<and> link_node lk = Some m"
    if m: "?N m = Some j" "node_link j = Some a" for m j a
  proof (cases "m = n")
    case True
    with m show ?thesis by (auto simp: blank_link_def)
  next
    case False
    with m(1) have "N m = Some j" by simp
    with ok m(2) obtain lk where "K a = Some lk" "link_node lk = Some m" by (elim links_ok_node)
    with brk show ?thesis by auto
  qed
  moreover have "event_ok flags ?K x (events L' ! nat x)" if "evmask L' x \<noteq> AE_NONE" for x
    using L' [OF that]
  proof
    assume x: "x \<noteq> fd \<and> evmask L x \<noteq> AE_NONE \<and> events L' ! nat x = events L ! nat x"
    with links_ok_event [OF ok] have "event_ok flags K x (events L' ! nat x)" by simp
    with brk show ?thesis unfolding event_ok_def by (metis fun_upd_other option.distinct(1))
  qed simp
  moreover have "dom ?K \<subseteq> {..<Suc brk}" using old(4) by (auto simp: lessThan_Suc)
  ultimately show ?thesis
    using old(2,3) fds lfds unfolding links_ok_def by blast
qed

text \<open>Registering the event and tying the knot between node and link.\<close>

lemma half_open_finish:
  assumes wf: "daemon_ok B ms vs s" and o: "half_open s fd sfd t" "fd \<noteq> -1"
    and n: "nodes s n = Some k" "node_link k = None" and L: "el s = Some L"
    and u: "nodes u = (nodes s)(n \<mapsto> k\<lparr>node_link := Some (link_brk s)\<rparr>)"
      "links u = (links s)(link_brk s \<mapsto> blank_link fd sfd (Some n))"
      "link_frame [] s u" "fds u = fds t" "link_brk u = Suc (link_brk s)"
    and el: "el u = Some L \<and> interest u = interest s \<or>
      fd < setsize L \<and>
      el u = Some (with_event L fd (ev_flags (nodes s) vs n) serialEventHandler_fp (Some (link_brk s))) \<and>
      interest u = (interest s)(fd \<mapsto> epoll_events_of (evmask L fd OR ev_flags (nodes s) vs n))"
  shows "daemon_ok B ms vs u"
proof -
  let ?m = "ev_flags (nodes s) vs n" and ?lk = "blank_link fd sfd (Some n)"
  let ?K = "(links s)(link_brk s \<mapsto> ?lk)"
  have tab: "table_ok L (interest s)"
    and ok: "links_ok B (nodes s) (ev_flags (nodes s) vs) (links s) (link_brk s) (fds s) L"
    using wf L by (auto elim!: wf_loop)
  have relinked: "relinked (nodes s) (nodes u)" using u(3) by (simp add: link_frame_def)
  have reg: "reg_state u ms vs"
    using wf reg_ok_shape [OF relinked_shape [OF relinked]]
    by (simp add: daemon_ok_def link_frame_world [OF u(3)])
  have fresh: "fresh_fds (fds s) fd sfd" "fds t = new_fds (fds s) fd sfd"
    using o(1) by (simp_all add: half_open_world)
  have unwatched: "evmask L fd = AE_NONE"
    using links_ok_watched(1) [OF ok, of fd] fresh o(2) by (auto simp: fresh_fds_def)
  have fd: "0 \<le> fd" using fresh o(2) by (auto simp: fresh_fds_def)
  have add: "links_ok B (nodes u) (ev_flags (nodes u) vs) (links u) (link_brk u) (fds u) L'"
    if "\<And>x. evmask L' x \<noteq> AE_NONE \<Longrightarrow> x \<noteq> fd \<and> evmask L x \<noteq> AE_NONE \<and> events L' ! nat x = events L ! nat x
      \<or> x = fd \<and> event_ok (ev_flags (nodes s) vs) ?K fd (events L' ! nat fd)" for L'
    using links_ok_add [OF ok n fresh(1) o(2) that] relinked_flags [OF relinked] u fresh(2) by simp
  from el show ?thesis
  proof (elim disjE conjE)
    assume e: "el u = Some L" "interest u = interest s"
    have "links_ok B (nodes u) (ev_flags (nodes u) vs) (links u) (link_brk u) (fds u) L"
      by (rule add) (use unwatched in auto)
    with e reg tab wf show ?thesis by (simp add: daemon_ok_def link_frame_world [OF u(3)])
  next
    assume size: "fd < setsize L"
      and e: "el u = Some (with_event L fd ?m serialEventHandler_fp (Some (link_brk s)))"
        "interest u = (interest s)(fd \<mapsto> epoll_events_of (evmask L fd OR ?m))"
    let ?L = "with_event L fd ?m serialEventHandler_fp (Some (link_brk s))"
    have len: "nat fd < length (events L)" using tab size fd by (simp add: table_ok_def)
    have mask: "fe_mask (events L ! nat fd) = AE_NONE" using unwatched fd size by (simp add: evmask_def)
    have "event_ok (ev_flags (nodes s) vs) ?K fd (events ?L ! nat fd)"
      using len mask by (simp add: event_ok_def with_event_def register_event_def blank_link_def)
    moreover have "events ?L ! nat x = events L ! nat x" if "x \<noteq> fd" "0 \<le> x" for x
      using that fd by (simp add: with_event_def eq_nat_nat_iff)
    moreover have "setsize ?L = setsize L" by (simp add: with_event_def)
    ultimately have "links_ok B (nodes u) (ev_flags (nodes u) vs) (links u) (link_brk u) (fds u) ?L"
      by (intro add) (auto simp: evmask_def split: if_splits)
    moreover have "table_ok ?L (interest u)"
      unfolding e(2) using tab fd size ev_flags_mask by (rule table_ok_with_event)
    ultimately show ?thesis using e reg wf by (simp add: daemon_ok_def link_frame_world [OF u(3)])
  qed
qed

lemma wp_finish_link:
  assumes wf: "daemon_ok B ms vs s" and o: "half_open s fd sfd t" "fd \<noteq> -1"
    and n: "nodes s n = Some k" "node_link k = None"
    and Q: "\<And>u. daemon_ok B ms vs u \<Longrightarrow> link_frame [] s u \<Longrightarrow>
      links u = (links s)(link_brk s \<mapsto> blank_link fd sfd (Some n)) \<Longrightarrow>
      nodes u = (nodes s)(n \<mapsto> k\<lparr>node_link := Some (link_brk s)\<rparr>) \<Longrightarrow>
      fds u = new_fds (fds s) fd sfd \<Longrightarrow> Q (Some (link_brk s)) u"
  shows "wp (bnd (serialEventFlags (Some n)) (\<lambda>flags. bnd (get_link (Some (link_brk s))) (\<lambda>link.
      thn (aeCreateFileEvent (link_fd link) flags serialEventHandler_fp (Some (link_brk s)))
     (thn (upd_node (Some n) (\<lambda>n. n\<lparr>node_link := Some (link_brk s)\<rparr>))
     (thn (upd_link (Some (link_brk s)) (\<lambda>l. l\<lparr>link_node := Some n\<rparr>))
       (ret (Some (link_brk s)))))))) Q E t"
proof -
  let ?a = "link_brk s" and ?m = "ev_flags (nodes s) vs n"
  let ?lk = "blank_link fd sfd (Some n)"
  obtain L where L: "el s = Some L" "table_ok L (interest s)" using wf by (rule wf_loop)
  note T = half_open_world [OF o(1)]
  have reg: "reg_state t ms vs" using wf T by (simp add: daemon_ok_def)
  have l: "links t ?a = Some (blank_link fd sfd None)" using T by simp
  have fd: "0 \<le> fd" "fd \<in> set (fds t)"
    using T o(2) by (auto simp: fresh_fds_def new_fds_def)
  have frame: "link_frame [] s (u\<lparr>nodes := (nodes s)(n \<mapsto> k\<lparr>node_link := Some ?a\<rparr>),
      links := (links s)(?a \<mapsto> ?lk)\<rparr>)" if "quiet t u" for u
    using quiet_link_frame [OF that] half_open_frame [OF o(1)] n(1)
    by (simp add: link_frame_def without_links_def same_env_def)
  have frame': "link_frame [] s (u\<lparr>interest := I, el := Some (with_event L fd ?m p c),
      nodes := (nodes s)(n \<mapsto> k\<lparr>node_link := Some ?a\<rparr>), links := (links s)(?a \<mapsto> ?lk)\<rparr>)"
    if "quiet t u" for u I p c
    using frame [OF that] L(1) quiet_world(3) [OF that] T(3)
    by (simp add: link_frame_def without_links_def same_env_def)
  note finish = half_open_finish [OF wf o n L(1)]
  have "wp (aeCreateFileEvent fd ?m serialEventHandler_fp (Some ?a)) (\<lambda>_. wp
      (thn (upd_node (Some n) (\<lambda>n. n\<lparr>node_link := Some ?a\<rparr>))
      (thn (upd_link (Some ?a) (\<lambda>l. l\<lparr>link_node := Some n\<rparr>)) (ret (Some ?a)))) Q E) E t"
  proof (rule wp_aeCreateFileEvent)
    show "el t = Some L" "table_ok L (interest t)" using L T by simp_all
    show "0 \<le> fd" "fd \<in> set (fds t)" using fd by simp_all
    fix u assume u: "quiet t u"
    let ?u = "u\<lparr>nodes := (nodes s)(n \<mapsto> k\<lparr>node_link := Some ?a\<rparr>), links := (links s)(?a \<mapsto> ?lk)\<rparr>"
    have "daemon_ok B ms vs ?u"
      by (rule finish) (use frame [OF u] quiet_world [OF u] T L in simp_all)
    from Q [OF this frame [OF u]] quiet_world [OF u] T n l
    show "wp (thn (upd_node (Some n) (\<lambda>n. n\<lparr>node_link := Some ?a\<rparr>))
      (thn (upd_link (Some ?a) (\<lambda>l. l\<lparr>link_node := Some n\<rparr>)) (ret (Some ?a)))) Q E u"
      by (simp add: wp_upd_node wp_upd_link blank_link_def)
  next
    fix u assume u: "quiet t u" and size: "fd < setsize L"
    let ?u = "u\<lparr>interest := (interest t)(fd \<mapsto> epoll_events_of (evmask L fd OR ?m)),
      el := Some (with_event L fd ?m serialEventHandler_fp (Some ?a)),
      nodes := (nodes s)(n \<mapsto> k\<lparr>node_link := Some ?a\<rparr>), links := (links s)(?a \<mapsto> ?lk)\<rparr>"
    have "daemon_ok B ms vs ?u"
      by (rule finish) (use frame' [OF u] quiet_world [OF u] T L size in simp_all)
    from Q [OF this frame' [OF u]] quiet_world [OF u] T n l
    show "wp (thn (upd_node (Some n) (\<lambda>n. n\<lparr>node_link := Some ?a\<rparr>))
      (thn (upd_link (Some ?a) (\<lambda>l. l\<lparr>link_node := Some n\<rparr>)) (ret (Some ?a)))) Q E
      (u\<lparr>interest := (interest t)(fd \<mapsto> epoll_events_of (evmask L fd OR ?m)),
         el := Some (with_event L fd ?m serialEventHandler_fp (Some ?a))\<rparr>)"
      by (simp add: wp_upd_node wp_upd_link blank_link_def)
  qed
  moreover have "ev_flags (nodes t) vs n = ?m" using T by simp
  ultimately show ?thesis
    using n T l by (simp add: wp_serialEventFlags [OF reg, of n k] wp_get_link)
       (simp add: blank_link_def)
qed

section \<open>serialCreateLink and serialConnectNode\<close>

lemma wp_serialCreateLink:
  assumes wf: "daemon_ok B ms vs s" and n: "nodes s n = Some k" "node_link k = None" and E: "E (Exit 1)"
    and baud: "nodeIsMaster k \<Longrightarrow> baudrate k \<le> 0 \<Longrightarrow> E DivByZero \<and> E IntOverflow"
    and fail: "\<And>t. daemon_ok B ms vs t \<Longrightarrow> link_frame [] s t \<Longrightarrow> links t = links s \<Longrightarrow> nodes t = nodes s \<Longrightarrow>
      fds t = fds s \<Longrightarrow> Q None t"
    and succ: "\<And>t fd sfd. daemon_ok B ms vs t \<Longrightarrow> link_frame [] s t \<Longrightarrow>
      links t = (links s)(link_brk s \<mapsto> blank_link fd sfd (Some n)) \<Longrightarrow>
      nodes t = (nodes s)(n \<mapsto> k\<lparr>node_link := Some (link_brk s)\<rparr>) \<Longrightarrow>
      fds t = new_fds (fds s) fd sfd \<Longrightarrow> Q (Some (link_brk s)) t"
  shows "wp (serialCreateLink (Some n)) Q E s"
proof -
  let ?a = "link_brk s"
  have log: "log_ok s" using wf by (rule wf_log_ok)
  have reg: "reg_state s ms vs" using wf by (simp add: daemon_ok_def)
  have kind: "nodeIsMaster k \<or> nodeIsVirtual k" using reg n(1) by (cases rule: reg_ok_cases) auto
  let ?finish = "bnd (serialEventFlags (Some n)) (\<lambda>flags. bnd (get_link (Some ?a)) (\<lambda>link.
      thn (aeCreateFileEvent (link_fd link) flags serialEventHandler_fp (Some ?a))
     (thn (upd_node (Some n) (\<lambda>n. n\<lparr>node_link := Some ?a\<rparr>))
     (thn (upd_link (Some ?a) (\<lambda>l. l\<lparr>link_node := Some n\<rparr>)) (ret (Some ?a))))))"
  let ?rest = "\<lambda>opened. bnd (if opened then configure_tty (Some ?a) k else ret False) (\<lambda>ready.
      if \<not> ready then thn (serialLinkIOError (Some ?a)) (ret None) else ?finish)"
  have err: "wp (thn (serialLinkIOError (Some ?a)) (ret None)) Q E t" if "half_open s fd sfd t" for t fd sfd
  proof -
    have "Q None u" if u: "quiet (s\<lparr>link_brk := Suc ?a\<rparr>) u" for u
      using fail [of u] wf_link_brk [OF wf u] quiet_world [OF u] by simp
    then show ?thesis using wp_free_half_open [OF that wf, of "\<lambda>_. Q None"] by simp
  qed
  have rest: "wp (?rest opened) Q E t" if t: "half_open s fd sfd t" "opened \<longrightarrow> fd \<noteq> -1" for t fd sfd opened
  proof (cases opened)
    case True
    have "wp ?finish Q E u" if u: "half_open s fd sfd u" for u
      using wf u _ n by (rule wp_finish_link) (use succ t(2) True in auto)
    then have "wp (if \<not> ready then thn (serialLinkIOError (Some ?a)) (ret None) else ?finish) Q E u"
      if u: "half_open s fd sfd u" for ready u
      using err [OF u] u by simp
    with True t show ?thesis
      by (auto intro!: wp_configure_tty [OF t(1) log baud])
  next
    case False
    with err [OF t(1)] show ?thesis by simp
  qed
  have start: "wp (if nodeIsMaster k then open_master (Some ?a) (node_name k)
      else if nodeIsVirtual k then open_virtual (Some ?a) (node_name k) else ret True)
      (\<lambda>opened. wp (?rest opened) Q E) E t" if t: "half_open s (-1) (-1) t" for t
    using kind rest wp_open_master [OF t log] wp_open_virtual [OF t log] by auto
  have "wp (if \<not> ok then thn (serverLog LL_ERROR ''calloc failed'') (stop_with (Exit 1))
      else bnd (gets link_brk) (\<lambda>a.
        thn (modify (\<lambda>s. s\<lparr>link_brk := Suc a, links := (links s)(a \<mapsto>
          \<lparr>link_fd = -1, link_sfd = -1, recvbuf = [], recvbuflen = 0, link_node = None\<rparr>)\<rparr>))
       (bnd (get_node (Some n)) (\<lambda>node.
        bnd (if nodeIsMaster node then open_master (Some a) (node_name node)
             else if nodeIsVirtual node then open_virtual (Some a) (node_name node) else ret True) (\<lambda>opened.
        bnd (if opened then configure_tty (Some a) node else ret False) (\<lambda>ready.
          if \<not> ready then thn (serialLinkIOError (Some a)) (ret None)
          else bnd (serialEventFlags (Some n)) (\<lambda>flags. bnd (get_link (Some a)) (\<lambda>link.
            thn (aeCreateFileEvent (link_fd link) flags serialEventHandler_fp (Some a))
           (thn (upd_node (Some n) (\<lambda>n. n\<lparr>node_link := Some a\<rparr>))
           (thn (upd_link (Some a) (\<lambda>l. l\<lparr>link_node := Some n\<rparr>)) (ret (Some a)))))))))))) Q E t"
    if t: "quiet s t" for ok t
  proof (cases ok)
    case True
    let ?t = "t\<lparr>link_brk := Suc ?a, links := (links s)(?a \<mapsto> blank_link (-1) (-1) None)\<rparr>"
    have "half_open s (-1) (-1) ?t"
      using t by (cases s; cases t) (simp add: half_open_def frame_defs new_fds_def fresh_fds_def)
    note run = start [OF this, unfolded blank_link_def]
    have "nodes ?t n = Some k" using n(1) quiet_world [OF t] by simp
    note node = wp_get_node [OF this [unfolded blank_link_def]]
    from True quiet_world [OF t] show ?thesis
      by (simp only: wp_bnd wp_thn wp_gets wp_modify if_not_P not_True_eq_False if_False
          select_convs update_convs) (use run in \<open>simp only: wp_bnd wp_bnd_fun node\<close>)
  next
    case False
    have "wp (serverLog LL_ERROR ''calloc failed'') (\<lambda>_ _. E (Exit 1)) E t"
      by (rule wp_serverLog) (use log t E in \<open>auto simp: log_ok_quiet\<close>)
    with False show ?thesis by simp
  qed
  then show ?thesis
    unfolding serialCreateLink_def wp_bnd by (rule quiet_wp [OF quiet_malloc])
qed

lemma wp_serialConnectNode:
  assumes wf: "daemon_ok B ms vs s" and n: "nodes s n = Some k" "node_link k = None" and E: "E (Exit 1)"
    and baud: "nodeIsMaster k \<Longrightarrow> baudrate k \<le> 0 \<Longrightarrow> E DivByZero \<and> E IntOverflow"
    and fail: "\<And>t. daemon_ok B ms vs t \<Longrightarrow> link_frame [] s t \<Longrightarrow> links t = links s \<Longrightarrow> nodes t = nodes s \<Longrightarrow>
      fds t = fds s \<Longrightarrow> Q C_ERR t"
    and succ: "\<And>t fd sfd. daemon_ok B ms vs t \<Longrightarrow> link_frame [] s t \<Longrightarrow>
      links t = (links s)(link_brk s \<mapsto> blank_link fd sfd (Some n)) \<Longrightarrow>
      nodes t = (nodes s)(n \<mapsto> k\<lparr>node_link := Some (link_brk s)\<rparr>) \<Longrightarrow>
      fds t = new_fds (fds s) fd sfd \<Longrightarrow> Q C_OK t"
  shows "wp (serialConnectNode (Some n)) Q E s"
proof -
  have "wp (serialCreateLink (Some n)) (\<lambda>link. wp (if link = None then ret C_ERR else ret C_OK) Q E) E s"
    using wf n by (rule wp_serialCreateLink) (use E baud fail succ in auto)
  with n show ?thesis by (simp add: serialConnectNode_def wp_get_node)
qed

end
