(* ===== verification/Traffic.thy ===== *)
theory Traffic
  imports LinkOps
begin

text \<open>
  The handlers that move bytes (\<open>src/serial.c\<close>): what arrives on a link waits in its buffer until the
  next poll, and a writable link is sent what waits in the buffer of its source, the master for a
  virtual node and the writer for a master.
\<close>

section \<open>Buffers\<close>

text \<open>The bytes waiting in a link's buffer.\<close>

definition pending :: "serialLink \<Rightarrow> string" where
  "pending lk = take (nat (recvbuflen lk)) (recvbuf lk)"

definition received :: "serialLink \<Rightarrow> string \<Rightarrow> serialLink" where
  "received lk bytes =
     lk\<lparr>recvbuf := store_front bytes (recvbuf lk), recvbuflen := int (length bytes)\<rparr>"

lemma pending_received [simp]: "pending (received lk bytes) = bytes"
  by (simp add: pending_def received_def store_front_def)

lemma received_same [simp]:
  "link_fd (received lk b) = link_fd lk" "link_sfd (received lk b) = link_sfd lk"
  "link_node (received lk b) = link_node lk" "fds_of (received lk b) = fds_of lk"
  by (simp_all add: received_def fds_of_def)

lemma buf_ok_received: "buf_ok lk \<Longrightarrow> length bytes \<le> BUFSIZ \<Longrightarrow> buf_ok (received lk bytes)"
  by (simp add: buf_ok_def received_def store_front_def) linarith

lemma pending_empty: "buf_ok lk \<Longrightarrow> pending lk = [] \<longleftrightarrow> recvbuflen lk = 0"
  by (auto simp: pending_def buf_ok_def)

lemma links_ok_update:
  assumes ok: "links_ok B N flags K brk F L" and a: "K a = Some lk"
    and lk': "link_fd lk' = link_fd lk" "link_sfd lk' = link_sfd lk" "link_node lk' = link_node lk"
      "buf_ok lk'"
  shows "links_ok B N flags (K(a \<mapsto> lk')) brk F L"
proof -
  let ?K = "K(a \<mapsto> lk')"
  note old = links_ok_fds [OF ok]
  have same: "fds_of lk' = fds_of lk" using lk' by (simp add: fds_of_def)
  have mem: "fd \<in> link_fds M \<longleftrightarrow> (\<exists>b x. M b = Some x \<and> fd \<in> fds_of x)" for fd M
    by (auto simp: link_fds_def ran_def)
  have "fd \<in> link_fds ?K \<longleftrightarrow> fd \<in> link_fds K" for fd
  proof
    assume "fd \<in> link_fds ?K"
    then obtain b x where b: "?K b = Some x" "fd \<in> fds_of x" unfolding mem by blast
    then have "K b = Some (if b = a then lk else x)" "fd \<in> fds_of (if b = a then lk else x)"
      using a same by (cases "b = a"; simp)+
    then show "fd \<in> link_fds K" unfolding mem by blast
  next
    assume "fd \<in> link_fds K"
    then obtain b x where b: "K b = Some x" "fd \<in> fds_of x" unfolding mem by blast
    then have "?K b = Some (if b = a then lk' else x)" "fd \<in> fds_of (if b = a then lk' else x)"
      using a same by (cases "b = a"; simp)+
    then show "fd \<in> link_fds ?K" unfolding mem by blast
  qed
  then have "link_fds ?K = link_fds K" by blast
  moreover have "dom ?K = dom K" using a by auto
  moreover have "link_ok N b x" if b: "?K b = Some x" for b x
  proof (cases "b = a")
    case True
    have "link_ok N a lk" using ok a by (simp add: links_ok_def)
    with True b lk' show ?thesis by (simp add: link_ok_def)
  next
    case False
    with b ok show ?thesis by (simp add: links_ok_def)
  qed
  moreover have "fds_of x \<inter> fds_of y = {}" if "?K b = Some x" "?K c = Some y" "b \<noteq> c" for b c x y
    using that old(5) [OF a] old(5) [OF _ a] old(5) [of b x c y] same by (auto split: if_splits)
  moreover have "\<exists>x. ?K b = Some x \<and> link_node x = Some n" if "N n = Some k" "node_link k = Some b" for n k b
    using links_ok_node [OF ok that] a lk'(3) by (metis fun_upd_apply option.inject)
  moreover have "event_ok flags ?K fd (events L ! nat fd)" if "evmask L fd \<noteq> AE_NONE" for fd
    using links_ok_event [OF ok that] a lk'(1,3) unfolding event_ok_def
    by (metis fun_upd_apply option.inject)
  ultimately show ?thesis using old(1,2,3,4) unfolding links_ok_def by simp
qed

lemma daemon_ok_update:
  assumes wf: "daemon_ok B ms vs s" and a: "links s a = Some lk"
    and lk': "link_fd lk' = link_fd lk" "link_sfd lk' = link_sfd lk" "link_node lk' = link_node lk"
      "buf_ok lk'"
  shows "daemon_ok B ms vs (s\<lparr>links := (links s)(a \<mapsto> lk')\<rparr>)"
  using wf by (auto simp: daemon_ok_def intro: links_ok_update [where lk = lk] a lk')

section \<open>Reading\<close>

lemma link_frame_links [simp]: "link_frame w s (t\<lparr>links := K\<rparr>) = link_frame w s t"
  by (simp add: link_frame_def without_links_def)

lemma quiet_upd_link:
  "quiet s t \<Longrightarrow> s\<lparr>links := K\<rparr> = s' \<Longrightarrow> quiet s' (t\<lparr>links := K\<rparr>)"
  by (cases s; cases t) (auto simp: frame_defs)

lemma daemon_ok_quiet:
  "daemon_ok B ms vs s \<Longrightarrow> quiet s t \<Longrightarrow> daemon_ok B ms vs t"
  by (simp add: wf_quiet)

text \<open>
  The error number the code looks at when nothing was read. At the end of the input \<open>read\<close> sets none,
  so it is the one an earlier call left.
\<close>

definition read_errno :: "world \<Rightarrow> int" where
  "read_errno s = (let r = answers s (calls s) in if r_ok r then errno s else r_errno r)"

definition arrived :: "world \<Rightarrow> string" where
  "arrived s = (let r = answers s (calls s) in if r_ok r then take BUFSIZ (r_data r) else [])"

lemma wp_serialReadHandler:
  assumes wf: "daemon_ok B ms vs s" and a: "links s a = Some lk"
    and wait: "\<And>t. arrived s = [] \<Longrightarrow> read_errno s = EAGAIN \<Longrightarrow> quiet s t \<Longrightarrow> Q () t"
    and lost: "\<And>t n k. arrived s = [] \<Longrightarrow> read_errno s \<noteq> EAGAIN \<Longrightarrow>
      link_node lk = Some n \<Longrightarrow> nodes s n = Some k \<Longrightarrow> daemon_ok B ms vs t \<Longrightarrow>
      link_frame [] s t \<Longrightarrow> links t = (links s)(a := None) \<Longrightarrow>
      nodes t = (nodes s)(n \<mapsto> k\<lparr>node_link := None\<rparr>) \<Longrightarrow> Q () t"
    and data: "\<And>t. arrived s \<noteq> [] \<Longrightarrow> quiet (s\<lparr>links := (links s)(a \<mapsto> received lk (arrived s))\<rparr>) t \<Longrightarrow>
      daemon_ok B ms vs t \<Longrightarrow> Q () t"
  shows "wp (serialReadHandler (Some a)) Q E s"
proof -
  obtain n k where n: "link_node lk = Some n" "nodes s n = Some k" and buf: "buf_ok lk"
    and fd: "link_fd lk \<in> set (fds s)"
    using wf a by (rule wf_link) (auto simp: fds_of_def)
  have log: "log_ok s" using wf by (rule wf_log_ok)
  let ?r = "answers s (calls s)"
  let ?bytes = "take BUFSIZ (r_data ?r)"
  let ?body = "\<lambda>(nread, bytes).
       if nread \<le> (0::int) then
         bnd (gets errno) (\<lambda>e.
           if e \<noteq> EAGAIN then
             bnd (get_node (link_node lk)) (\<lambda>node.
             thn (serverLogErrno LL_ERROR (''I/O error reading from '' @ node_name node @ '' (''
                    @ show_int (link_fd lk) @ '') node link''))
               (serialLinkIOError (Some a)))
           else ret ())
       else
         thn (upd_link (Some a) (\<lambda>l. l\<lparr>recvbuf := store_front bytes (recvbuf l)\<rparr>))
        (bnd (get_node (link_node lk)) (\<lambda>node.
         thn (serverLog LL_DEBUG (''Read '' @ show_int nread @ '' bytes from '' @ node_name node
                @ '' ('' @ show_int (link_fd lk) @ '')''))
           (upd_link (Some a) (\<lambda>l. l\<lparr>recvbuflen := nread\<rparr>))))"
  have no_data: "wp (?body (nread, bytes)) Q E t" if t: "quiet s t" "nread \<le> 0" "arrived s = []" "errno t = read_errno s" for t nread bytes
  proof -
    have "wp (serialFreeLink (Some a)) Q E u" if u: "quiet t u" and e: "read_errno s \<noteq> EAGAIN" for u
    proof (rule wp_serialFreeLink)
      have su: "quiet s u" using t(1) u by (rule quiet_trans)
      show "daemon_ok B ms vs u" using wf su by (rule daemon_ok_quiet)
      show "links u a = Some lk" using a su by (simp add: quiet_world)
      fix v n' k'
      assume v: "link_node lk = Some n'" "nodes u n' = Some k'" "daemon_ok B ms vs v" "link_frame [] u v"
        "links v = (links u)(a := None)" "nodes v = (nodes u)(n' \<mapsto> k'\<lparr>node_link := None\<rparr>)"
      show "Q () v"
        by (rule lost [of n' k'])
          (use v su e t(3) link_frame_trans0(1) [OF quiet_link_frame [OF su] v(4)] in
            \<open>simp_all add: quiet_world\<close>)
    qed
    moreover have "log_ok t" using log t(1) by (simp add: log_ok_quiet)
    ultimately have "wp (serverLogErrno LL_ERROR msg) (\<lambda>_. wp (serialFreeLink (Some a)) Q E) E t"
      if "read_errno s \<noteq> EAGAIN" for msg
      using that by (intro wp_serverLogErrno) auto
    moreover have "nodes t n = Some k" using n(2) t(1) by (simp add: quiet_world)
    ultimately show ?thesis
      using t n wait by (simp add: serialLinkIOError_def wp_get_node)
  qed
  have some: "wp (?body (int (length ?bytes), ?bytes)) Q E t"
    if t: "quiet s t" "?bytes \<noteq> []" "r_ok ?r" for t
  proof -
    let ?lk = "lk\<lparr>recvbuf := store_front ?bytes (recvbuf lk)\<rparr>"
    let ?t = "t\<lparr>links := (links s)(a \<mapsto> ?lk)\<rparr>"
    have "wp (upd_link (Some a) (\<lambda>l. l\<lparr>recvbuflen := int (length ?bytes)\<rparr>)) Q E u"
      if u: "quiet ?t u" for u
    proof -
      let ?u = "u\<lparr>links := (links s)(a \<mapsto> received lk ?bytes)\<rparr>"
      have "quiet (s\<lparr>links := (links s)(a \<mapsto> received lk ?bytes)\<rparr>) (t\<lparr>links := (links s)(a \<mapsto> received lk ?bytes)\<rparr>)"
        using t(1) by (rule quiet_upd_link) simp
      also have "quiet \<dots> ?u" using u by (rule quiet_upd_link) simp
      finally have q: "quiet (s\<lparr>links := (links s)(a \<mapsto> received lk ?bytes)\<rparr>) ?u" .
      have "daemon_ok B ms vs (s\<lparr>links := (links s)(a \<mapsto> received lk ?bytes)\<rparr>)"
        using wf a by (rule daemon_ok_update) (simp_all add: buf_ok_received [OF buf])
      moreover have "arrived s = ?bytes" using t(3) by (simp add: arrived_def)
      ultimately have "Q () ?u" using daemon_ok_quiet [OF _ q] data q t(2) by simp
      moreover have "links u = (links s)(a \<mapsto> ?lk)" using quiet_world(2) [OF u] by simp
      ultimately show ?thesis by (simp add: wp_upd_link received_def)
    qed
    moreover have "log_ok ?t" using log t(1) quiet_world [OF t(1)] by (simp add: log_ok_def)
    ultimately have "wp (serverLog LL_DEBUG msg)
        (\<lambda>_. wp (upd_link (Some a) (\<lambda>l. l\<lparr>recvbuflen := int (length ?bytes)\<rparr>)) Q E) E ?t" for msg
      by (intro wp_serverLog) auto
    moreover have "nodes t n = Some k" "links t = links s" using n(2) t(1) by (simp_all add: quiet_world)
    ultimately show ?thesis
      using t n a by (simp add: wp_upd_link wp_get_node del: take_eq_Nil length_take)
  qed
  have "wp (sys_read (link_fd lk) BUFSIZ) (\<lambda>x. wp (?body x) Q E) E s"
  proof (rule wp_sys_read [OF refl fd])
    fix r :: int and t
    assume t: "quiet s t" "r \<le> 0" "\<not> (r_ok ?r \<and> ?bytes \<noteq> [])"
      "errno t = (if r_ok ?r then errno s else r_errno ?r)"
    show "wp (?body (r, [])) Q E t"
      by (rule no_data) (use t in \<open>auto simp: arrived_def read_errno_def Let_def\<close>)
  qed (rule some)
  with a show ?thesis by (simp add: serialReadHandler_def wp_get_link)
qed

section \<open>Writing\<close>

lemma wrote_frame:
  "link_frame [] s t \<Longrightarrow> wrote tr = w \<Longrightarrow> link_frame w s (t\<lparr>trace := trace t @ tr\<rparr>)"
  by (simp add: link_frame_def without_links_def)

text \<open>
  What \<open>write\<close> takes of the bytes offered, as the environment decides, and the writes it makes. The
  code gives the link up when nothing was taken.
\<close>

definition taken :: "world \<Rightarrow> string \<Rightarrow> string" where
  "taken s buf = (let r = answers s (calls s) in if r_ok r then take (nat (r_num r)) buf else [])"

lemma wp_sys_write:
  assumes fd: "fd \<in> set (fds s)"
    and err: "\<And>t. \<not> r_ok (answers s (calls s)) \<Longrightarrow> quiet s t \<Longrightarrow> Q (-1) t"
    and ok: "\<And>t. r_ok (answers s (calls s)) \<Longrightarrow> quiet s t \<Longrightarrow>
      Q (int (length (taken s buf))) (t\<lparr>trace := trace t @ [Wrote fd (taken s buf)]\<rparr>)"
  shows "wp (sys_write fd buf) Q E s"
proof -
  have "quiet s (s\<lparr>calls := Suc (calls s), errno := e\<rparr>)" "quiet s (s\<lparr>calls := Suc (calls s)\<rparr>)" for e
    by (simp_all add: frame_defs)
  with err ok [of "s\<lparr>calls := Suc (calls s)\<rparr>"] fd show ?thesis
    by (simp add: sys_write_def wp_kernel taken_def Let_def)
qed

lemma daemon_ok_trace [simp]: "daemon_ok B ms vs (s\<lparr>trace := tr\<rparr>) = daemon_ok B ms vs s"
  by (simp add: daemon_ok_def)

lemma wp_serialWriteLink:
  assumes wf: "daemon_ok B ms vs s" and b: "links s b = Some to"
    and src: "from \<noteq> None \<Longrightarrow> links s (the from) = Some lk"
    and idle: "from = None \<or> pending lk = [] \<Longrightarrow> Q () s"
    and sent: "\<And>t. from \<noteq> None \<Longrightarrow> taken s (pending lk) \<noteq> [] \<Longrightarrow> daemon_ok B ms vs t \<Longrightarrow>
      link_frame [(link_fd to, taken s (pending lk))] s t \<Longrightarrow> links t = links s \<Longrightarrow> nodes t = nodes s \<Longrightarrow>
      fds t = fds s \<Longrightarrow> el t = el s \<Longrightarrow> Q () t"
    and lost: "\<And>t n k w. from \<noteq> None \<Longrightarrow> pending lk \<noteq> [] \<Longrightarrow> taken s (pending lk) = [] \<Longrightarrow>
      link_node to = Some n \<Longrightarrow> nodes s n = Some k \<Longrightarrow> daemon_ok B ms vs t \<Longrightarrow>
      link_frame w s t \<Longrightarrow> w \<in> {[], [(link_fd to, [])]} \<Longrightarrow> links t = (links s)(b := None) \<Longrightarrow>
      nodes t = (nodes s)(n \<mapsto> k\<lparr>node_link := None\<rparr>) \<Longrightarrow> Q () t"
  shows "wp (serialWriteLink from (Some b)) Q E s"
proof (cases "from = None \<or> pending lk = []")
  case True
  show ?thesis
  proof (cases "from = None")
    case False
    then have lk: "links s (the from) = Some lk" using src by blast
    from wf lk obtain "buf_ok lk" by (rule wf_link)
    with True False have "recvbuflen lk = 0" by (simp add: pending_empty)
    with idle [OF True] False lk show ?thesis by (auto simp: serialWriteLink_def wp_get_link)
  qed (use idle in \<open>simp add: serialWriteLink_def\<close>)
next
  case False
  then obtain a where a: "from = Some a" "links s a = Some lk" and ne: "pending lk \<noteq> []"
    using src by auto
  obtain n k where n: "link_node to = Some n" "nodes s n = Some k"
    and fd: "link_fd to \<in> set (fds s)"
    using wf b by (rule wf_link) (auto simp: fds_of_def)
  obtain m j where m: "link_node lk = Some m" "nodes s m = Some j" and buf: "buf_ok lk"
    using wf a(2) by (rule wf_link)
  have log: "log_ok s" using wf by (rule wf_log_ok)
  have len: "recvbuflen lk > 0" using ne buf pending_empty [OF buf] by (auto simp: buf_ok_def)
  have close: "wp (bnd (get_node (link_node to)) (\<lambda>ton. thn (serverLogErrno LL_ERROR (msg ton))
      (serialLinkIOError (Some b)))) Q E t"
    if t: "quiet s t0" "t = t0\<lparr>trace := trace t0 @ tr\<rparr>" "wrote tr = w" "w \<in> {[], [(link_fd to, [])]}"
      and none: "taken s (pending lk) = []" for t0 t tr w msg
  proof -
    have same: "nodes t = nodes s" "links t = links s" "logfile t = logfile s" "fds t = fds s"
      "interest t = interest s"
      using t(1,2) by (simp_all add: quiet_world)
    have "link_frame w s t" unfolding t(2) using quiet_link_frame [OF t(1)] t(3) by (rule wrote_frame)
    moreover have "daemon_ok B ms vs t" using daemon_ok_quiet [OF wf t(1)] t(2) by simp
    moreover have "wp (serialFreeLink (Some b)) Q E u"
      if u: "quiet t u" and tf: "link_frame w s t" "daemon_ok B ms vs t" for u
    proof (rule wp_serialFreeLink)
      show "daemon_ok B ms vs u" using tf(2) u by (rule daemon_ok_quiet)
      show "links u b = Some to" using b same u by (simp add: quiet_world)
      fix v n' k'
      assume v: "link_node to = Some n'" "nodes u n' = Some k'" "daemon_ok B ms vs v" "link_frame [] u v"
        "links v = (links u)(b := None)" "nodes v = (nodes u)(n' \<mapsto> k'\<lparr>node_link := None\<rparr>)"
      have "link_frame w s v"
        using link_frame_trans0(2) [OF tf(1) link_frame_trans0(1) [OF quiet_link_frame [OF u] v(4)]] .
      with v u same a ne none t(4) show "Q () v"
        by (intro lost [of n' k' v w]) (simp_all add: quiet_world)
    qed
    moreover have "log_ok t" using log same by (simp add: log_ok_def)
    ultimately show ?thesis
      using n same by (auto simp: wp_get_node serialLinkIOError_def intro!: wp_serverLogErrno)
  qed
  have "wp (sys_write (link_fd to) (pending lk)) (\<lambda>nwrite. wp
     (if nwrite \<le> 0 then
        bnd (get_node (link_node to)) (\<lambda>ton.
        thn (serverLogErrno LL_ERROR (''I/O error writing to '' @ node_name ton @ '' (''
               @ show_int (link_fd to) @ '') node link''))
          (serialLinkIOError (Some b)))
      else
        bnd (get_node (link_node lk)) (\<lambda>fromn.
        bnd (get_node (link_node to)) (\<lambda>ton.
          serverLog LL_DEBUG (''Wrote '' @ show_int nwrite @ '' bytes from ''
            @ node_name fromn @ '' ('' @ show_int (link_fd lk) @ '') to ''
            @ node_name ton @ '' ('' @ show_int (link_fd to) @ '')'')))) Q E) E s"
  proof (rule wp_sys_write [OF fd], goal_cases)
    case (1 t)
    then show ?case using close [of t t "[]" "[]"] by (simp add: taken_def)
  next
    case (2 t)
    let ?d = "taken s (pending lk)" and ?t = "t\<lparr>trace := trace t @ [Wrote (link_fd to) (taken s (pending lk))]\<rparr>"
    show ?case
    proof (cases "?d = []")
      case True
      with 2 close [of t ?t "[Wrote (link_fd to) []]" "[(link_fd to, [])]"] show ?thesis by simp
    next
      case False
      have same: "nodes ?t = nodes s" "links ?t = links s" "logfile ?t = logfile s" "fds ?t = fds s"
        "interest ?t = interest s" "el ?t = el s"
        using 2(2) by (simp_all add: quiet_world quiet_ae)
      have tf: "link_frame [(link_fd to, ?d)] s ?t" "daemon_ok B ms vs ?t"
        using wrote_frame [OF quiet_link_frame [OF 2(2)], of "[Wrote (link_fd to) ?d]"] daemon_ok_quiet [OF wf 2(2)] by simp_all
      have "Q () u" if u: "quiet ?t u" for u
        using sent [of u] a(1) False link_frame_trans0(2) [OF tf(1) quiet_link_frame [OF u]]
          daemon_ok_quiet [OF tf(2) u] quiet_world [OF u] quiet_ae [OF u] same by simp
      moreover have "log_ok ?t" using log same by (simp add: log_ok_def)
      ultimately show ?thesis
        using False n m same by (auto simp: wp_get_node intro!: wp_serverLog)
    qed
  qed
  then show ?thesis
    using a len b by (simp add: serialWriteLink_def wp_get_link flip: pending_def)
qed

text \<open>Where a node's bytes come from: a virtual's master, a master's first writer.\<close>

definition source_of :: "(nat \<Rightarrow> serialNode option) \<Rightarrow> (nat \<Rightarrow> nat list) \<Rightarrow> nat \<Rightarrow> ptr" where
  "source_of N vs n =
     (if nodeIsVirtual (the (N n)) then node_link (the (N (the (virtualof (the (N n))))))
      else case find (writes N) (vs n) of None \<Rightarrow> None | Some v \<Rightarrow> node_link (the (N v)))"

lemma wp_serialWriteHandler:
  assumes wf: "daemon_ok B ms vs s" and a: "links s a = Some lk" "link_node lk = Some n"
    and link: "wp (serialWriteLink (source_of (nodes s) vs n) (Some a)) Q E s"
  shows "wp (serialWriteHandler (Some a)) Q E s"
proof -
  have reg: "reg_state s ms vs" using wf by (simp add: daemon_ok_def)
  obtain k where n: "nodes s n = Some k" using wf a by (auto elim: wf_link)
  from reg n show ?thesis
  proof (cases rule: reg_ok_cases)
    case (virtual m)
    obtain j where "nodes s m = Some j" using reg virtual(1) by (rule reg_ok_master)
    with virtual n a link show ?thesis
      by (simp add: serialWriteHandler_def wp_get_link wp_get_node source_of_def)
  next
    case master
    show ?thesis
    proof (cases "find (writes (nodes s)) (vs n)")
      case None
      with master n a link show ?thesis
        by (simp add: serialWriteHandler_def wp_get_link wp_get_node source_of_def
            wp_serialGetVirtualWriterNode [OF reg] serialWriteLink_def)
    next
      case (Some v)
      then have "v \<in> set (vs n)" by (auto simp: find_Some_iff)
      then obtain j where "nodes s v = Some j" using reg_ok_virtual [OF reg master(1)] by blast
      with Some master n a link show ?thesis
        by (simp add: serialWriteHandler_def wp_get_link wp_get_node source_of_def
            wp_serialGetVirtualWriterNode [OF reg])
    qed
  qed
qed

lemma source_of_link:
  assumes wf: "daemon_ok B ms vs s" and n: "nodes s n = Some k" and src: "source_of (nodes s) vs n = Some a"
  obtains lk where "links s a = Some lk"
proof -
  have reg: "reg_state s ms vs" using wf by (simp add: daemon_ok_def)
  have "\<exists>m j. nodes s m = Some j \<and> node_link j = Some a"
    using reg n
  proof (cases rule: reg_ok_cases)
    case (virtual m)
    obtain j where "nodes s m = Some j" using reg virtual(1) by (rule reg_ok_master)
    with virtual n src show ?thesis by (auto simp: source_of_def)
  next
    case master
    then obtain v where v: "find (writes (nodes s)) (vs n) = Some v" "node_link (the (nodes s v)) = Some a"
      using n src by (auto simp: source_of_def split: option.splits)
    then have "v \<in> set (vs n)" by (auto simp: find_Some_iff)
    then obtain j where "nodes s v = Some j" using reg_ok_virtual [OF reg master(1)] by blast
    with v show ?thesis by auto
  qed
  then show thesis using wf that by (blast elim: wf_node_link)
qed

section \<open>The event handler\<close>

text \<open>
  Whatever happens on a live link, the invariant is kept; the only undefined behaviour is the use of
  a link freed by the read handler when both directions are reported at once.
\<close>

lemma wp_serialWriteHandler_ok:
  assumes wf: "daemon_ok B ms vs s" and a: "links s a = Some lk"
  shows "wp (serialWriteHandler (Some a)) (\<lambda>_ t. daemon_ok B ms vs t \<and> (\<exists>w. link_frame w s t)) E s"
proof -
  obtain n k where n: "link_node lk = Some n" "nodes s n = Some k" using wf a by (rule wf_link)
  show ?thesis
  proof (rule wp_serialWriteHandler [OF wf a n(1)], cases "source_of (nodes s) vs n")
    case None
    with wf show "wp (serialWriteLink (source_of (nodes s) vs n) (Some a))
        (\<lambda>_ t. daemon_ok B ms vs t \<and> (\<exists>w. link_frame w s t)) E s"
      by (auto simp: serialWriteLink_def)
  next
    case (Some b)
    obtain lb where "links s b = Some lb" using wf n(2) Some by (rule source_of_link)
    then show "wp (serialWriteLink (source_of (nodes s) vs n) (Some a))
        (\<lambda>_ t. daemon_ok B ms vs t \<and> (\<exists>w. link_frame w s t)) E s"
      by (intro wp_serialWriteLink [OF wf a, of _ lb]) (use Some wf in auto)
  qed
qed

lemma wp_serialReadHandler_ok:
  assumes wf: "daemon_ok B ms vs s" and a: "links s a = Some lk"
  shows "wp (serialReadHandler (Some a))
    (\<lambda>_ t. daemon_ok B ms vs t \<and> link_frame [] s t) E s"
proof (rule wp_serialReadHandler [OF wf a], goal_cases)
  case (1 t)
  with wf show ?case by (auto intro: daemon_ok_quiet quiet_link_frame)
next
  case (2 t n k)
  then show ?case by simp
next
  case (3 t)
  have "link_frame [] s (s\<lparr>links := (links s)(a \<mapsto> received lk (arrived s))\<rparr>)" by simp
  from link_frame_trans0(1) [OF this quiet_link_frame [OF 3(2)]] 3 show ?case by simp
qed

lemma wp_serialEventHandler_ok:
  assumes wf: "daemon_ok B ms vs s" and a: "links s a = Some lk"
    and E: "m AND AE_READABLE \<noteq> 0 \<Longrightarrow> m AND AE_WRITABLE \<noteq> 0 \<Longrightarrow> E UseAfterFree"
  shows "wp (serialEventHandler fd (Some a) m) (\<lambda>_ t. daemon_ok B ms vs t \<and> (\<exists>w. link_frame w s t)) E s"
proof -
  let ?Q = "\<lambda>_ t. daemon_ok B ms vs t \<and> (\<exists>w. link_frame w s t)"
  have send: "wp (serialWriteHandler (Some a)) ?Q E t"
    if t: "daemon_ok B ms vs t" "link_frame [] s t" "links t a \<noteq> None" for t
  proof -
    from t(3) obtain l where "links t a = Some l" by auto
    with t(1) have "wp (serialWriteHandler (Some a)) (\<lambda>_ u. daemon_ok B ms vs u \<and> (\<exists>w. link_frame w t u)) E t"
      by (rule wp_serialWriteHandler_ok)
    then show ?thesis by (rule wp_weaken) (use t(2) in \<open>auto intro: link_frame_trans0(1)\<close>)
  qed
  have gone: "wp (serialWriteHandler (Some a)) ?Q E t" if "links t a = None" "E UseAfterFree" for t
    using that by (simp add: serialWriteHandler_def get_link_def)
  have either: "wp (serialWriteHandler (Some a)) ?Q E t"
    if "daemon_ok B ms vs t" "link_frame [] s t" "E UseAfterFree" for t
    using that send [of t] gone [of t] by (cases "links t a") auto
  show ?thesis
  proof (cases "m AND AE_READABLE \<noteq> 0")
    case True
    have "wp (serialReadHandler (Some a)) (\<lambda>_ t. wp (when_do (m AND AE_WRITABLE \<noteq> 0)
        (serialWriteHandler (Some a))) ?Q E t) E s"
      by (rule wp_weaken [OF wp_serialReadHandler_ok [OF wf a]]) (use True either E in auto)
    with True show ?thesis by (simp add: serialEventHandler_def when_do_def [of True] del: wp_when_do)
  next
    case False
    with wf a send [OF wf] show ?thesis by (auto simp: serialEventHandler_def)
  qed
qed

end
