(* ===== verification/Demo.thy ===== *)
theory Demo
  imports OptionSpec Traffic
begin

text \<open>
  Two concrete states: the daemon before it has read its files, and the daemon serving one master
  with one virtual node. They show that the hypotheses of the theorems can hold.
\<close>

definition no_reply :: reply where
  "no_reply = \<lparr>r_ok = False, r_errno = 5, r_data = [], r_num = 0, r_ready = [], r_sec = 0, r_usec = 0\<rparr>"

text \<open>Nothing configured, nothing open; the environment answers every call with \<open>r\<close>.\<close>

definition idle_world :: "reply \<Rightarrow> world" where
  "idle_world r =
     \<lparr>answers = (\<lambda>_. r), calls = 0, errno = 0, fds = [], interest = (\<lambda>_. None), speeds = [9600, 115200],
      strerror = (\<lambda>_. ''error''), trace = [],
      el = None, tevs = (\<lambda>_. None), tev_brk = 0,
      nodes = (\<lambda>_. None), node_brk = 0, links = (\<lambda>_. None), link_brk = 0,
      pid = 1, pidfile = None, logfile = Some [], configfile = None, shutdown = False, reload = False,
      daemonize = False, verbosity = 3, syslog = 0, maxclients = 1000, cronloops = 0,
      reconnect_interval = 5000, cron_event_id = -1, hz = 10, serial_configfile = None,
      master_head = None\<rparr>"

lemma idle_world_ok: "log_ok (idle_world r)"
  by (simp add: idle_world_def log_ok_def)

lemma idle_registry: "holds_registry (idle_world r) []"
  by (auto simp: holds_registry_def reg_rel_def reg_ok_def view_def areg_wf_def idle_world_def
      intro!: exI [of _ "[]"])

text \<open>An environment where every call succeeds and every file has the content \<open>file\<close>.\<close>

definition file_world :: "string \<Rightarrow> world" where
  "file_world file = idle_world (no_reply\<lparr>r_ok := True, r_data := file\<rparr>)"

lemma file_world_ok: "log_ok (file_world file)" "holds_registry (file_world file) []"
  unfolding file_world_def by (rule idle_world_ok, rule idle_registry)

lemma file_world_reply [simp]:
  "calls (file_world file) = 0" "r_data (answers (file_world file) i) = file" "r_ok (answers (file_world file) i)"
  "hz (file_world file) = 10" "reconnect_interval (file_world file) = 5000"
  by (simp_all add: file_world_def idle_world_def)

lemma file_world_all_ok [simp]: "all_ok (file_world file)"
  by (simp add: all_ok_def)

text \<open>The examples of the README, shortened.\<close>

definition readme_serial :: string where
  "readme_serial = ''[/dev/ttyS5]'' @ [newline_char] @ ''baudrate = 38400'' @ [newline_char]
     @ ''virtuals = a b c'' @ [newline_char] @ ''writer = a'' @ [newline_char]"

definition readme_system :: string where
  "readme_system = ''[system]'' @ [newline_char] @ ''hz = 10'' @ [newline_char]
     @ ''reconnect-interval = 500'' @ [newline_char]"

section \<open>One master, one virtual node\<close>

definition demo_master :: serialNode where
  "demo_master = \<lparr>node_name = ''/dev/ttyS1'', node_flags = SERIAL_FLAG_MASTER, virtual_head = Some 1,
     virtualof = None, baudrate = 9600, node_link = Some 0, node_next = None\<rparr>"

definition demo_virtual :: serialNode where
  "demo_virtual = \<lparr>node_name = ''/dev/ttyS1.app'', node_flags = SERIAL_FLAG_VIRTUAL, virtual_head = None,
     virtualof = Some 0, baudrate = 9600, node_link = Some 1, node_next = None\<rparr>"

definition demo_link :: "string \<Rightarrow> serialLink" where
  "demo_link buf = \<lparr>link_fd = 4, link_sfd = -1, recvbuf = buf, recvbuflen = int (length buf), link_node = Some 0\<rparr>"

definition demo_pty :: serialLink where
  "demo_pty = \<lparr>link_fd = 5, link_sfd = 6, recvbuf = [], recvbuflen = 0, link_node = Some 1\<rparr>"

definition demo_timer :: aeTimeEvent where
  "demo_timer = \<lparr>te_id = 0, when_sec = 0, when_ms = 0, timeProc = serverCron_fp, finalizerProc = None,
     te_clientData = None, te_next = None\<rparr>"

definition demo_loop :: aeEventLoop where
  "demo_loop = \<lparr>maxfd = 5, setsize = 8, timeEventNextId = 1, lastTime = 0,
     events = [blank_event, blank_event, blank_event, blank_event,
       \<lparr>fe_mask = AE_READABLE, rfileProc = Some serialEventHandler_fp, wfileProc = None, fe_clientData = Some 0\<rparr>,
       \<lparr>fe_mask = AE_WRITABLE, rfileProc = None, wfileProc = Some serialEventHandler_fp, fe_clientData = Some 1\<rparr>,
       blank_event, blank_event],
     fired = replicate 8 \<lparr>fired_fd = 0, fired_mask = 0\<rparr>,
     timeEventHead = Some 0, stop = False, epfd = 3, beforesleep = Some serverBeforeSleep_fp\<rparr>"

definition demo_world :: "(nat \<Rightarrow> reply) \<Rightarrow> string \<Rightarrow> world" where
  "demo_world ans buf = (idle_world no_reply)
     \<lparr>answers := ans, fds := [6, 5, 4, 3], interest := [4 \<mapsto> EPOLLIN, 5 \<mapsto> EPOLLOUT],
      el := Some demo_loop, tevs := [0 \<mapsto> demo_timer], tev_brk := 1, cron_event_id := 0,
      nodes := [0 \<mapsto> demo_master, 1 \<mapsto> demo_virtual], node_brk := 2,
      links := [0 \<mapsto> demo_link buf, 1 \<mapsto> demo_pty], link_brk := 2, master_head := Some 0\<rparr>"

definition demo_virtuals :: "nat \<Rightarrow> nat list" where
  "demo_virtuals m = (if m = 0 then [1] else [])"

lemma demo_registry: "reg_ok (nodes (demo_world ans buf)) (Some 0) 2 [0] demo_virtuals"
  by (auto simp: reg_ok_def master_ok_def demo_world_def demo_virtuals_def demo_master_def
      demo_virtual_def nodeIsMaster_def nodeIsVirtual_def)

lemma demo_evmask: "evmask demo_loop = (\<lambda>_. AE_NONE)(4 := AE_READABLE, 5 := AE_WRITABLE)"
proof
  fix fd :: int
  consider "fd < 0" | "fd = 0" | "fd = 1" | "fd = 2" | "fd = 3" | "fd = 4" | "fd = 5" | "fd = 6"
    | "fd = 7" | "fd \<ge> 8" by linarith
  then show "evmask demo_loop fd = ((\<lambda>_. AE_NONE)(4 := AE_READABLE, 5 := AE_WRITABLE)) fd"
    by cases (simp_all add: evmask_def demo_loop_def blank_event_def)
qed

lemma demo_table: "table_ok demo_loop (interest (demo_world ans buf))"
  unfolding table_ok_def is_highest_def demo_evmask
  by (auto simp: demo_world_def watch_def epoll_events_of_def demo_loop_def)

lemma demo_flags:
  "ev_flags (nodes (demo_world ans buf)) demo_virtuals 0 = AE_READABLE"
  "ev_flags (nodes (demo_world ans buf)) demo_virtuals 1 = AE_WRITABLE"
  by (simp_all add: ev_flags_def demo_world_def demo_virtuals_def demo_master_def demo_virtual_def
      writes_def nodeIsMaster_def nodeIsWriter_def)

lemma demo_links:
  assumes buf: "length buf \<le> BUFSIZ" and link: "node_link m = Some 0" "node_link v = Some 1"
    and ev: "\<And>fd. evmask L fd \<noteq> AE_NONE \<Longrightarrow> (fd = 4 \<or> fd = 5)
      \<and> event_ok flags [0 \<mapsto> demo_link buf, 1 \<mapsto> demo_pty] fd (events L ! nat fd)"
  shows "links_ok {3} [0 \<mapsto> m, 1 \<mapsto> v] flags [0 \<mapsto> demo_link buf, 1 \<mapsto> demo_pty] 2 [6, 5, 4, 3] L"
proof -
  define K where "K = (\<lambda>_::nat. None)(0 \<mapsto> demo_link buf, 1 \<mapsto> demo_pty)"
  define N where "N = (\<lambda>_::nat. None)(0 \<mapsto> m, 1 \<mapsto> v)"
  have fds: "fds_of (demo_link buf) = {4}" "fds_of demo_pty = {5, 6}"
    by (auto simp: fds_of_def demo_link_def demo_pty_def)
  have all: "link_fds K = {4, 5, 6}" by (simp add: K_def link_fds_def fds)
  have which: "a = 0 \<and> lk = demo_link buf \<or> a = 1 \<and> lk = demo_pty" if "K a = Some lk" for a lk
    using that by (auto simp: K_def split: if_splits)
  have "link_ok N 0 (demo_link buf)" "link_ok N 1 demo_pty"
    using buf link by (simp_all add: N_def link_ok_def buf_ok_def demo_link_def demo_pty_def)
  then have "link_ok N a lk" if "K a = Some lk" for a lk
    using which [OF that] by auto
  moreover have "fds_of lk \<inter> fds_of lk' = {}" if "K a = Some lk" "K b = Some lk'" "a \<noteq> b" for a b lk lk'
    using which [OF that(1)] which [OF that(2)] that(3) by (auto simp: fds)
  moreover have "\<exists>lk. K a = Some lk \<and> link_node lk = Some n" if "N n = Some k" "node_link k = Some a" for n k a
  proof -
    have "n = 0 \<and> k = m \<or> n = 1 \<and> k = v" using that(1) by (auto simp: N_def split: if_splits)
    with that(2) link show ?thesis by (auto simp: K_def demo_link_def demo_pty_def)
  qed
  moreover have "set [6, 5, 4, 3] = {3} \<union> link_fds K" "{3} \<inter> link_fds K = {}" "dom K \<subseteq> {..<2}"
    unfolding all by (auto simp: K_def)
  moreover have "event_ok flags K fd (events L ! nat fd)" if "evmask L fd \<noteq> AE_NONE" for fd
    using ev [OF that] by (simp only: K_def)
  ultimately have "links_ok {3} N flags K 2 [6, 5, 4, 3] L" unfolding links_ok_def by simp
  then show ?thesis by (simp only: K_def N_def)
qed

lemma demo_ok:
  assumes "length buf \<le> BUFSIZ"
  shows "daemon_ok {3} [0] demo_virtuals (demo_world ans buf)"
proof -
  let ?s = "demo_world ans buf"
  have "(fd = 4 \<or> fd = 5) \<and> event_ok (ev_flags (nodes ?s) demo_virtuals) [0 \<mapsto> demo_link buf, 1 \<mapsto> demo_pty] fd
      (events demo_loop ! nat fd)" if "evmask demo_loop fd \<noteq> AE_NONE" for fd
  proof -
    have "fd = 4 \<or> fd = 5" using that unfolding demo_evmask by (auto split: if_splits)
    with demo_flags [of ans buf] show ?thesis
      by (elim disjE) (simp_all add: event_ok_def demo_loop_def demo_link_def demo_pty_def)
  qed
  with assms have "links_ok {3} [0 \<mapsto> demo_master, 1 \<mapsto> demo_virtual] (ev_flags (nodes ?s) demo_virtuals)
      [0 \<mapsto> demo_link buf, 1 \<mapsto> demo_pty] 2 [6, 5, 4, 3] demo_loop"
    by (intro demo_links) (simp_all add: demo_master_def demo_virtual_def)
  then show ?thesis
    using demo_registry [of ans buf] demo_table [of ans buf]
    by (simp add: daemon_ok_def) (simp add: demo_world_def idle_world_def)
qed

section \<open>After a poll\<close>

text \<open>The same state with fired entries \<open>fs\<close>, and one whose virtual node is the writer.\<close>

definition polled_world :: "(nat \<Rightarrow> reply) \<Rightarrow> string \<Rightarrow> aeFiredEvent list \<Rightarrow> world" where
  "polled_world ans buf fs = (demo_world ans buf)\<lparr>el := Some (demo_loop\<lparr>fired := fs\<rparr>)\<rparr>"

definition demo_writer :: serialNode where
  "demo_writer = demo_virtual\<lparr>node_flags := SERIAL_FLAG_VIRTUAL OR SERIAL_FLAG_WRITER\<rparr>"

definition duplex_event :: "nat \<Rightarrow> aeFileEvent" where
  "duplex_event a = \<lparr>fe_mask = AE_READABLE OR AE_WRITABLE, rfileProc = Some serialEventHandler_fp,
     wfileProc = Some serialEventHandler_fp, fe_clientData = Some a\<rparr>"

definition duplex_loop :: "aeFiredEvent list \<Rightarrow> aeEventLoop" where
  "duplex_loop fs = demo_loop\<lparr>events := [blank_event, blank_event, blank_event, blank_event, duplex_event 0,
     duplex_event 1, blank_event, blank_event], fired := fs\<rparr>"

definition duplex_world :: "(nat \<Rightarrow> reply) \<Rightarrow> string \<Rightarrow> aeFiredEvent list \<Rightarrow> world" where
  "duplex_world ans buf fs = (demo_world ans buf)\<lparr>nodes := [0 \<mapsto> demo_master, 1 \<mapsto> demo_writer],
     interest := [4 \<mapsto> EPOLLIN OR EPOLLOUT, 5 \<mapsto> EPOLLIN OR EPOLLOUT], el := Some (duplex_loop fs)\<rparr>"

lemma duplex_evmask:
  "evmask (duplex_loop fs) = (\<lambda>_. AE_NONE)(4 := AE_READABLE OR AE_WRITABLE, 5 := AE_READABLE OR AE_WRITABLE)"
proof
  fix fd :: int
  consider "fd < 0" | "fd = 0" | "fd = 1" | "fd = 2" | "fd = 3" | "fd = 4" | "fd = 5" | "fd = 6"
    | "fd = 7" | "fd \<ge> 8" by linarith
  then show "evmask (duplex_loop fs) fd =
      ((\<lambda>_. AE_NONE)(4 := AE_READABLE OR AE_WRITABLE, 5 := AE_READABLE OR AE_WRITABLE)) fd"
    by cases (simp_all add: evmask_def duplex_loop_def demo_loop_def duplex_event_def blank_event_def)
qed

lemma duplex_ok:
  assumes "length buf \<le> BUFSIZ" and "length fs = 8"
  shows "daemon_ok {3} [0] demo_virtuals (duplex_world ans buf fs)"
proof -
  let ?s = "duplex_world ans buf fs"
  let ?L = "duplex_loop fs"
  have reg: "reg_ok (nodes ?s) (Some 0) 2 [0] demo_virtuals"
    by (auto simp: reg_ok_def master_ok_def duplex_world_def demo_virtuals_def demo_master_def demo_writer_def
        demo_virtual_def nodeIsMaster_def nodeIsVirtual_def)
  have table: "table_ok ?L (interest ?s)"
    unfolding table_ok_def is_highest_def duplex_evmask using assms(2)
    by (auto simp: duplex_world_def watch_def epoll_events_of_def duplex_loop_def demo_loop_def)
  have flags: "ev_flags (nodes ?s) demo_virtuals 0 = AE_READABLE OR AE_WRITABLE"
    "ev_flags (nodes ?s) demo_virtuals 1 = AE_READABLE OR AE_WRITABLE"
    by (simp_all add: ev_flags_def duplex_world_def demo_virtuals_def demo_master_def demo_writer_def demo_virtual_def
        writes_def nodeIsMaster_def nodeIsWriter_def)
  have "(fd = 4 \<or> fd = 5) \<and> event_ok (ev_flags (nodes ?s) demo_virtuals) [0 \<mapsto> demo_link buf, 1 \<mapsto> demo_pty] fd
      (events ?L ! nat fd)" if "evmask ?L fd \<noteq> AE_NONE" for fd
  proof -
    have "fd = 4 \<or> fd = 5" using that unfolding duplex_evmask by (auto split: if_splits)
    with flags show ?thesis
      by (elim disjE) (simp_all add: event_ok_def duplex_loop_def duplex_event_def demo_link_def demo_pty_def)
  qed
  with assms have "links_ok {3} [0 \<mapsto> demo_master, 1 \<mapsto> demo_writer] (ev_flags (nodes ?s) demo_virtuals)
      [0 \<mapsto> demo_link buf, 1 \<mapsto> demo_pty] 2 [6, 5, 4, 3] ?L"
    by (intro demo_links) (simp_all add: demo_master_def demo_virtual_def demo_writer_def)
  with reg table show ?thesis
    by (simp add: daemon_ok_def) (simp add: duplex_world_def demo_world_def idle_world_def)
qed

section \<open>The same daemon before it opened a link\<close>

definition unplugged :: "serialNode \<Rightarrow> serialNode" where
  "unplugged n = n\<lparr>node_link := None\<rparr>"

definition new_loop :: aeEventLoop where
  "new_loop = demo_loop\<lparr>maxfd := -1, events := replicate 8 blank_event\<rparr>"

definition new_world :: "(nat \<Rightarrow> reply) \<Rightarrow> world" where
  "new_world ans = (demo_world ans [])
     \<lparr>fds := [3], interest := (\<lambda>_. None), el := Some new_loop, links := (\<lambda>_. None), link_brk := 0,
      nodes := [0 \<mapsto> unplugged demo_master, 1 \<mapsto> unplugged demo_virtual]\<rparr>"

lemma new_loop_table: "table_ok new_loop (\<lambda>_. None)" "evmask new_loop = (\<lambda>_. AE_NONE)"
proof -
  show mask: "evmask new_loop = (\<lambda>_. AE_NONE)"
    by (auto simp: evmask_def new_loop_def demo_loop_def blank_event_def nth_Cons' fun_eq_iff)
  show "table_ok new_loop (\<lambda>_. None)"
    by (simp add: table_ok_def is_highest_def mask watch_def) (simp add: new_loop_def demo_loop_def)
qed

lemma new_ok: "daemon_ok {3} [0] demo_virtuals (new_world ans)"
proof -
  let ?s = "new_world ans"
  have same: "same_shape (nodes (demo_world ans [])) (nodes ?s)"
    by (simp add: same_shape_def new_world_def demo_world_def unplugged_def shape_def
        nodeIsMaster_def nodeIsVirtual_def)
  have "reg_ok (nodes ?s) (Some 0) 2 [0] demo_virtuals"
    using same demo_registry by (rule reg_ok_shape)
  then have "daemon_ok (set (fds ?s)) [0] demo_virtuals ?s"
    using new_loop_table by (intro daemon_ok_unlinked [where L = new_loop])
      (auto simp: new_world_def demo_world_def idle_world_def linkof_def unplugged_def fun_eq_iff)
  then show ?thesis by (simp add: new_world_def)
qed

end
