(* ===== verification/IniRound.thy ===== *)
theory IniRound
  imports IniSpec
begin

text \<open>
  Printing and parsing INI files: a printer for files of sections and pairs, and the proof that the parser
  of \<open>src/ini.c\<close> reads back what was printed, for names and values it can represent.
\<close>

section \<open>The printer\<close>

datatype ini_item = Section string | Pair string string

fun print_item :: "ini_item \<Rightarrow> string" where
  "print_item (Section s) = CHR ''['' # s @ '']''"
| "print_item (Pair n v) = n @ CHR ''='' # v"

definition print_ini :: "ini_item list \<Rightarrow> string" where
  "print_ini is = concat (map (\<lambda>i. print_item i @ [newline_char]) is)"

fun item_triples :: "string \<Rightarrow> ini_item list \<Rightarrow> triple list" where
  "item_triples sect [] = []"
| "item_triples sect (Section s # is) = item_triples s is"
| "item_triples sect (Pair n v # is) = (sect, n, v) # item_triples sect is"

text \<open>What can be written: one line, no comment character, no white space at the ends.\<close>

definition plain :: "string \<Rightarrow> bool" where
  "plain s \<longleftrightarrow> newline_char \<notin> set s \<and> NUL \<notin> set s \<and> CHR '';'' \<notin> set s"

definition trimmed :: "string \<Rightarrow> bool" where
  "trimmed s \<longleftrightarrow> s = [] \<or> \<not> isspace (hd s) \<and> \<not> isspace (last s)"

fun item_ok :: "ini_item \<Rightarrow> bool" where
  "item_ok (Section s) \<longleftrightarrow> plain s \<and> CHR '']'' \<notin> set s \<and> length s < MAX_SECTION"
| "item_ok (Pair n v) \<longleftrightarrow> plain n \<and> plain v \<and> trimmed n \<and> trimmed v \<and> n \<noteq> []
     \<and> CHR ''='' \<notin> set n \<and> CHR '':'' \<notin> set n \<and> hd n \<noteq> CHR ''['' \<and> hd n \<noteq> CHR ''#''
     \<and> hd n \<noteq> CHR 0xEF \<and> length n + length v < INI_MAX_LINE - 2"

section \<open>The string helpers on printed lines\<close>

lemma find_from_stop:
  assumes "set s \<inter> set k = {}" and "CHR '';'' \<notin> set s" and "c \<in> set k"
  shows "find_from b (s @ c # rest) (Some k) = length s"
  using assms(1,2)
proof (induction s arbitrary: b)
  case (Cons d s)
  then have "d \<notin> set k" "d \<noteq> CHR '';''" "set s \<inter> set k = {}" "CHR '';'' \<notin> set s" by auto
  with Cons.IH [of "isspace d"] show ?case by simp
qed (use assms(3) in simp)

lemma find_from_end: "CHR '';'' \<notin> set s \<Longrightarrow> find_from b s None = length s"
  by (induction s arbitrary: b) auto

lemma rstrip_newline [simp]: "rstrip (s @ [newline_char]) = rstrip s"
  by (simp add: rstrip_def isspace_def newline_char_def)

lemma rstrip_trimmed: "s = [] \<or> \<not> isspace (last s) \<Longrightarrow> rstrip s = s"
  by (cases s rule: rev_cases) (auto simp: rstrip_def)

lemma lskip_trimmed: "s = [] \<or> \<not> isspace (hd s) \<Longrightarrow> lskip s = s"
  by (cases s) (auto simp: lskip_def)

lemma cstr_plain: "NUL \<notin> set s \<Longrightarrow> cstr s = s"
  by (auto simp: cstr_def takeWhile_eq_all_conv)

lemma newline_not_NUL [simp]: "newline_char \<noteq> NUL" "NUL \<noteq> newline_char"
  by (simp_all add: newline_char_def NUL_def)

lemma item_line:
  assumes "item_ok i"
  shows "newline_char \<notin> set (print_item i)" "NUL \<notin> set (print_item i)" "length (print_item i) < INI_MAX_LINE - 1"
    "print_item i \<noteq> []" "\<not> isspace (hd (print_item i))" "\<not> isspace (last (print_item i))"
    "hd (print_item i) \<noteq> CHR 0xEF"
  using assms
  by (cases i; auto simp: plain_def trimmed_def isspace_def newline_char_def NUL_def hd_append)+

section \<open>One line\<close>

lemma ini_line_printed:
  assumes ok: "item_ok i" and P: "print_item i = c # rest"
  shows "ini_line handler v (c # rest @ [newline_char]) =
      (let v = v\<lparr>lineno := Suc (lineno v)\<rparr> in
       if c = CHR '';'' \<or> c = CHR ''#'' then ret v
       else if c = CHR ''['' then ret (section_line v rest)
       else pair_line handler v (c # rest))"
proof -
  note line = item_line [OF ok, unfolded P]
  have "cstr (c # rest @ [newline_char]) = c # rest @ [newline_char]" using line(2) by (intro cstr_plain) simp
  moreover have "rstrip (c # rest @ [newline_char]) = c # rest"
    using rstrip_newline [of "c # rest"] line(6) by (simp add: rstrip_trimmed)
  moreover have "lskip (c # rest) = c # rest" using line(5) by (simp add: lskip_trimmed)
  moreover have "take 3 (c # rest @ [newline_char]) \<noteq> BOM" using line(7) by (simp add: BOM_def numeral_eq_Suc)
  ultimately show ?thesis by (simp add: ini_line_def Let_def)
qed

lemma section_line_printed:
  assumes "item_ok (Section s)"
  shows "section_line v (s @ '']'') = v\<lparr>ini_section := s, prev_name := []\<rparr>"
proof -
  have "find_from False (s @ '']'') (Some '']'') = length s"
    using assms by (intro find_from_stop) (auto simp: plain_def)
  moreover have "strncpy0 s MAX_SECTION = s" using assms by (simp add: strncpy0_def)
  ultimately show ?thesis
    by (simp add: section_line_def find_chars_or_comment_def char_at_def)
qed

lemma pair_line_printed:
  assumes "item_ok (Pair n x)" and acc: "acc (ini_section v, n, x)"
  shows "pair_line (collect acc) v (n @ CHR ''='' # x) l
    = Inr (v\<lparr>prev_name := strncpy0 n MAX_NAME\<rparr>, l @ [(ini_section v, n, x)])"
proof -
  have "find_from False (n @ CHR ''='' # x) (Some ''=:'') = length n"
    using assms(1) by (intro find_from_stop) (auto simp: plain_def)
  moreover have "find_from False x None = length x" using assms(1) by (intro find_from_end) (simp add: plain_def)
  moreover have "rstrip n = n" "rstrip x = x" "lskip x = x"
    using assms(1) by (auto intro!: rstrip_trimmed lskip_trimmed simp: trimmed_def)
  ultimately show ?thesis
    using acc by (simp add: pair_line_def find_chars_or_comment_def char_at_def Let_def
        call_handler_def collect_def run_defs)
qed

lemma ini_line_item:
  assumes ok: "item_ok i" and acc: "\<forall>x\<in>set (item_triples (ini_section v) [i]). acc x"
  shows "ini_line (collect acc) v (print_item i @ [newline_char]) l = (case i of
      Section s \<Rightarrow> Inr (v\<lparr>lineno := Suc (lineno v), ini_section := s, prev_name := []\<rparr>, l)
    | Pair n x \<Rightarrow> Inr (v\<lparr>lineno := Suc (lineno v), prev_name := strncpy0 n MAX_NAME\<rparr>, l @ [(ini_section v, n, x)]))"
proof (cases i)
  case (Section s)
  then show ?thesis
    using ini_line_printed [where handler = "collect acc", OF ok, of "CHR ''[''" "s @ '']''"] section_line_printed [of s] ok
    by (simp add: Let_def run_defs)
next
  case (Pair n x)
  then obtain c cs where n: "n = c # cs" using ok by (cases n) auto
  have "c \<noteq> CHR ''[''" "c \<noteq> CHR ''#''" "c \<noteq> CHR '';''" using ok Pair n by (auto simp: plain_def)
  then show ?thesis
    using ini_line_printed [where handler = "collect acc", OF ok, of c "cs @ CHR ''='' # x"] pair_line_printed [of n x acc "v\<lparr>lineno := Suc (lineno v)\<rparr>"] ok acc Pair n
    by (simp add: Let_def)
qed

section \<open>The whole file\<close>

lemma ini_loop_items:
  assumes "\<forall>i\<in>set is. item_ok i" and "length (print_ini is) < fuel"
    and "\<forall>x\<in>set (item_triples (ini_section v) is). acc x"
  shows "loop fuel (ini_body fgets (collect acc)) (print_ini is, v) l
    = Inr (int (ini_error v), l @ item_triples (ini_section v) is)"
  using assms
proof (induction "is" arbitrary: fuel v l)
  case Nil
  then show ?case by (cases fuel) (simp_all add: loop.simps(2) ini_body_def print_ini_def fgets_def run_defs)
next
  case (Cons i "is")
  obtain f where fuel: "fuel = Suc f" using Cons.prems(2) by (cases fuel) auto
  have i: "item_ok i" using Cons.prems(1) by simp
  have content: "print_ini (i # is) = print_item i @ newline_char # print_ini is" by (simp add: print_ini_def)
  then have "fgets INI_MAX_LINE (print_ini (i # is)) = Some (print_item i @ [newline_char], print_ini is)"
    using read_line_newline [OF item_line(1,3) [OF i]] by (simp add: fgets_def)
  note step = ini_loop_line [OF this]
  have rest: "\<forall>i\<in>set is. item_ok i" "length (print_ini is) < f"
    using Cons.prems fuel content by simp_all
  have "\<forall>x\<in>set (item_triples (ini_section v) [i]). acc x" using Cons.prems(3) by (cases i) simp_all
  note line = ini_line_item [where acc = acc, OF i this]
  show ?case
    using Cons.IH [OF rest] Cons.prems(3) line unfolding fuel step by (cases i) (simp_all add: bnd_def)
qed

lemma ini_parse_print:
  assumes "\<forall>i\<in>set is. item_ok i" and "\<forall>x\<in>set (item_triples [] is). acc x"
  shows "ini_parse_file (print_ini is) (collect acc) [] = Inr (0, item_triples [] is)"
  using ini_loop_items [where v = ini_init and l = "[]" and acc = acc, OF assms(1) lessI] assms(2)
  by (simp add: ini_parse_file_def ini_parse_stream_def ini_init_def)

lemma ini_triples_print:
  assumes "\<forall>i\<in>set is. item_ok i" and "\<forall>x\<in>set (item_triples [] is). acc x"
  shows "ini_triples acc (print_ini is) = item_triples [] is"
  by (simp add: ini_triples_def ini_parse_print [OF assms])

end
