(* ===== verification/ConfigRound.thy ===== *)
theory ConfigRound
  imports IniRound ConfigSpec
begin

text \<open>
  Printing and loading the serial configuration file: a printer for device descriptions, and the proof
  that the file it writes describes exactly these devices to the daemon.
\<close>

section \<open>Numbers\<close>

lemma digit_char:
  assumes "n < 10"
  shows "isdigit (''0123456789'' ! n) \<and> of_char (''0123456789'' ! n) = int n + 48"
proof -
  from assms have "n \<in> {0, 1, 2, 3, 4, 5, 6, 7, 8, 9}" by auto
  then show ?thesis by (auto simp: isdigit_def)
qed

lemma digits_value_append:
  "\<forall>c\<in>set s. isdigit c \<Longrightarrow> digits_value acc (s @ t) = digits_value (digits_value acc s) t"
  by (induction s arbitrary: acc) auto

lemma show_nat_digits: "(\<forall>c\<in>set (show_nat n). isdigit c) \<and> show_nat n \<noteq> [] \<and> digits_value 0 (show_nat n) = int n"
proof (induction n rule: show_nat.induct)
  case (1 n)
  show ?case
  proof (cases "n < 10")
    case True
    then show ?thesis using digit_char [OF True] by (simp add: show_nat.simps [of n])
  next
    case False
    have d: "n mod 10 < 10" by simp
    have "int (n div 10) * 10 + int (n mod 10) = int n" by (simp add: zmod_int zdiv_int)
    then show ?thesis
      using "1.IH" [OF False] digit_char [OF d] False
      by (auto simp: show_nat.simps [of n] digits_value_append)
  qed
qed

lemma length_show_nat: "n < 10 ^ k \<Longrightarrow> 0 < k \<Longrightarrow> length (show_nat n) \<le> k"
proof (induction k arbitrary: n)
  case (Suc k)
  show ?case
  proof (cases "n < 10")
    case False
    with Suc.prems(1) have "0 < k" by (cases k) auto
    moreover have "n div 10 < 10 ^ k" using Suc.prems(1) by (simp add: less_mult_imp_div_less mult.commute)
    ultimately show ?thesis using Suc.IH [of "n div 10"] False by (simp add: show_nat.simps [of n])
  qed (simp add: show_nat.simps [of n])
qed simp

lemma digit_facts: "isdigit c \<Longrightarrow> \<not> isspace c \<and> c \<noteq> CHR ''-'' \<and> c \<noteq> CHR ''+'' \<and> c \<noteq> CHR '';'' \<and> c \<noteq> NUL"
  by (auto simp: isdigit_def isspace_def NUL_def)

lemma show_nat_Cons:
  obtains c cs where "show_nat n = c # cs" "isdigit c" "\<forall>c\<in>set cs. isdigit c"
  using show_nat_digits [of n] by (cases "show_nat n") auto

lemma strtol_show_int:
  assumes "- 9223372036854775808 \<le> i" and "i \<le> 9223372036854775807"
  shows "strtol10 (show_int i) = i"
proof (cases "i < 0")
  case True
  have "digits_value 0 (show_nat (nat (- i))) = - i" using show_nat_digits [of "nat (- i)"] True by simp
  then show ?thesis using True assms by (simp add: strtol10_def show_int_def isspace_def Let_def)
next
  case False
  obtain c cs where n: "show_nat (nat i) = c # cs" "isdigit c" by (rule show_nat_Cons)
  have "digits_value 0 (c # cs) = i"
    using show_nat_digits [of "nat i"] False n(1) by (simp del: digits_value.simps)
  then show ?thesis
    using False assms digit_facts [OF n(2)] by (simp add: strtol10_def show_int_def n(1) Let_def del: digits_value.simps)
qed

lemma atoi_show_int: "INT_MIN \<le> i \<Longrightarrow> i \<le> INT_MAX \<Longrightarrow> atoi (show_int i) = i"
  by (simp add: atoi_def strtol_show_int to_int32_def INT_MIN_def INT_MAX_def)

text \<open>Text that may stand at the right of an \<open>=\<close>, apart from its length: no blank at its ends.\<close>

definition clean :: "string \<Rightarrow> bool" where
  "clean s \<longleftrightarrow> plain s \<and> trimmed s"

definition word_ok :: "string \<Rightarrow> bool" where
  "word_ok t \<longleftrightarrow> t \<noteq> [] \<and> (\<forall>c\<in>set t. \<not> isspace c \<and> c \<noteq> CHR '';'' \<and> c \<noteq> NUL)"

lemma word_clean: "word_ok t \<Longrightarrow> clean t"
  by (auto simp: word_ok_def clean_def plain_def trimmed_def isspace_def newline_char_def)

lemma show_int_word:
  assumes "INT_MIN \<le> i" and "i \<le> INT_MAX"
  shows "word_ok (show_int i) \<and> length (show_int i) \<le> 11"
proof -
  have len: "length (show_nat n) \<le> 10" if "n \<le> 2147483648" for n using that by (intro length_show_nat) auto
  have w: "word_ok (show_nat n)" for n
    using show_nat_digits [of n] digit_facts unfolding word_ok_def by blast
  show ?thesis
  proof (cases "i < 0")
    case True
    have "word_ok (CHR ''-'' # show_nat (nat (- i)))"
      using w [of "nat (- i)"] by (simp add: word_ok_def isspace_def NUL_def)
    with True show ?thesis using len [of "nat (- i)"] assms by (simp add: show_int_def INT_MIN_def)
  next
    case False
    then show ?thesis using w [of "nat i"] len [of "nat i"] assms by (simp add: show_int_def INT_MAX_def nat_le_iff)
  qed
qed

section \<open>Lists of names\<close>

fun join :: "string list \<Rightarrow> string" where
  "join [] = []"
| "join [t] = t"
| "join (t # u # ts) = t @ CHR '' '' # join (u # ts)"

lemma strtok_word:
  assumes "word_ok t" and "rest = [] \<or> hd rest = CHR '' ''"
  shows "strtok_tokens (t @ rest) = t # strtok_tokens rest"
proof -
  obtain c cs where t: "t = c # cs" using assms(1) by (cases t) (auto simp: word_ok_def)
  have sp: "\<And>x. x \<in> set t \<Longrightarrow> x \<noteq> CHR '' ''" using assms(1) by (auto simp: word_ok_def isspace_def)
  then have "\<forall>x\<in>set cs. x \<noteq> CHR '' ''" by (simp add: t)
  then have "takeWhile (\<lambda>c. c \<noteq> CHR '' '') (cs @ rest) = cs" "dropWhile (\<lambda>c. c \<noteq> CHR '' '') (cs @ rest) = rest"
    using assms(2) by (cases rest; simp add: takeWhile_append dropWhile_append)+
  then show ?thesis using sp [of c] by (simp add: t strtok_tokens.simps [of "c # cs @ rest"])
qed

lemma strtok_nil: "strtok_tokens [] = []"
  by (simp add: strtok_tokens.simps)

lemma strtok_space: "strtok_tokens (CHR '' '' # s) = strtok_tokens s"
  by (simp add: strtok_tokens.simps [of "CHR '' '' # s"] strtok_tokens.simps [of s])

lemma strtok_join: "\<forall>t\<in>set ts. word_ok t \<Longrightarrow> strtok_tokens (join ts) = ts"
proof (induction ts rule: join.induct)
  case (2 t)
  then show ?case using strtok_word [of t "[]"] by (simp add: strtok_nil)
next
  case (3 t u ts)
  then show ?case using strtok_word [of t "CHR '' '' # join (u # ts)"] by (simp add: strtok_space)
qed (simp add: strtok_nil)

lemma join_clean: "\<forall>t\<in>set ts. word_ok t \<Longrightarrow> clean (join ts)"
proof (induction ts rule: join.induct)
  case (3 t u ts)
  then have "clean t" "clean (join (u # ts))" "t \<noteq> []" "join (u # ts) \<noteq> []"
    by (auto simp: word_clean word_ok_def join.simps intro: join.elims)
  then show ?case by (simp add: clean_def plain_def trimmed_def hd_append newline_char_def NUL_def)
qed (simp_all add: word_clean, simp add: clean_def plain_def trimmed_def)

section \<open>Devices\<close>

text \<open>A device of the file: its name, its rate, the suffixes of its virtual nodes, and the one that writes.\<close>

record device =
  dev_name :: string
  dev_rate :: int
  dev_suffixes :: "string list"
  dev_writer :: "string option"

definition device_items :: "device \<Rightarrow> ini_item list" where
  "device_items d =
     [Section (dev_name d), Pair ''baudrate'' (show_int (dev_rate d)), Pair ''virtuals'' (join (dev_suffixes d))]
     @ (case dev_writer d of None \<Rightarrow> [] | Some w \<Rightarrow> [Pair ''writer'' w])"

definition print_devices :: "device list \<Rightarrow> string" where
  "print_devices ds = print_ini (concat (map device_items ds))"

definition device_ok :: "device \<Rightarrow> bool" where
  "device_ok d \<longleftrightarrow> item_ok (Section (dev_name d)) \<and> INT_MIN \<le> dev_rate d \<and> dev_rate d \<le> INT_MAX
     \<and> distinct (dev_suffixes d) \<and> (\<forall>t\<in>set (dev_suffixes d). word_ok t)
     \<and> length (join (dev_suffixes d)) < 190 \<and> dev_writer d \<in> insert None (Some ` set (dev_suffixes d))"

text \<open>What the daemon makes of a device: the nodes of its list are in reverse order.\<close>

definition device_master :: "device \<Rightarrow> amaster" where
  "device_master d = \<lparr>am_name = dev_name d, am_baud = dev_rate d,
     am_virtuals = map (\<lambda>t. (vname (dev_name d) t, dev_writer d = Some t)) (rev (dev_suffixes d))\<rparr>"

lemma length_join: "t \<in> set ts \<Longrightarrow> length t \<le> length (join ts)"
  by (induction ts rule: join.induct) auto

lemma pair_ok:
  "n \<in> {''baudrate'', ''virtuals'', ''writer''} \<Longrightarrow> clean v \<Longrightarrow> length v < 190 \<Longrightarrow> item_ok (Pair n v)"
  by (auto simp: clean_def) (auto simp: plain_def trimmed_def newline_char_def NUL_def isspace_def)

lemma device_items_ok:
  assumes ok: "device_ok d" and i: "i \<in> set (device_items d)"
  shows "item_ok i"
proof -
  have "clean (show_int (dev_rate d)) \<and> length (show_int (dev_rate d)) < 190"
    using show_int_word [of "dev_rate d"] ok by (auto simp: device_ok_def word_clean)
  moreover have "clean (join (dev_suffixes d)) \<and> length (join (dev_suffixes d)) < 190"
    using join_clean ok by (simp add: device_ok_def)
  moreover have "clean w \<and> length w < 190" if "dev_writer d = Some w" for w
    using ok that length_join [of w "dev_suffixes d"] by (auto simp: device_ok_def word_clean)
  ultimately show ?thesis
    using i ok pair_ok unfolding device_items_def device_ok_def
    by (cases "dev_writer d") (simp_all del: item_ok.simps, blast+)
qed

lemma keys [simp]:
  "strcaseeq ''baudrate'' ''baudrate''" "\<not> strcaseeq ''virtuals'' ''baudrate''" "strcaseeq ''virtuals'' ''virtuals''"
  "\<not> strcaseeq ''writer'' ''baudrate''" "\<not> strcaseeq ''writer'' ''virtuals''" "strcaseeq ''writer'' ''writer''"
  by (simp_all add: strcaseeq_def tolower_def)

lemma item_triples_device:
  "item_triples sect (device_items d @ is) =
     (dev_name d, ''baudrate'', show_int (dev_rate d)) # (dev_name d, ''virtuals'', join (dev_suffixes d))
     # (case dev_writer d of None \<Rightarrow> [] | Some w \<Rightarrow> [(dev_name d, ''writer'', w)]) @ item_triples (dev_name d) is"
  by (simp add: device_items_def split: option.splits)

lemma item_triples_known: "x \<in> set (item_triples sect (concat (map device_items ds))) \<Longrightarrow> serial_acc x"
  by (induction ds arbitrary: sect)
    (auto simp: item_triples_device serial_acc_def known_key_def split: option.splits)

lemma a_update_other: "sect \<notin> set (map am_name R) \<Longrightarrow> a_update sect f R = R"
  by (induction R) (auto simp: a_update_def)

lemma a_update_head:
  "sect \<notin> set (map am_name R) \<Longrightarrow> am_name a = sect \<Longrightarrow> a_update sect f (a # R) = f a # R"
  using a_update_other [of sect R f] by (simp add: a_update_def)

lemma fold_add_virtuals:
  assumes "distinct ts" and "\<forall>t\<in>set ts. vname sect t \<notin> set (map fst (am_virtuals a))"
    and "sect \<notin> set (map am_name R)" and "am_name a = sect"
  shows "fold (\<lambda>tok. a_update sect (a_add_virtual (vname sect tok))) ts (a # R)
    = a\<lparr>am_virtuals := map (\<lambda>t. (vname sect t, False)) (rev ts) @ am_virtuals a\<rparr> # R"
  using assms
proof (induction ts arbitrary: a)
  case (Cons t ts)
  let ?b = "a\<lparr>am_virtuals := (vname sect t, False) # am_virtuals a\<rparr>"
  have "a_add_virtual (vname sect t) a = ?b" using Cons.prems(2) by (simp add: a_add_virtual_def)
  moreover have "\<forall>u\<in>set ts. vname sect u \<notin> set (map fst (am_virtuals ?b))"
    using Cons.prems(1,2) by (auto simp: vname_def)
  ultimately show ?case
    using Cons.IH [of ?b] Cons.prems by (simp add: a_update_head)
qed simp

lemma load_device:
  assumes ok: "device_ok d" and new: "dev_name d \<notin> set (map am_name R)"
  shows "fold serial_step (item_triples sect (device_items d @ is)) R
    = fold serial_step (item_triples (dev_name d) is) (device_master d # R)"
proof -
  let ?a = "\<lparr>am_name = dev_name d, am_baud = dev_rate d, am_virtuals = []\<rparr>"
  let ?b = "?a\<lparr>am_virtuals := map (\<lambda>t. (vname (dev_name d) t, False)) (rev (dev_suffixes d))\<rparr>"
  have rate: "a_config (dev_name d) ''baudrate'' (show_int (dev_rate d)) R = ?a # R"
    using ok new by (simp add: a_config_def a_ensure_master_def a_update_head atoi_show_int device_ok_def)
  have virtuals: "a_config (dev_name d) ''virtuals'' (join (dev_suffixes d)) (?a # R) = ?b # R"
    using ok new fold_add_virtuals [of "dev_suffixes d" "dev_name d" ?a R]
    by (simp add: a_config_def a_ensure_master_def strtok_join device_ok_def)
  have writer: "a_config (dev_name d) ''writer'' w (?b # R) = device_master d # R" if "dev_writer d = Some w" for w
    using new that by (auto simp: a_config_def a_ensure_master_def a_update_head a_set_writer_def device_master_def vname_def)
  show ?thesis
    using rate virtuals writer
    by (cases "dev_writer d") (simp_all add: item_triples_device serial_step_def device_master_def)
qed

lemma load_devices:
  assumes "\<forall>d\<in>set ds. device_ok d" and "distinct (map dev_name ds)"
    and "set (map dev_name ds) \<inter> set (map am_name R) = {}"
  shows "fold serial_step (item_triples sect (concat (map device_items ds))) R = rev (map device_master ds) @ R"
  using assms
proof (induction ds arbitrary: sect R)
  case (Cons d ds)
  have "set (map dev_name ds) \<inter> set (map am_name (device_master d # R)) = {}"
    using Cons.prems(2,3) by (auto simp: device_master_def)
  then show ?case
    using Cons.IH [of "device_master d # R"] load_device [of d R] Cons.prems by simp
qed simp

lemma file_registry_print:
  assumes "\<forall>d\<in>set ds. device_ok d" and "distinct (map dev_name ds)"
    and "set (map dev_name ds) \<inter> set (map am_name R) = {}"
  shows "file_registry (print_devices ds) R = rev (map device_master ds) @ R"
proof -
  have "ini_triples serial_acc (print_devices ds) = item_triples [] (concat (map device_items ds))"
    unfolding print_devices_def using assms(1) device_items_ok item_triples_known
    by (intro ini_triples_print) auto
  then show ?thesis using load_devices [OF assms] by (simp add: file_registry_def)
qed

end
