(* ===== verification/ConfigProps.thy ===== *)
theory ConfigProps
  imports Demo ConfigRound
begin

text \<open>
  What is claimed of the INI parser and of the two configuration files. Each claim is followed by a
  witness: the claim applied at a concrete state and file.
\<close>

section \<open>The INI parser\<close>

text \<open>
  C16: parsing a file ends, whatever the file holds: the loop over its lines never exceeds the bound
  the model gives it, the handler is only called with a section of less than 50 bytes and with a
  name and a value of less than 200, an invariant its calls keep holds at the end, and the result
  is 0 or the number of a line of the file.
\<close>

theorem ini_parse_file_total:
  assumes "\<And>sect name value s. length sect < MAX_SECTION \<Longrightarrow> length name < INI_MAX_LINE \<Longrightarrow>
      length value < INI_MAX_LINE \<Longrightarrow> P s \<Longrightarrow> wp (handler sect name value) (\<lambda>_. P) E s"
    and "P s"
  shows "wp (ini_parse_file file handler) (\<lambda>r t. 0 \<le> r \<and> r \<le> int (length file) \<and> P t) E s"
  by (rule ini_parse_file_keeps) (use assms in \<open>auto simp: keeps_def ini_args_ok_def\<close>)

theorem ini_parse_file_total_witness:
  "wp (ini_parse_file ''[a]'' (\<lambda>_ _ _. thn (modify Suc) (ret 1)))
     (\<lambda>r t. 0 \<le> r \<and> r \<le> int (length ''[a]'') \<and> (5::nat) \<le> t) (\<lambda>_. False) 5"
  by (rule ini_parse_file_total [where P = "\<lambda>n. 5 \<le> n"]) simp_all

text \<open>
  C18: INI round trip. A file printed from sections and pairs that the parser can represent is read back
  exactly: the handler gets the pairs in order, each with the section it stands in, and the result is
  0. What can be represented (\<open>item_ok\<close>): one line, no \<open>;\<close>, no blank at either end of a name or value,
  sections of less than 50 bytes, lines of less than 200, and no name that starts like a section, a
  comment or a byte order mark.
\<close>

theorem ini_parse_file_roundtrip:
  assumes "\<forall>i\<in>set is. item_ok i" and "\<forall>x\<in>set (item_triples [] is). acc x"
  shows "ini_parse_file (print_ini is) (collect acc) [] = Inr (0, item_triples [] is)"
  by (rule ini_parse_print [OF assms])

theorem ini_parse_file_roundtrip_witness:
  "ini_parse_file (print_ini [Section ''system'', Pair ''hz'' ''10'', Pair ''pidfile'' ''/a b=c#d'']) (collect (\<lambda>_. True)) []
    = Inr (0, [(''system'', ''hz'', ''10''), (''system'', ''pidfile'', ''/a b=c#d'')])"
  by (subst ini_parse_file_roundtrip)
    (simp_all add: plain_def trimmed_def isspace_def newline_char_def NUL_def)

section \<open>The serial configuration\<close>

text \<open>
  C15: loading the serial configuration file refines its meaning: from a state whose nodes are the
  registry \<open>R\<close>, \<open>serialLoadConfig\<close> either leaves the program with status 1, because some call failed, or
  the file was read and the nodes are the registry its pairs turn \<open>R\<close> into, with no duplicate master or virtual node;
  nothing but the nodes changed, and the file is closed again. No list walk runs for ever and no
  pointer is followed that is not a node's.
\<close>

theorem serialLoadConfig_refines:
  assumes "holds_registry s R" and "log_ok s"
  shows "wp (serialLoadConfig (Some f))
    (\<lambda>_ t. r_ok (answers s (calls s)) \<and> holds_registry t (file_registry (r_data (answers s (calls s))) R)
       \<and> node_frame s t) (\<lambda>h. h = Exit 1 \<and> \<not> all_ok s) s"
  by (rule wp_serialLoadConfig [OF assms]) simp_all

theorem serialLoadConfig_refines_witness:
  "wp (serialLoadConfig (Some ''serial.ini''))
    (\<lambda>_ t. holds_registry t (file_registry readme_serial []) \<and> node_frame (file_world readme_serial) t)
    (\<lambda>_. False) (file_world readme_serial)"
  using serialLoadConfig_refines [OF file_world_ok(2,1), of "''serial.ini''" readme_serial] by simp

text \<open>
  C28: one pair of the serial file. The handler creates the section's master if there is none, sets
  its rate, adds the virtual nodes that are missing, or marks the writer, exactly as \<open>a_config\<close>
  says, and reports whether it knew the name. No name of a virtual node is ever too long for its
  buffer: while every call succeeds the handler returns, and else it may also leave with status 1.
\<close>

theorem serialConfigHandler_refines:
  assumes "holds_registry s R" and "log_ok s"
    and "length sect < MAX_SECTION" and "length name < INI_MAX_LINE" and "length value < INI_MAX_LINE"
  shows "wp (serialConfigHandler sect name value)
    (\<lambda>r t. holds_registry t (a_config sect name value R) \<and> node_frame s t
       \<and> (r \<noteq> 0 \<longleftrightarrow> known_key name)) (\<lambda>h. h = Exit 1 \<and> \<not> all_ok s) s"
  using serial_file.handler_step [of sect name "value" s R s] assms
  by (auto simp: ini_args_ok_def serial_step_def serial_acc_def elim: wp_weaken)

theorem serialConfigHandler_refines_witness:
  "wp (serialConfigHandler ''/dev/ttyS5'' ''virtuals'' ''a b'')
    (\<lambda>r t. holds_registry t (a_config ''/dev/ttyS5'' ''virtuals'' ''a b'' [])
       \<and> node_frame (file_world []) t \<and> (r \<noteq> 0 \<longleftrightarrow> known_key ''virtuals'')) (\<lambda>_. False) (file_world [])"
  by (rule wp_mono [OF serialConfigHandler_refines [OF file_world_ok(2,1)]]) simp_all

definition two_devices :: "device list" where
  "two_devices =
     [\<lparr>dev_name = ''/dev/ttyS0'', dev_rate = 9600, dev_suffixes = [''gps'', ''log''], dev_writer = Some ''gps''\<rparr>,
      \<lparr>dev_name = ''/dev/ttyS1'', dev_rate = -1, dev_suffixes = [], dev_writer = None\<rparr>]"

lemma two_devices_ok: "\<forall>d\<in>set two_devices. device_ok d" "distinct (map dev_name two_devices)"
  by (simp_all add: two_devices_def device_ok_def word_ok_def plain_def isspace_def newline_char_def NUL_def
      INT_MIN_def INT_MAX_def)

text \<open>
  C17: round trip of the serial configuration. When the file is the one printed for the devices \<open>ds\<close>, the
  daemon that loads it has exactly the masters of these devices, in front of the ones it had, each with
  its rate, its virtual nodes under the device's name, and its writer, and nothing else has changed; the
  only other outcome is exit status 1 when some call failed.
\<close>

theorem serialLoadConfig_roundtrip:
  assumes "holds_registry s R" and "log_ok s"
    and "\<forall>d\<in>set ds. device_ok d" and "distinct (map dev_name ds)"
    and "set (map dev_name ds) \<inter> set (map am_name R) = {}"
    and "r_data (answers s (calls s)) = print_devices ds"
  shows "wp (serialLoadConfig (Some f))
    (\<lambda>_ t. holds_registry t (rev (map device_master ds) @ R) \<and> node_frame s t) (\<lambda>h. h = Exit 1 \<and> \<not> all_ok s) s"
  by (rule wp_serialLoadConfig [OF assms(1,2)]) (use assms(6) file_registry_print [OF assms(3-5)] in simp_all)

theorem serialLoadConfig_roundtrip_witness:
  "wp (serialLoadConfig (Some ''serial.ini''))
    (\<lambda>_ t. holds_registry t (rev (map device_master two_devices)) \<and> node_frame (file_world (print_devices two_devices)) t)
    (\<lambda>_. False) (file_world (print_devices two_devices))"
  using serialLoadConfig_roundtrip [OF file_world_ok(2,1) two_devices_ok, of "print_devices two_devices" "''serial.ini''"]
  by simp

text \<open>
  C40: the names of \<open>virtuals\<close> are separated by blanks and by nothing else. A value without a blank, such
  as the \<open>app1,app2\<close> of the README's second example, gives the device one virtual node whose name is the
  whole value, not one for each item of a list with commas.
\<close>

theorem serialConfigHandler_one_virtual:
  assumes "holds_registry s []" and "log_ok s" and "word_ok v"
    and "length sect < MAX_SECTION" and "length v < INI_MAX_LINE"
  shows "wp (serialConfigHandler sect ''virtuals'' v)
    (\<lambda>_ t. holds_registry t [\<lparr>am_name = sect, am_baud = 9600, am_virtuals = [(sect @ ''.'' @ v, False)]\<rparr>])
    (\<lambda>h. h = Exit 1 \<and> \<not> all_ok s) s"
proof -
  have "strtok_tokens v = [v]" using strtok_word [of v "[]"] assms(3) by (simp add: strtok_nil)
  then have "a_config sect ''virtuals'' v []
      = [\<lparr>am_name = sect, am_baud = 9600, am_virtuals = [(sect @ ''.'' @ v, False)]\<rparr>]"
    by (simp add: a_config_def a_ensure_master_def a_update_def a_add_virtual_def vname_def)
  then show ?thesis
    using serial_file.handler_step [of sect "''virtuals''" v s "[]" s] assms
    by (auto simp: ini_args_ok_def serial_step_def elim!: wp_weaken)
qed

theorem serialConfigHandler_one_virtual_witness:
  "wp (serialConfigHandler ''/dev/ttyUSB0'' ''virtuals'' ''app1,app2'')
    (\<lambda>_ t. holds_registry t [\<lparr>am_name = ''/dev/ttyUSB0'', am_baud = 9600,
       am_virtuals = [(''/dev/ttyUSB0'' @ ''.'' @ ''app1,app2'', False)]\<rparr>]) (\<lambda>_. False) (file_world [])"
  by (rule wp_mono [OF serialConfigHandler_one_virtual [OF file_world_ok(2,1)]])
    (simp_all add: word_ok_def isspace_def NUL_def)

section \<open>The system configuration\<close>

text \<open>
  C29: after \<open>serverLoadConfig\<close> each option has the value the last pair of the file that names it
  gives it, or the one it had; nothing else changed. The only other outcome is exit status 1.
\<close>

theorem serverLoadConfig_sets:
  assumes "fd_ok s"
  shows "wp (serverLoadConfig (Some f))
    (\<lambda>_ t. configured s (system_pairs (r_data (answers s (calls s)))) t \<and> options_frame s t)
    (\<lambda>h. h = Exit 1) s"
  by (rule wp_serverLoadConfig [OF assms]) simp_all

theorem serverLoadConfig_sets_witness:
  "wp (serverLoadConfig (Some ''sproxy.ini''))
    (\<lambda>_ t. configured (file_world readme_system) (system_pairs readme_system) t
       \<and> options_frame (file_world readme_system) t) (\<lambda>h. h = Exit 1) (file_world readme_system)"
  using serverLoadConfig_sets [OF file_world_ok(1) [THEN log_ok_fd_ok], of "''sproxy.ini''" readme_system] by simp

text \<open>
  C30: whatever the file says, a rate of the periodic task in 1..500 Hz and a reconnect interval in
  1000..3600000 ms stay in these ranges, so that \<open>1000 / hz\<close> in \<open>serverCron\<close> never divides by zero
  and is at least 2 ms.
\<close>

theorem serverLoadConfig_ranges:
  assumes "fd_ok s" and "1 \<le> hz s" "hz s \<le> 500"
    and "1000 \<le> reconnect_interval s" "reconnect_interval s \<le> 3600000"
  shows "wp (serverLoadConfig (Some f))
    (\<lambda>_ t. 1 \<le> hz t \<and> hz t \<le> 500 \<and> 1000 \<le> reconnect_interval t \<and> reconnect_interval t \<le> 3600000)
    (\<lambda>h. h = Exit 1) s"
  using assms by (intro wp_serverLoadConfig)
    (auto simp: configured_def setting_def hz_of_def interval_of_def clamp_def Let_def)

theorem serverLoadConfig_ranges_witness:
  "wp (serverLoadConfig (Some ''sproxy.ini''))
    (\<lambda>_ t. 1 \<le> hz t \<and> hz t \<le> 500 \<and> 1000 \<le> reconnect_interval t \<and> reconnect_interval t \<le> 3600000)
    (\<lambda>h. h = Exit 1) (file_world readme_system)"
  by (rule serverLoadConfig_ranges [OF file_world_ok(1) [THEN log_ok_fd_ok]]) simp_all

end
