(* ===== verification/AeLoop.thy ===== *)
theory AeLoop
  imports AeFiles
begin

text \<open>
  The turns of the event loop (\<open>src/ae.c\<close>): the search for the nearest timer, the poll, the dispatch
  of file events and the run over the timers. What the loop needs of its callbacks is the locale
  \<open>event_client\<close>; under that contract the loop reads no event out of bounds, calls no procedure that
  was not registered, runs over a finite list of timers, and keeps the client's invariant.
\<close>

section \<open>Due times\<close>

datatype due = Due (due_sec: int) (due_ms: int)

instantiation due :: linorder
begin

definition less_due :: "due \<Rightarrow> due \<Rightarrow> bool" where
  "less_due x y \<longleftrightarrow> due_sec x < due_sec y \<or> due_sec x = due_sec y \<and> due_ms x < due_ms y"

definition less_eq_due :: "due \<Rightarrow> due \<Rightarrow> bool" where
  "less_eq_due x y \<longleftrightarrow> due_sec x < due_sec y \<or> due_sec x = due_sec y \<and> due_ms x \<le> due_ms y"

instance
  by standard (auto simp: less_due_def less_eq_due_def intro: due.expand)

end

definition due_of :: "aeTimeEvent \<Rightarrow> due" where
  "due_of te = Due (when_sec te) (when_ms te)"

lemma earlier_due: "earlier te n \<longleftrightarrow> due_of te < due_of n"
  by (simp add: earlier_def due_of_def less_due_def)

section \<open>The nearest timer\<close>

lemma wp_get_tev: "tevs s a = Some te \<Longrightarrow> wp (get_tev a) Q E s = Q te s"
  by (simp add: get_tev_def)

lemma wp_upd_tev:
  "tevs s a = Some te \<Longrightarrow> wp (upd_tev a f) Q E s = Q () (s\<lparr>tevs := (tevs s)(a \<mapsto> f te)\<rparr>)"
  by (simp add: upd_tev_def wp_get_tev)

definition nearer :: "(nat \<Rightarrow> aeTimeEvent option) \<Rightarrow> nat \<Rightarrow> ptr \<Rightarrow> ptr" where
  "nearer T a near =
     (case near of None \<Rightarrow> Some a
      | Some b \<Rightarrow> if due_of (the (T a)) < due_of (the (T b)) then Some a else Some b)"

text \<open>No timer of the list is due before the one found, and only an empty list has none.\<close>

definition nearest_in :: "(nat \<Rightarrow> aeTimeEvent option) \<Rightarrow> nat list \<Rightarrow> ptr \<Rightarrow> bool" where
  "nearest_in T ts r \<longleftrightarrow>
     (case r of None \<Rightarrow> ts = []
      | Some a \<Rightarrow> a \<in> set ts \<and> (\<forall>b\<in>set ts. due_of (the (T a)) \<le> due_of (the (T b))))"

lemma nearest_in_snoc:
  assumes "nearest_in T ts r"
  shows "nearest_in T (ts @ [a]) (nearer T a r)"
proof (cases r)
  case None
  with assms show ?thesis by (simp add: nearest_in_def nearer_def)
next
  case (Some b)
  with assms show ?thesis by (force simp: nearest_in_def nearer_def)
qed

lemma nearest_loop:
  assumes "chain (tevs s) te_next p as" and "length as < fuel" and "nearest_in (tevs s) bs r"
    and "set bs \<subseteq> dom (tevs s)" and "\<And>r. nearest_in (tevs s) (bs @ as) r \<Longrightarrow> Q r s"
  shows "wp (loop fuel nearest_body (p, r)) Q E s"
  using assms
proof (induction as arbitrary: p bs r fuel)
  case Nil
  then show ?case by (cases fuel) (simp_all add: loop.simps nearest_body_def)
next
  case (Cons a as)
  then obtain te fuel' where te: "p = Some a" "tevs s a = Some te" "chain (tevs s) te_next (te_next te) as"
    and fuel: "fuel = Suc fuel'" "length as < fuel'"
    by (cases fuel) (auto split: option.splits)
  have "wp (loop fuel' nearest_body (te_next te, nearer (tevs s) a r)) Q E s"
    by (rule Cons.IH [OF te(3) fuel(2) nearest_in_snoc [OF Cons.prems(3), of a]])
       (use Cons.prems te in auto)
  moreover have "\<exists>n. tevs s b = Some n" if "r = Some b" for b
    using Cons.prems(3,4) that by (auto simp: nearest_in_def)
  ultimately show ?case
    using te fuel by (cases r)
      (auto simp: loop.simps nearest_body_def wp_get_tev nearer_def earlier_due)
qed

lemma wp_aeSearchNearestTimer:
  assumes "el s = Some L" and "chain (tevs s) te_next (timeEventHead L) ts"
    and "dom (tevs s) \<subseteq> {..<tev_brk s}"
    and "\<And>r. nearest_in (tevs s) ts r \<Longrightarrow> Q r s"
  shows "wp aeSearchNearestTimer Q E s"
proof -
  have "length ts < tev_fuel s"
    using chain_bounded [OF assms(2,3)] by (simp add: tev_fuel_def)
  then have "wp (loop (tev_fuel s) nearest_body (timeEventHead L, None)) Q E s"
    using assms(2,4) by (intro nearest_loop [where as = ts and bs = "[]"]) (simp_all add: nearest_in_def)
  then show ?thesis by (simp add: aeSearchNearestTimer_def wp_get_loop [OF assms(1)])
qed

section \<open>The contract of the callbacks\<close>

text \<open>What a callback leaves alone: the timers, and of the loop all but events and its flag.\<close>

definition frozen :: "aeEventLoop \<Rightarrow> int \<times> aeFiredEvent list \<times> ptr \<times> int \<times> int \<times> fnptr option" where
  "frozen L = (setsize L, fired L, timeEventHead L, timeEventNextId L, epfd L, beforesleep L)"

definition loop_kept :: "'z aestate_scheme \<Rightarrow> 'z aestate_scheme \<Rightarrow> bool" where
  "loop_kept s t \<longleftrightarrow> tevs t = tevs s \<and> tev_brk t = tev_brk s
     \<and> map_option frozen (el t) = map_option frozen (el s)"

lemma loop_kept_quiet: "quiet s t \<Longrightarrow> loop_kept s t"
  by (simp add: loop_kept_def quiet_ae)

definition proc_for :: "mask \<Rightarrow> aeFileEvent \<Rightarrow> fnptr option" where
  "proc_for b fe = (if b = AE_READABLE then rfileProc fe else wfileProc fe)"

text \<open>The two dispatch steps are the same step for the two directions.\<close>

definition half_step :: "('z aestate_scheme) procs \<Rightarrow> mask \<Rightarrow> nat \<Rightarrow> ('z aestate_scheme, unit) cmd" where
  "half_step P b j = (bnd (fired_at j) (\<lambda>f. bnd (event_at (fired_fd f)) (\<lambda>fe.
       if fe_mask fe AND fired_mask f AND b \<noteq> 0 then
         (case proc_for b fe of None \<Rightarrow> stop_with BadCall
          | Some p \<Rightarrow> thn (call_file P p (fired_fd f) (fe_clientData fe) (fired_mask f)) (clear_fired j b))
       else ret ())))"

lemma half_steps:
  "readable_step P = half_step P AE_READABLE" "writable_step P = half_step P AE_WRITABLE"
proof -
  have proc: "proc_for AE_READABLE fe = rfileProc fe" "proc_for AE_WRITABLE fe = wfileProc fe" for fe
    by (simp_all add: proc_for_def)
  show "readable_step P = half_step P AE_READABLE" "writable_step P = half_step P AE_WRITABLE"
    unfolding fun_eq_iff readable_step_def writable_step_def half_step_def proc by blast+
qed

text \<open>
  Polling and dispatching file events, running the timers, and the loop around both. \<open>M\<close> is a property of
  the masks the environment reports, which the callbacks may rely on.
\<close>

locale event_poller =
  fixes P :: "('z aestate_scheme) procs"
    and I :: "'z aestate_scheme \<Rightarrow> bool"
    and E :: "halt \<Rightarrow> bool"
    and M :: "mask \<Rightarrow> bool"
  assumes inv_table: "I s \<Longrightarrow> \<exists>L. el s = Some L \<and> table_ok L (interest s)"
    and inv_timers: "I s \<Longrightarrow> el s = Some L \<Longrightarrow>
          dom (tevs s) \<subseteq> {..<tev_brk s} \<and> (\<exists>ts. chain (tevs s) te_next (timeEventHead L) ts)"
    and inv_quiet: "I s \<Longrightarrow> quiet s t \<Longrightarrow> I t"
    and inv_fired: "I s \<Longrightarrow> el s = Some L \<Longrightarrow> length f = length (fired L) \<Longrightarrow>
          I (s\<lparr>el := Some (L\<lparr>fired := f\<rparr>)\<rparr>)"
    and file_ok: "I s \<Longrightarrow> el s = Some L \<Longrightarrow> b \<in> {AE_READABLE, AE_WRITABLE} \<Longrightarrow>
          evmask L fd AND b \<noteq> 0 \<Longrightarrow> M m \<Longrightarrow>
          \<exists>p. proc_for b (events L ! nat fd) = Some p \<and>
              wp (call_file P p fd (fe_clientData (events L ! nat fd)) m)
                 (\<lambda>_ t. I t \<and> loop_kept s t) E s"
    and mask_polled: "I s \<Longrightarrow> (fd, e) \<in> set (epoll_ready (interest s) (r_ready (answers s i))) \<Longrightarrow> M (ae_mask_of e)"
    and mask_cleared: "M m \<Longrightarrow> M (m AND NOT b)"
begin

text \<open>The first \<open>n\<close> fired entries are descriptors of the table, with masks the environment may report.\<close>

definition fired_ok :: "nat \<Rightarrow> 'z aestate_scheme \<Rightarrow> bool" where
  "fired_ok n s \<longleftrightarrow> (\<exists>L. el s = Some L \<and> n \<le> length (fired L) \<and>
     (\<forall>j<n. 0 \<le> fired_fd (fired L ! j) \<and> fired_fd (fired L ! j) < setsize L \<and> M (fired_mask (fired L ! j))))"

lemma fired_ok_kept: "fired_ok n s \<Longrightarrow> loop_kept s t \<Longrightarrow> fired_ok n t"
  by (auto simp: fired_ok_def loop_kept_def frozen_def)

lemma wp_clear_fired:
  assumes "I s" and "fired_ok n s"
  shows "wp (clear_fired j m) (\<lambda>_ t. I t \<and> fired_ok n t) E s"
proof -
  obtain L where L: "el s = Some L" using inv_table [OF assms(1)] by blast
  let ?f = "(fired L)[j := (fired L ! j)\<lparr>fired_mask := fired_mask (fired L ! j) AND NOT m\<rparr>]"
  have "I (s\<lparr>el := Some (L\<lparr>fired := ?f\<rparr>)\<rparr>)" by (rule inv_fired [OF assms(1) L]) simp
  moreover have "fired_fd (?f ! i) = fired_fd (fired L ! i) \<and> (M (fired_mask (fired L ! i)) \<longrightarrow> M (fired_mask (?f ! i)))"
    if "i < length (fired L)" for i
    using that by (cases "i = j") (simp_all add: mask_cleared)
  then have "fired_ok n (s\<lparr>el := Some (L\<lparr>fired := ?f\<rparr>)\<rparr>)"
    using assms(2) L by (auto simp: fired_ok_def)
  ultimately show ?thesis by (simp add: clear_fired_def wp_upd_loop [OF L])
qed

lemma wp_step:
  assumes inv: "I s" and f: "fired_ok n s" and j: "j < n" and b: "b \<in> {AE_READABLE, AE_WRITABLE}"
  shows "wp (half_step P b j) (\<lambda>_ t. I t \<and> fired_ok n t) E s"
proof -
  obtain L where L: "el s = Some L" "table_ok L (interest s)" using inv_table [OF inv] by blast
  let ?f = "fired L ! j"
  let ?fe = "events L ! nat (fired_fd ?f)"
  have range: "j < length (fired L)" "0 \<le> fired_fd ?f" "fired_fd ?f < setsize L" "M (fired_mask ?f)"
    using f j L(1) by (auto simp: fired_ok_def)
  have mask: "fe_mask ?fe = evmask L (fired_fd ?f)" using range by (simp add: evmask_def)
  show ?thesis
  proof (cases "fe_mask ?fe AND fired_mask ?f AND b = 0")
    case True
    with inv f range show ?thesis
      by (simp add: half_step_def fired_at_def wp_get_loop [OF L(1)] wp_event_at [OF L])
  next
    case False
    then have "evmask L (fired_fd ?f) AND b \<noteq> 0"
      unfolding mask by (metis and.assoc and.commute and.left_commute and_zero_eq)
    with file_ok [OF inv L(1) b this range(4)] obtain p where p: "proc_for b ?fe = Some p"
      and run: "wp (call_file P p (fired_fd ?f) (fe_clientData ?fe) (fired_mask ?f))
                  (\<lambda>_ t. I t \<and> loop_kept s t) E s" by blast
    have "wp (call_file P p (fired_fd ?f) (fe_clientData ?fe) (fired_mask ?f))
        (\<lambda>_. wp (clear_fired j b) (\<lambda>_ t. I t \<and> fired_ok n t) E) E s"
      using run by (rule wp_weaken) (use f in \<open>auto intro: wp_clear_fired fired_ok_kept\<close>)
    with False range p show ?thesis
      by (simp add: half_step_def fired_at_def wp_get_loop [OF L(1)] wp_event_at [OF L])
  qed
qed

lemma wp_dispatch:
  assumes "I s" and "fired_ok n s"
  shows "wp (dispatch P n) (\<lambda>_. I) E s"
proof -
  have r: "wp (readable_step P j) (\<lambda>_ t. I t \<and> fired_ok n t) E t"
    and w: "wp (writable_step P j) (\<lambda>_ t. I t \<and> fired_ok n t) E t"
    if "j \<in> set [0..<n]" "I t \<and> fired_ok n t" for j t
    using wp_step [of t n j AE_READABLE] wp_step [of t n j AE_WRITABLE] that
    by (simp_all add: half_steps)
  have "wp (for_each [0..<n] (readable_step P)) (\<lambda>_ t. I t \<and> fired_ok n t) E s"
    by (rule wp_for_each) (use assms r in auto)
  then have "wp (for_each [0..<n] (readable_step P))
      (\<lambda>_. wp (for_each [0..<n] (writable_step P)) (\<lambda>_ t. I t \<and> fired_ok n t) E) E s"
    by (rule wp_weaken) (rule wp_for_each, assumption, rule w)
  then have "wp (dispatch P n) (\<lambda>_ t. I t \<and> fired_ok n t) E s" by (simp add: dispatch_def)
  then show ?thesis by (rule wp_weaken) simp
qed

end

section \<open>Clock and poll\<close>

lemma quiet_aeGetTime: "wp aeGetTime (\<lambda>_ t. quiet s t) (\<lambda>_. False) s"
  unfolding aeGetTime_def wp_bnd by (rule quiet_wp [OF quiet_gettimeofday]) (simp split: prod.splits)

lemma quiet_aeAddMillisecondsToNow: "wp (aeAddMillisecondsToNow ms) (\<lambda>_ t. quiet s t) (\<lambda>_. False) s"
  unfolding aeAddMillisecondsToNow_def wp_bnd
  by (rule quiet_wp [OF quiet_aeGetTime]) (simp add: Let_def split: prod.splits)

lemma wp_sys_epoll_wait:
  assumes "\<And>t. quiet s t \<Longrightarrow> Q (-1, []) t"
    and "\<And>t i. quiet s t \<Longrightarrow> Q (int (length (take n (epoll_ready (interest s) (r_ready (answers s i))))),
          take n (epoll_ready (interest s) (r_ready (answers s i)))) t"
  shows "wp (sys_epoll_wait n timeout) Q E s"
proof -
  have "quiet s (s\<lparr>trace := trace s @ [Polled timeout], calls := Suc (calls s), errno := e\<rparr>)"
    "quiet s (s\<lparr>trace := trace s @ [Polled timeout], calls := Suc (calls s)\<rparr>)" for e
    by (simp_all add: frame_defs)
  with assms show ?thesis by (simp add: sys_epoll_wait_def wp_kernel)
qed

text \<open>A poll reports watched descriptors only, which the table has room for.\<close>

lemma epoll_ready_range:
  assumes "table_ok L I" and "(fd, e) \<in> set (epoll_ready I rs)"
  shows "0 \<le> fd \<and> fd < setsize L"
proof -
  have "I fd \<noteq> None" using epoll_ready_member [OF assms(2)] by auto
  then have "evmask L fd \<noteq> AE_NONE" using assms(1) by (auto simp: table_ok_def watch_def)
  then show ?thesis by (auto simp: evmask_def split: if_splits)
qed

section \<open>Creating and deleting timers\<close>

definition new_timer :: "aeEventLoop \<Rightarrow> fnptr \<Rightarrow> ptr \<Rightarrow> fnptr option \<Rightarrow> int \<Rightarrow> int \<Rightarrow> aeTimeEvent" where
  "new_timer L proc cd fin sec ms =
     \<lparr>te_id = timeEventNextId L, when_sec = sec, when_ms = ms, timeProc = proc, finalizerProc = fin,
      te_clientData = cd, te_next = timeEventHead L\<rparr>"

lemma wp_aeCreateTimeEvent:
  fixes s :: "'z aestate_scheme"
  assumes L: "el s = Some L"
    and err: "\<And>t. quiet (s\<lparr>el := Some (L\<lparr>timeEventNextId := timeEventNextId L + 1\<rparr>)\<rparr>) t \<Longrightarrow> Q AE_ERR t"
    and add: "\<And>t sec ms. quiet (s\<lparr>el := Some (L\<lparr>timeEventNextId := timeEventNextId L + 1\<rparr>)\<rparr>) t \<Longrightarrow>
      Q (timeEventNextId L) (t\<lparr>tev_brk := Suc (tev_brk s),
        tevs := (tevs s)(tev_brk s \<mapsto> new_timer L proc cd fin sec ms),
        el := Some (L\<lparr>timeEventNextId := timeEventNextId L + 1, timeEventHead := Some (tev_brk s)\<rparr>)\<rparr>)"
  shows "wp (aeCreateTimeEvent milliseconds proc cd fin) Q E s"
proof -
  let ?L = "L\<lparr>timeEventNextId := timeEventNextId L + 1\<rparr>"
  let ?s = "s\<lparr>el := Some ?L\<rparr>"
  let ?link = "\<lambda>(sec, ms). bnd (gets tev_brk) (\<lambda>a.
           thn (modify (\<lambda>s. s\<lparr>tev_brk := Suc a, tevs := (tevs s)(a \<mapsto> new_timer L proc cd fin sec ms)\<rparr>))
          (thn (upd_loop (\<lambda>L. L\<lparr>timeEventHead := Some a\<rparr>))
            (ret (timeEventNextId L))))"
  have link: "wp (?link x) Q E t" if t: "quiet ?s t" for t :: "'z aestate_scheme" and x
    using add [OF t] quiet_ae [OF t] by (cases x) (simp add: upd_loop_def get_loop_def)
  have "wp (if \<not> ok then ret AE_ERR else bnd (aeAddMillisecondsToNow milliseconds) ?link) Q E t"
    if t: "quiet ?s t" for t :: "'z aestate_scheme" and ok
    using err [OF t] link
    by (auto simp del: split_paired_All intro!: quiet_wp [OF quiet_aeAddMillisecondsToNow] intro: quiet_trans [OF t])
  then have "wp (bnd sys_malloc (\<lambda>ok. if \<not> ok then ret AE_ERR
      else bnd (aeAddMillisecondsToNow milliseconds) ?link)) Q E ?s"
    unfolding wp_bnd [of sys_malloc] by (rule quiet_wp [OF quiet_malloc])
  note body = this
  have eq: "aeCreateTimeEvent milliseconds proc cd fin = bnd get_loop (\<lambda>L.
      thn (upd_loop (\<lambda>L. L\<lparr>timeEventNextId := timeEventNextId L + 1\<rparr>))
     (bnd sys_malloc (\<lambda>ok. if \<not> ok then ret AE_ERR
      else bnd (aeAddMillisecondsToNow milliseconds) (\<lambda>(sec, ms). bnd (gets tev_brk) (\<lambda>a.
           thn (modify (\<lambda>s. s\<lparr>tev_brk := Suc a, tevs := (tevs s)(a \<mapsto> new_timer L proc cd fin sec ms)\<rparr>))
          (thn (upd_loop (\<lambda>L. L\<lparr>timeEventHead := Some a\<rparr>))
            (ret (timeEventNextId L))))))))"
    unfolding aeCreateTimeEvent_def new_timer_def by (rule refl)
  show ?thesis
    unfolding eq wp_bnd [of get_loop] wp_get_loop [OF L] wp_thn [of "upd_loop f" for f] wp_upd_loop [OF L]
    by (rule body)
qed

lemma wp_aeDeleteTimeEvent:
  assumes L: "el s = Some L" and ts: "chain (tevs s) te_next (timeEventHead L) ts" "dom (tevs s) \<subseteq> {..<tev_brk s}"
  shows "wp (aeDeleteTimeEvent i) Q E s =
    (case find (\<lambda>a. te_id (the (tevs s a)) = i) ts of None \<Rightarrow> Q AE_ERR s
     | Some a \<Rightarrow> Q AE_OK (s\<lparr>tevs := (tevs s)(a \<mapsto> (the (tevs s a))\<lparr>te_id := AE_DELETED_EVENT_ID\<rparr>)\<rparr>))"
proof -
  have "length ts < tev_fuel s" using chain_bounded [OF ts] by (simp add: tev_fuel_def)
  moreover have "tevs s a \<noteq> None" if "find (\<lambda>a. te_id (the (tevs s a)) = i) ts = Some a" for a
    using that chain_alloc [OF ts(1), of a] by (auto simp: find_Some_iff)
  ultimately show ?thesis
    by (auto simp: aeDeleteTimeEvent_def wp_get_loop [OF L] wp_search [where h = tevs, OF ts(1)] wp_upd_tev split: option.split)
qed

lemma chain_due [simp]:
  assumes "T a = Some te"
  shows "chain (T(a \<mapsto> te\<lparr>when_sec := x, when_ms := y\<rparr>)) te_next p as = chain T te_next p as"
  by (rule chain_cong) (use assms in simp)

lemma main_fuel_Suc:
  "wp (loop (Suc fuel) (main_body P) ()) Q E s =
     wp get_loop (\<lambda>L. if stop L then Q () else wp (main_turn P) (\<lambda>_. wp (loop fuel (main_body P) ()) Q E) E) E s"
  by (auto simp: loop.simps main_body_def wp_def bnd_def thn_def ret_def get_loop_def gets_def stop_with_def
      split: option.splits sum.splits prod.splits)

context event_poller
begin

lemma wp_aeApiPoll:
  assumes "I s"
  shows "wp (aeApiPoll tvp) (\<lambda>n t. I t \<and> fired_ok n t) E s"
proof -
  obtain L where L: "el s = Some L" "table_ok L (interest s)" using inv_table [OF assms] by blast
  have len: "length (fired L) = nat (setsize L)" using L(2) by (simp add: table_ok_def)
  let ?msg = "\<lambda>(fd, e). \<lparr>fired_fd = fd, fired_mask = ae_mask_of e\<rparr>"
  have none: "I t \<and> fired_ok 0 t" if q: "quiet s t" for t
    using inv_quiet [OF assms q] L(1) q by (auto simp: fired_ok_def quiet_ae)
  have some: "wp (thn (upd_loop (\<lambda>L. L\<lparr>fired := map ?msg evs @ drop (length evs) (fired L)\<rparr>))
      (ret (length evs))) (\<lambda>n t. I t \<and> fired_ok n t) E t"
    if q: "quiet s t" and evs: "evs = take (nat (setsize L)) (epoll_ready (interest s) (r_ready (answers s i)))" for t evs i
  proof -
    have Lt: "el t = Some L" using L(1) q by (simp add: quiet_ae)
    have short: "length evs \<le> length (fired L)" by (simp add: evs len)
    let ?f = "map ?msg evs @ drop (length evs) (fired L)"
    have "I (t\<lparr>el := Some (L\<lparr>fired := ?f\<rparr>)\<rparr>)"
      by (rule inv_fired [OF inv_quiet [OF assms q] Lt]) (use short in simp)
    moreover have "0 \<le> fired_fd (?f ! j) \<and> fired_fd (?f ! j) < setsize L \<and> M (fired_mask (?f ! j))"
      if "j < length evs" for j
    proof -
      have "evs ! j \<in> set evs" using that by simp
      then have "evs ! j \<in> set (epoll_ready (interest s) (r_ready (answers s i)))" unfolding evs by (rule in_set_takeD)
      then have "0 \<le> fst (evs ! j) \<and> fst (evs ! j) < setsize L \<and> M (ae_mask_of (snd (evs ! j)))"
        using epoll_ready_range [OF L(2)] mask_polled [OF assms] by (metis prod.collapse)
      with that show ?thesis by (simp add: nth_append split_def)
    qed
    then have "fired_ok (length evs) (t\<lparr>el := Some (L\<lparr>fired := ?f\<rparr>)\<rparr>)"
      using short by (simp add: fired_ok_def)
    ultimately show ?thesis by (simp add: wp_upd_loop [OF Lt])
  qed
  show ?thesis
    unfolding aeApiPoll_def wp_bnd wp_get_loop [OF L(1)]
  proof (rule wp_sys_epoll_wait)
    fix t assume q: "quiet s t"
    then show "wp (case (-1, []) of (retval, evs) \<Rightarrow> if retval > (0::int)
        then thn (upd_loop (\<lambda>L. L\<lparr>fired := map ?msg evs @ drop (length evs) (fired L)\<rparr>)) (ret (length evs))
        else ret 0) (\<lambda>n t. I t \<and> fired_ok n t) E t"
      using none [OF q] by simp
  next
    fix t i assume q: "quiet s t"
    let ?evs = "take (nat (setsize L)) (epoll_ready (interest s) (r_ready (answers s i)))"
    show "wp (case (int (length ?evs), ?evs) of (retval, evs) \<Rightarrow> if retval > 0
        then thn (upd_loop (\<lambda>L. L\<lparr>fired := map ?msg evs @ drop (length evs) (fired L)\<rparr>)) (ret (length evs))
        else ret 0) (\<lambda>n t. I t \<and> fired_ok n t) E t"
      using none [OF q] some [OF q refl] by simp
  qed
qed

lemma wp_poll_timeout:
  assumes "I s"
  shows "wp (poll_timeout flags) (\<lambda>_. I) E s"
proof -
  obtain L where L: "el s = Some L" using inv_table [OF assms] by blast
  obtain ts where ts: "chain (tevs s) te_next (timeEventHead L) ts" "dom (tevs s) \<subseteq> {..<tev_brk s}"
    using inv_timers [OF assms L] by blast
  let ?after = "\<lambda>shortest. case shortest of
      Some a \<Rightarrow> bnd aeGetTime (\<lambda>now. case now of (now_sec, now_ms) \<Rightarrow>
         bnd (get_tev a) (\<lambda>te.
           let ms = (when_sec te - now_sec) * 1000 + when_ms te - now_ms in
           if ms > 0 then ret (Some (c_div ms 1000, c_mod ms 1000 * 1000)) else ret (Some (0, 0))))
    | None \<Rightarrow> if flags AND AE_DONT_WAIT \<noteq> 0 then ret (Some (0, 0)) else ret None"
  have "wp (?after r) (\<lambda>_. I) E s" if "nearest_in (tevs s) ts r \<or> r = None" for r
  proof (cases r)
    case None
    with assms show ?thesis by simp
  next
    case (Some a)
    then have "a \<in> set ts" using that by (simp add: nearest_in_def)
    then obtain te where te: "tevs s a = Some te" using chain_alloc [OF ts(1)] by auto
    have "wp aeGetTime (\<lambda>now. wp (case now of (now_sec, now_ms) \<Rightarrow>
         bnd (get_tev a) (\<lambda>te.
           let ms = (when_sec te - now_sec) * 1000 + when_ms te - now_ms in
           if ms > 0 then ret (Some (c_div ms 1000, c_mod ms 1000 * 1000)) else ret (Some (0, 0))))
         (\<lambda>_. I) E) E s"
      by (rule quiet_wp [OF quiet_aeGetTime])
         (use assms te in \<open>auto simp: wp_get_tev quiet_ae Let_def intro: inv_quiet\<close>)
    with Some show ?thesis by simp
  qed
  note after = this
  let ?search = "flags AND AE_TIME_EVENTS \<noteq> 0 \<and> flags AND AE_DONT_WAIT = 0"
  have "wp (if ?search then aeSearchNearestTimer else ret None) (\<lambda>r. wp (?after r) (\<lambda>_. I) E) E s"
  proof (cases ?search)
    case True
    show ?thesis unfolding if_P [OF True]
      by (rule wp_aeSearchNearestTimer [OF L ts]) (rule after, simp)
  next
    case False
    show ?thesis unfolding if_not_P [OF False] wp_ret by (rule after) simp
  qed
  then show ?thesis unfolding poll_timeout_def wp_bnd .
qed

text \<open>One turn: the timers start in a state the poll and the dispatch leave.\<close>

lemma wp_phases:
  assumes "I s" and timers: "\<And>t. I t \<Longrightarrow> flags AND AE_TIME_EVENTS \<noteq> 0 \<Longrightarrow> wp (processTimeEvents P) (\<lambda>_. J) E t"
    and none: "\<And>t. I t \<Longrightarrow> flags AND AE_TIME_EVENTS = 0 \<Longrightarrow> J t"
  shows "wp (aeProcessEvents P flags) (\<lambda>_. J) E s"
proof -
  obtain L where L: "el s = Some L" using inv_table [OF assms(1)] by blast
  have poll: "wp (bnd (poll_timeout flags) (\<lambda>tvp. bnd (aeApiPoll tvp) (\<lambda>n.
      thn (dispatch P n) (ret (int n))))) (\<lambda>_. I) E s"
  proof -
    have "wp (aeApiPoll tvp) (\<lambda>n. wp (thn (dispatch P n) (ret (int n))) (\<lambda>_. I) E) E t" if "I t" for tvp t
      by (rule wp_weaken [OF wp_aeApiPoll [OF that]]) (simp add: wp_dispatch)
    then show ?thesis unfolding wp_bnd by (rule wp_weaken [OF wp_poll_timeout [OF assms(1)]])
  qed
  have time: "wp (if flags AND AE_TIME_EVENTS \<noteq> 0
      then bnd (processTimeEvents P) (\<lambda>n. ret (processed + n)) else ret processed) (\<lambda>_. J) E t"
    if "I t" for processed t
    using timers [OF that] none [OF that] by simp
  have "wp (if maxfd L \<noteq> -1 \<or> flags AND AE_TIME_EVENTS \<noteq> 0 \<and> flags AND AE_DONT_WAIT = 0
      then bnd (poll_timeout flags) (\<lambda>tvp. bnd (aeApiPoll tvp) (\<lambda>n. thn (dispatch P n) (ret (int n))))
      else ret 0) (\<lambda>_. I) E s"
    using poll assms by simp
  from wp_weaken [OF this time] show ?thesis
    using none [OF assms(1)]
    by (simp add: aeProcessEvents_def wp_get_loop [OF L] del: wp_bnd) (simp add: wp_get_loop [OF L])
qed

end

text \<open>The run over the timers: the list is as long as it was, so the loop ends.\<close>

locale event_timers = event_poller P I E M
  for P :: "('z aestate_scheme) procs" and I and E and M +
  assumes inv_live: "I s \<Longrightarrow> tevs s a = Some te \<Longrightarrow> te_id te \<noteq> AE_DELETED_EVENT_ID"
    and inv_clock: "I s \<Longrightarrow> el s = Some L \<Longrightarrow> I (s\<lparr>el := Some (L\<lparr>lastTime := x\<rparr>)\<rparr>)"
    and inv_due: "I s \<Longrightarrow> tevs s a = Some te \<Longrightarrow>
          I (s\<lparr>tevs := (tevs s)(a \<mapsto> te\<lparr>when_sec := x, when_ms := y\<rparr>)\<rparr>)"
    and time_ok: "I s \<Longrightarrow> tevs s a = Some te \<Longrightarrow>
          wp (call_time P (timeProc te) (te_id te) (te_clientData te))
             (\<lambda>r t. I t \<and> loop_kept s t \<and> r \<noteq> AE_NOMORE) E s"
begin

lemma wp_reschedule:
  assumes inv: "I s" and a: "tevs s a = Some te"
  shows "wp (bnd (aeAddMillisecondsToNow ms) (\<lambda>(sec, ms).
      upd_tev a (\<lambda>te. te\<lparr>when_sec := sec, when_ms := ms\<rparr>)))
    (\<lambda>_ t. I t \<and> (\<exists>x y. tevs t = (tevs s)(a \<mapsto> te\<lparr>when_sec := x, when_ms := y\<rparr>))) E s"
  unfolding wp_bnd
proof (rule quiet_wp [OF quiet_aeAddMillisecondsToNow])
  fix x t assume q: "quiet s t"
  have "I t" "tevs t a = Some te" using inv_quiet [OF inv q] a q by (simp_all add: quiet_ae)
  then show "wp (case x of (sec, ms) \<Rightarrow> upd_tev a (\<lambda>te. te\<lparr>when_sec := sec, when_ms := ms\<rparr>))
      (\<lambda>_ t. I t \<and> (\<exists>x y. tevs t = (tevs s)(a \<mapsto> te\<lparr>when_sec := x, when_ms := y\<rparr>))) E t"
    using inv_due [of t a te] q by (auto simp: wp_upd_tev quiet_ae split: prod.splits)
qed

lemma wp_run_timer:
  assumes a: "tevs s a = Some te"
    and call: "wp (call_time P (timeProc te) (te_id te) (te_clientData te))
      (\<lambda>r t. I t \<and> loop_kept s t \<and> r \<noteq> AE_NOMORE) E s"
  shows "wp (run_timer P a te)
    (\<lambda>_ t. I t \<and> (\<exists>x y. tevs t = (tevs s)(a \<mapsto> te\<lparr>when_sec := x, when_ms := y\<rparr>))) E s"
  unfolding run_timer_def wp_bnd [of "call_time P (timeProc te) (te_id te) (te_clientData te)"]
proof (rule wp_weaken [OF call])
  fix r t assume t: "I t \<and> loop_kept s t \<and> r \<noteq> AE_NOMORE"
  then have same: "tevs t = tevs s" by (simp add: loop_kept_def)
  have "wp (bnd (aeAddMillisecondsToNow r) (\<lambda>(sec, ms).
      upd_tev a (\<lambda>te. te\<lparr>when_sec := sec, when_ms := ms\<rparr>)))
    (\<lambda>_ u. I u \<and> (\<exists>x y. tevs u = (tevs s)(a \<mapsto> te\<lparr>when_sec := x, when_ms := y\<rparr>))) E t"
    using wp_reschedule [of t a te r] t a same by simp
  with t show "wp (if r \<noteq> AE_NOMORE
           then bnd (aeAddMillisecondsToNow r) (\<lambda>(sec, ms).
                  upd_tev a (\<lambda>te. te\<lparr>when_sec := sec, when_ms := ms\<rparr>))
           else upd_tev a (\<lambda>te. te\<lparr>te_id := AE_DELETED_EVENT_ID\<rparr>))
      (\<lambda>_ t. I t \<and> (\<exists>x y. tevs t = (tevs s)(a \<mapsto> te\<lparr>when_sec := x, when_ms := y\<rparr>))) E t"
    by simp
qed

lemma wp_time_loop:
  assumes "I s" and "chain (tevs s) te_next cur as" and "length as < fuel"
  shows "wp (loop fuel (time_body P maxId) (prev, cur, processed)) (\<lambda>_. I) E s"
  using assms
proof (induction as arbitrary: s cur prev processed fuel)
  case Nil
  then show ?case by (cases fuel) (simp_all add: loop.simps time_body_def)
next
  case (Cons a as)
  then obtain te fuel' where te: "cur = Some a" "tevs s a = Some te" "chain (tevs s) te_next (te_next te) as"
    and fuel: "fuel = Suc fuel'" "length as < fuel'"
    by (cases fuel) (auto split: option.splits)
  have live: "te_id te \<noteq> AE_DELETED_EVENT_ID" using Cons.prems(1) te(2) by (rule inv_live)
  have goon: "wp (bnd (get_tev a) (\<lambda>te'. loop fuel' (time_body P maxId) (Some a, te_next te', n))) (\<lambda>_. I) E t"
    if "I t" "tevs t = (tevs s)(a \<mapsto> te\<lparr>when_sec := x, when_ms := y\<rparr>)" for t n x y
  proof -
    have "chain (tevs t) te_next (te_next te) as" using te that by simp
    then have "wp (loop fuel' (time_body P maxId) (Some a, te_next te, n)) (\<lambda>_. I) E t"
      using that(1) fuel(2) by (intro Cons.IH)
    with that(2) show ?thesis by (simp add: wp_get_tev)
  qed
  have turn: "wp (when_do (is_due te now) (run_timer P a te)) (\<lambda>_. wp (bnd (get_tev a) (\<lambda>te'.
      loop fuel' (time_body P maxId) (Some a, te_next te', n))) (\<lambda>_. I) E) E t"
    if t: "quiet s t" for now n t
  proof -
    have It: "I t" and same: "tevs t = tevs s" using Cons.prems(1) t by (auto intro: inv_quiet simp: quiet_ae)
    have eq: "te\<lparr>when_sec := when_sec te, when_ms := when_ms te\<rparr> = te" by simp
    have "wp (run_timer P a te) (\<lambda>_. wp (bnd (get_tev a) (\<lambda>te'.
      loop fuel' (time_body P maxId) (Some a, te_next te', n))) (\<lambda>_. I) E) E t"
      by (rule wp_weaken [OF wp_run_timer [OF _ time_ok [OF It]]]) (use te same goon in auto)
    moreover have "wp (bnd (get_tev a) (\<lambda>te'.
      loop fuel' (time_body P maxId) (Some a, te_next te', n))) (\<lambda>_. I) E t"
      by (rule goon [OF It, where x = "when_sec te" and y = "when_ms te"])
         (use te same in \<open>simp add: eq fun_upd_idem\<close>)
    ultimately show ?thesis by simp
  qed
  have "wp aeGetTime (\<lambda>now. wp (when_do (is_due te now) (run_timer P a te)) (\<lambda>_. wp (bnd (get_tev a) (\<lambda>te'.
      loop fuel' (time_body P maxId)
        (Some a, te_next te', if is_due te now then processed + 1 else processed))) (\<lambda>_. I) E) E) E s"
    by (rule quiet_wp [OF quiet_aeGetTime]) (rule turn)
  moreover have "wp (loop fuel' (time_body P maxId) (prev, te_next te, processed)) (\<lambda>_. I) E s"
    using Cons.prems(1) te(3) fuel(2) by (rule Cons.IH)
  ultimately show ?case
    using te fuel(1) live
    by (cases "te_id te > maxId") (simp_all add: loop.simps(2) time_body_def wp_get_tev wp_bnd_fun wp_thn_fun)
qed

lemma wp_skew_loop:
  assumes "I s" and "chain (tevs s) te_next cur as" and "length as < fuel"
  shows "wp (loop fuel skew_body cur) (\<lambda>_ t. I t \<and> el t = el s \<and> tev_brk t = tev_brk s
      \<and> (\<forall>p ts. chain (tevs t) te_next p ts = chain (tevs s) te_next p ts)) E s"
  using assms
proof (induction as arbitrary: s cur fuel)
  case Nil
  then show ?case by (cases fuel) (simp_all add: loop.simps skew_body_def)
next
  case (Cons a as)
  then obtain te fuel' where te: "cur = Some a" "tevs s a = Some te" "chain (tevs s) te_next (te_next te) as"
    and fuel: "fuel = Suc fuel'" "length as < fuel'"
    by (cases fuel) (auto split: option.splits)
  let ?s = "s\<lparr>tevs := (tevs s)(a \<mapsto> te\<lparr>when_sec := 0\<rparr>)\<rparr>"
  have eq: "te\<lparr>when_sec := 0\<rparr> = te\<lparr>when_sec := 0, when_ms := when_ms te\<rparr>" by simp
  have same: "chain (tevs ?s) te_next p ts = chain (tevs s) te_next p ts" for p ts
    using chain_due [where T = "tevs s" and x = 0 and y = "when_ms te", OF te(2)] unfolding eq [symmetric] by simp
  have "I ?s"
    using inv_due [OF Cons.prems(1) te(2), where x = 0 and y = "when_ms te"] unfolding eq [symmetric] .
  from Cons.IH [OF this _ fuel(2), of "te_next te"] te(3)
  have "wp (loop fuel' skew_body (te_next te)) (\<lambda>_ t. I t \<and> el t = el ?s \<and> tev_brk t = tev_brk ?s
      \<and> (\<forall>p ts. chain (tevs t) te_next p ts = chain (tevs ?s) te_next p ts)) E ?s"
    unfolding same by simp
  then show ?case
    using te fuel unfolding same by (simp add: loop.simps(2) skew_body_def [of "Some a"] wp_get_tev wp_upd_tev)
qed

lemma wp_processTimeEvents:
  assumes "I s"
  shows "wp (processTimeEvents P) (\<lambda>_. I) E s"
proof -
  have rest: "wp (thn (upd_loop (\<lambda>L. L\<lparr>lastTime := now\<rparr>))
      (loop fuel (time_body P maxId) (None, head, 0))) (\<lambda>_. I) E t"
    if t: "I t" "chain (tevs t) te_next head ts" "length ts < fuel" for t now maxId head fuel ts
  proof -
    obtain L where L: "el t = Some L" using inv_table [OF t(1)] by blast
    from inv_clock [OF t(1) L] show ?thesis
      using t(2,3) by (simp add: wp_upd_loop [OF L]) (rule wp_time_loop, auto)
  qed
  have "wp (bnd get_loop (\<lambda>L. bnd (gets tev_fuel) (\<lambda>fuel.
       thn (when_do (now < lastTime L) (loop fuel skew_body (timeEventHead L)))
      (thn (upd_loop (\<lambda>L. L\<lparr>lastTime := now\<rparr>))
        (loop fuel (time_body P (timeEventNextId L - 1)) (None, timeEventHead L, 0)))))) (\<lambda>_. I) E t"
    if t: "quiet s t" for now t
  proof -
    have It: "I t" using assms t by (rule inv_quiet)
    obtain L where L: "el t = Some L" using inv_table [OF It] by blast
    obtain ts where ts: "chain (tevs t) te_next (timeEventHead L) ts" "dom (tevs t) \<subseteq> {..<tev_brk t}"
      using inv_timers [OF It L] by blast
    have len: "length ts < tev_fuel t" using chain_bounded [OF ts] by (simp add: tev_fuel_def)
    let ?rest = "thn (upd_loop (\<lambda>L. L\<lparr>lastTime := now\<rparr>))
        (loop (tev_fuel t) (time_body P (timeEventNextId L - 1)) (None, timeEventHead L, 0))"
    have "wp (loop (tev_fuel t) skew_body (timeEventHead L)) (\<lambda>_. wp ?rest (\<lambda>_. I) E) E t"
      by (rule wp_weaken [OF wp_skew_loop [OF It ts(1) len]]) (use rest ts len in blast)
    moreover have "wp ?rest (\<lambda>_. I) E t" using It ts(1) len by (rule rest)
    ultimately show ?thesis
      unfolding wp_bnd wp_get_loop [OF L] wp_gets wp_thn [of "when_do b m" for b m] wp_when_do by simp
  qed
  then show ?thesis
    unfolding processTimeEvents_def wp_bnd [of sys_time] by (rule quiet_wp [OF quiet_time])
qed

lemma wp_aeProcessEvents: "I s \<Longrightarrow> wp (aeProcessEvents P flags) (\<lambda>_. I) E s"
  by (rule wp_phases) (simp_all add: wp_processTimeEvents)

end

locale event_client = event_timers P I E M
  for P :: "('z aestate_scheme) procs" and I and E and M +
  assumes inv_start: "I s \<Longrightarrow> el s = Some L \<Longrightarrow> I (s\<lparr>el := Some (L\<lparr>stop := False\<rparr>)\<rparr>)"
    and sleep_ok: "I s \<Longrightarrow> el s = Some L \<Longrightarrow> beforesleep L = Some q \<Longrightarrow>
          wp (call_sleep P q) (\<lambda>_ t. I t \<and> loop_kept s t) E s"
    and signal_ok: "I s \<Longrightarrow> wp (call_signal P) (\<lambda>_. I) E s"
begin

lemma wp_main_turn:
  assumes "I s"
  shows "wp (main_turn P) (\<lambda>_. I) E s"
proof -
  let ?body = "bnd get_loop (\<lambda>L. thn (case beforesleep L of None \<Rightarrow> ret () | Some f \<Rightarrow> call_sleep P f)
      (thn (aeProcessEvents P AE_ALL_EVENTS) (ret ())))"
  have "wp ?body (\<lambda>_. I) E t" if t: "I t" for t
  proof -
    obtain L where L: "el t = Some L" using inv_table [OF t] by blast
    have "wp (case beforesleep L of None \<Rightarrow> ret () | Some f \<Rightarrow> call_sleep P f) (\<lambda>_. I) E t"
      using t wp_weaken [OF sleep_ok [OF t L]] by (auto split: option.split)
    then have "wp (case beforesleep L of None \<Rightarrow> ret () | Some f \<Rightarrow> call_sleep P f)
        (\<lambda>_. wp (thn (aeProcessEvents P AE_ALL_EVENTS) (ret ())) (\<lambda>_. I) E) E t"
      by (rule wp_weaken) (simp add: wp_aeProcessEvents)
    then show ?thesis by (simp add: wp_get_loop [OF L])
  qed
  then have "wp (call_signal P) (\<lambda>_. wp ?body (\<lambda>_. I) E) E s"
    by (rule wp_weaken [OF signal_ok [OF assms]])
  then show ?thesis unfolding main_turn_def wp_thn .
qed

text \<open>However many turns the loop is given, it stays safe, and it returns only when it was stopped.\<close>

lemma wp_aeMain:
  assumes "I s"
  shows "wp (aeMain P fuel) (\<lambda>_ t. I t \<and> (\<exists>L. el t = Some L \<and> stop L)) (\<lambda>h. E h \<or> h = OutOfFuel) s"
proof -
  have "wp (loop fuel (main_body P) ()) (\<lambda>_ t. I t \<and> (\<exists>L. el t = Some L \<and> stop L))
      (\<lambda>h. E h \<or> h = OutOfFuel) t" if "I t" for t
    using that
  proof (induction fuel arbitrary: t)
    case 0
    then show ?case by (simp add: loop.simps)
  next
    case (Suc fuel)
    obtain L where L: "el t = Some L" using inv_table [OF Suc.prems] by blast
    have "wp (main_turn P) (\<lambda>_. wp (loop fuel (main_body P) ())
        (\<lambda>_ t. I t \<and> (\<exists>L. el t = Some L \<and> stop L)) (\<lambda>h. E h \<or> h = OutOfFuel)) (\<lambda>h. E h \<or> h = OutOfFuel) t"
      by (rule wp_mono [OF wp_main_turn [OF Suc.prems]]) (use Suc.IH in auto)
    with Suc.prems L show ?case by (simp add: main_fuel_Suc wp_get_loop [OF L])
  qed
  moreover obtain L where L: "el s = Some L" using inv_table [OF assms] by blast
  ultimately show ?thesis using inv_start [OF assms L] by (simp add: aeMain_def wp_upd_loop [OF L])
qed

end

end
