(* ===== verification/AeProps.thy ===== *)
theory AeProps
  imports AeLoop Demo
begin

text \<open>
  What is claimed of the operations of the event loop (\<open>src/ae.c\<close>): registering and deleting file
  events, resizing the table, creating, deleting and searching timers. \<open>table_ok\<close> (\<open>AeFiles\<close>) says
  that the event table, \<open>maxfd\<close> and the kernel's epoll set agree.
\<close>

section \<open>File events\<close>

text \<open>
  C21: registering an event is all or nothing. With \<open>AE_OK\<close> exactly the asked for bits are added to
  the descriptor's mask, with \<open>AE_ERR\<close> (no room in the table, or refused by the kernel) no mask
  changes; in both cases table, \<open>maxfd\<close> and epoll set agree again.
\<close>

theorem aeCreateFileEvent_in_step:
  fixes s :: "'z aestate_scheme"
  assumes "el s = Some L" and "table_ok L (interest s)" and "0 \<le> fd" "fd \<in> set (fds s)" and "m \<noteq> AE_NONE"
  shows "wp (aeCreateFileEvent fd m proc cd)
    (\<lambda>r t. \<exists>M. el t = Some M \<and> table_ok M (interest t)
       \<and> (r = AE_OK \<and> fd < setsize L \<and> evmask M = (evmask L)(fd := evmask L fd OR m) \<or> r = AE_ERR \<and> M = L))
    (\<lambda>_. False) s"
proof (rule wp_aeCreateFileEvent [OF assms(1-4)])
  fix t :: "'z aestate_scheme"
  assume "quiet s t"
  then show "\<exists>M. el t = Some M \<and> table_ok M (interest t) \<and> (AE_ERR = AE_OK \<and> fd < setsize L
      \<and> evmask M = (evmask L)(fd := evmask L fd OR m) \<or> AE_ERR = AE_ERR \<and> M = L)"
    using assms by (simp add: quiet_ae)
next
  fix t :: "'z aestate_scheme"
  assume fd: "fd < setsize L"
  let ?M = "with_event L fd m proc cd"
  have "table_ok ?M ((interest s)(fd \<mapsto> epoll_events_of (evmask L fd OR m)))"
    using assms fd by (intro table_ok_with_event)
  moreover have "evmask ?M = (evmask L)(fd := evmask L fd OR m)"
    using assms fd by (simp add: with_event_def table_ok_def evmask_set register_event_def) (simp add: evmask_def)
  ultimately show "\<exists>M. el (t\<lparr>interest := (interest s)(fd \<mapsto> epoll_events_of (evmask L fd OR m)), el := Some ?M\<rparr>) = Some M
      \<and> table_ok M (interest (t\<lparr>interest := (interest s)(fd \<mapsto> epoll_events_of (evmask L fd OR m)), el := Some ?M\<rparr>))
      \<and> (AE_OK = AE_OK \<and> fd < setsize L \<and> evmask M = (evmask L)(fd := evmask L fd OR m) \<or> AE_OK = AE_ERR \<and> M = L)"
    using fd by simp
qed

theorem aeCreateFileEvent_in_step_witness:
  "wp (aeCreateFileEvent 6 AE_READABLE 1 None)
    (\<lambda>r t. r = AE_OK \<and> evmask (the (el t)) 6 = AE_READABLE \<or> r = AE_ERR \<and> el t = Some demo_loop)
    (\<lambda>_. False) (demo_world (\<lambda>_. no_reply\<lparr>r_ok := True\<rparr>) [])"
proof -
  have "evmask demo_loop 6 = AE_NONE" by (simp add: demo_evmask)
  then show ?thesis
    by (intro wp_weaken [OF aeCreateFileEvent_in_step [OF _ demo_table]]) (auto simp: demo_world_def)
qed

text \<open>
  C22: deleting all the events a descriptor is registered for, and any others with them, leaves it
  unwatched in the table and in the epoll set, other descriptors as they were, and \<open>maxfd\<close> at the
  highest descriptor still watched; on a descriptor that is not registered nothing happens.
\<close>

theorem aeDeleteFileEvent_in_step:
  fixes s :: "'z aestate_scheme"
  assumes "el s = Some L" and "table_ok L (interest s)" and "0 \<le> fd" "fd \<in> set (fds s)"
    and "evmask L fd AND NOT m = AE_NONE"
  shows "wp (aeDeleteFileEvent fd m)
    (\<lambda>_ t. \<exists>M. el t = Some M \<and> table_ok M (interest t) \<and> evmask M = (evmask L)(fd := AE_NONE)
       \<and> interest t fd = None \<and> (\<forall>h. evmask M h \<noteq> AE_NONE \<longrightarrow> h \<le> maxfd M)) (\<lambda>_. False) s"
proof (rule wp_delete_all [OF assms])
  have ok: "table_ok (dropped L fd m) ((interest s)(fd := None))" "evmask (dropped L fd m) = (evmask L)(fd := AE_NONE)"
    using dropped_ok [OF assms(2,5)] by simp_all
  then show "\<exists>M. el (s\<lparr>interest := (interest s)(fd := None), el := Some (dropped L fd m)\<rparr>) = Some M
      \<and> table_ok M (interest (s\<lparr>interest := (interest s)(fd := None), el := Some (dropped L fd m)\<rparr>))
      \<and> evmask M = (evmask L)(fd := AE_NONE)
      \<and> interest (s\<lparr>interest := (interest s)(fd := None), el := Some (dropped L fd m)\<rparr>) fd = None
      \<and> (\<forall>h. evmask M h \<noteq> AE_NONE \<longrightarrow> h \<le> maxfd M)"
    by (auto simp: table_ok_def is_highest_def)
qed

theorem aeDeleteFileEvent_in_step_witness:
  "wp (aeDeleteFileEvent 5 AE_WRITABLE) (\<lambda>_ t. interest t 5 = None \<and> interest t 4 = Some EPOLLIN) (\<lambda>_. False)
    (demo_world (\<lambda>_. no_reply) [])"
proof -
  have "evmask demo_loop 5 AND NOT AE_WRITABLE = AE_NONE" "evmask demo_loop 4 = AE_READABLE"
    by (simp_all add: demo_evmask)
  then show ?thesis
    by (intro wp_weaken [OF aeDeleteFileEvent_in_step [OF _ demo_table]])
      (auto simp: demo_world_def table_ok_def watch_def epoll_events_of_def)
qed

section \<open>Resizing the table\<close>

lemma length_resized [simp]: "length (resized d n xs) = n" "length (cleared_from m evs) = length evs"
  by (auto simp: resized_def cleared_from_def)

lemma evmask_resized:
  assumes ok: "table_ok L I" and sz: "maxfd L < sz"
  shows "evmask (L\<lparr>fired := f, setsize := sz,
      events := cleared_from (nat (maxfd L + 1)) (resized blank_event (nat sz) (events L))\<rparr>) fd = evmask L fd"
proof -
  let ?evs = "resized blank_event (nat sz) (events L)"
  have len: "length (events L) = nat (setsize L)" "length ?evs = nat sz" "-1 \<le> maxfd L" "maxfd L < setsize L \<or> maxfd L = -1"
    using ok by (auto simp: table_ok_def resized_def is_highest_def evmask_def split: if_splits)
  show ?thesis
  proof (cases "0 \<le> fd \<and> fd \<le> maxfd L")
    case True
    then have "nat fd < nat (maxfd L + 1)" "fd < setsize L" "fd < sz" "nat fd < nat sz" "nat fd < length (events L)"
      using sz len by auto
    with True sz show ?thesis
      by (simp add: evmask_def cleared_from_def nth_append resized_def)
  next
    case False
    moreover have "evmask L fd = AE_NONE \<or> fd \<le> maxfd L" using ok by (auto simp: table_ok_def is_highest_def)
    ultimately have "evmask L fd = AE_NONE" by (auto simp: evmask_def)
    moreover have "fe_mask (cleared_from (nat (maxfd L + 1)) ?evs ! nat fd) = AE_NONE" if "0 \<le> fd" "fd < sz"
      using that False sz len by (simp add: cleared_from_def nth_append)
    ultimately show ?thesis by (simp add: evmask_def)
  qed
qed

text \<open>
  C34: resizing is refused exactly when a watched descriptor would not fit. Otherwise the table has the
  new size, every watched descriptor is still watched for the same events, and the new slots are empty:
  the table agrees with the epoll set as before. The comment in the code says it is refused from the new
  size minus one on. It fails in no other way than by an unchecked allocation.
\<close>

theorem aeResizeSetSize_keeps_table:
  fixes s :: "'z aestate_scheme"
  assumes "el s = Some L" and "table_ok L (interest s)"
  shows "wp (aeResizeSetSize sz)
    (\<lambda>r t. \<exists>M. el t = Some M \<and> table_ok M (interest t) \<and> evmask M = evmask L
       \<and> (if maxfd L < sz then r = AE_OK \<and> setsize M = sz else setsize M = setsize L \<and> r = (if sz = setsize L then AE_OK else AE_ERR)))
    (\<lambda>h. h = NullDeref) s"
proof -
  let ?f = "resized \<lparr>fired_fd = 0, fired_mask = 0\<rparr> (nat sz) (fired L)"
  let ?M = "L\<lparr>fired := ?f, setsize := sz,
    events := cleared_from (nat (maxfd L + 1)) (resized blank_event (nat sz) (events L))\<rparr>"
  have "maxfd L = -1 \<or> evmask L (maxfd L) \<noteq> AE_NONE" "0 \<le> setsize L"
    using assms(2) by (simp_all add: table_ok_def is_highest_def)
  then have high: "maxfd L < setsize L" "-1 \<le> maxfd L" by (auto simp: evmask_def split: if_splits)
  show ?thesis
  proof (cases "maxfd L < sz \<and> sz \<noteq> setsize L")
    case False
    with assms high show ?thesis
      by (cases "sz = setsize L") (simp_all add: aeResizeSetSize_def wp_get_loop [OF assms(1)])
  next
    case True
    have mask: "evmask ?M = evmask L" by (rule ext, rule evmask_resized [OF assms(2)]) (use True in simp)
    have "0 \<le> sz" using high True by simp
    then have "table_ok ?M (interest s)"
      using assms(2) mask by (simp add: table_ok_def is_highest_def)
    with mask True have Q: "\<exists>M. el (s\<lparr>calls := c, el := Some ?M\<rparr>) = Some M \<and> table_ok M (interest (s\<lparr>calls := c, el := Some ?M\<rparr>))
       \<and> evmask M = evmask L \<and> (if maxfd L < sz then AE_OK = AE_OK \<and> setsize M = sz
         else setsize M = setsize L \<and> AE_OK = (if sz = setsize L then AE_OK else AE_ERR))" for c
      by simp
    have "wp (aeResizeSetSize sz) Q (\<lambda>h. h = NullDeref) s"
      if "\<And>c. Q AE_OK (s\<lparr>calls := c, el := Some ?M\<rparr>)" for Q
      using that True by (simp add: aeResizeSetSize_def aeApiResize_def realloc_array_def sys_malloc_def wp_kernel
          upd_loop_def get_loop_def assms(1) not_le)
    note run = this
    show ?thesis by (rule run) (rule Q)
  qed
qed

theorem aeResizeSetSize_keeps_table_witness:
  "wp (aeResizeSetSize 6) (\<lambda>r t. r = AE_OK \<and> evmask (the (el t)) = evmask demo_loop) (\<lambda>h. h = NullDeref)
     (demo_world (\<lambda>_. no_reply\<lparr>r_ok := True\<rparr>) [])
   \<and> wp (aeResizeSetSize 5) (\<lambda>r t. r = AE_ERR) (\<lambda>h. h = NullDeref) (demo_world (\<lambda>_. no_reply) [])"
proof
  have L: "el (demo_world ans buf) = Some demo_loop" for ans buf by (simp add: demo_world_def)
  have fields: "maxfd demo_loop = 5" "setsize demo_loop = 8" by (simp_all add: demo_loop_def)
  show "wp (aeResizeSetSize 6) (\<lambda>r t. r = AE_OK \<and> evmask (the (el t)) = evmask demo_loop) (\<lambda>h. h = NullDeref)
     (demo_world (\<lambda>_. no_reply\<lparr>r_ok := True\<rparr>) [])"
    by (rule wp_weaken [OF aeResizeSetSize_keeps_table [OF L demo_table]]) (auto simp: fields)
  show "wp (aeResizeSetSize 5) (\<lambda>r t. r = AE_ERR) (\<lambda>h. h = NullDeref) (demo_world (\<lambda>_. no_reply) [])"
    by (rule wp_weaken [OF aeResizeSetSize_keeps_table [OF L demo_table]]) (auto simp: fields)
qed

section \<open>Timers\<close>

text \<open>
  C27: the search for the nearest timer returns a timer of the list that no other is due before, in
  the order of seconds and then milliseconds, and none exactly when there are no timers. It changes
  nothing and its walk ends.
\<close>

theorem aeSearchNearestTimer_minimal:
  assumes "el s = Some L" and "chain (tevs s) te_next (timeEventHead L) ts" and "dom (tevs s) \<subseteq> {..<tev_brk s}"
  shows "\<exists>r. aeSearchNearestTimer s = Inr (r, s)
    \<and> (case r of None \<Rightarrow> ts = []
       | Some a \<Rightarrow> a \<in> set ts \<and> (\<forall>b\<in>set ts. due_of (the (tevs s a)) \<le> due_of (the (tevs s b))))"
proof -
  have "wp aeSearchNearestTimer (\<lambda>r t. t = s \<and> nearest_in (tevs s) ts r) (\<lambda>_. False) s"
    by (rule wp_aeSearchNearestTimer [OF assms]) simp
  then show ?thesis by (auto simp: wp_returns nearest_in_def)
qed

definition two_timers :: world where
  "two_timers = (demo_world (\<lambda>_. no_reply) [])
     \<lparr>tevs := [0 \<mapsto> demo_timer\<lparr>when_sec := 9\<rparr>, 1 \<mapsto> demo_timer\<lparr>te_id := 1, when_sec := 4, te_next := Some 0\<rparr>],
      tev_brk := 2, el := Some (demo_loop\<lparr>timeEventHead := Some 1\<rparr>)\<rparr>"

lemma two_timers_list:
  "el two_timers = Some (demo_loop\<lparr>timeEventHead := Some 1\<rparr>)"
  "chain (tevs two_timers) te_next (timeEventHead (demo_loop\<lparr>timeEventHead := Some 1\<rparr>)) [1, 0]"
  "dom (tevs two_timers) \<subseteq> {..<tev_brk two_timers}"
  by (auto simp: two_timers_def demo_timer_def)

theorem aeSearchNearestTimer_minimal_witness:
  "aeSearchNearestTimer two_timers = Inr (Some 1, two_timers)"
proof -
  obtain r where r: "aeSearchNearestTimer two_timers = Inr (r, two_timers)"
    "case r of None \<Rightarrow> [1, 0] = ([] :: nat list) | Some a \<Rightarrow> a \<in> set [1, 0]
       \<and> (\<forall>b\<in>set [1, 0]. due_of (the (tevs two_timers a)) \<le> due_of (the (tevs two_timers b)))"
    using aeSearchNearestTimer_minimal [OF two_timers_list] by blast
  have "\<not> due_of (the (tevs two_timers 0)) \<le> due_of (the (tevs two_timers 1))"
    by (simp add: two_timers_def demo_timer_def due_of_def less_eq_due_def)
  with r show ?thesis by (auto split: option.splits)
qed

text \<open>
  C35: creating a timer puts it at the head of the list with a new id and a due time in normal form, and
  leaves the other timers alone; when memory runs out the list stays as it was and only the id is used up.
\<close>

theorem aeCreateTimeEvent_adds:
  fixes s :: "'z aestate_scheme"
  assumes "el s = Some L" and "chain (tevs s) te_next (timeEventHead L) ts" and "dom (tevs s) \<subseteq> {..<tev_brk s}"
    and "0 \<le> timeEventNextId L"
  shows "wp (aeCreateTimeEvent milliseconds proc cd fin)
    (\<lambda>r t. \<exists>M. el t = Some M \<and> timeEventNextId M = timeEventNextId L + 1 \<and> dom (tevs t) \<subseteq> {..<tev_brk t}
       \<and> (if r = AE_ERR then tevs t = tevs s \<and> timeEventHead M = timeEventHead L
          else r = timeEventNextId L \<and> chain (tevs t) te_next (timeEventHead M) (tev_brk s # ts)
            \<and> (\<exists>sec ms. tevs t = (tevs s)(tev_brk s \<mapsto> new_timer L proc cd fin sec ms)))) (\<lambda>_. False) s"
proof (rule wp_aeCreateTimeEvent [OF assms(1)])
  fix t :: "'z aestate_scheme"
  assume "quiet (s\<lparr>el := Some (L\<lparr>timeEventNextId := timeEventNextId L + 1\<rparr>)\<rparr>) t"
  from quiet_ae [OF this] assms show "\<exists>M. el t = Some M \<and> timeEventNextId M = timeEventNextId L + 1
       \<and> dom (tevs t) \<subseteq> {..<tev_brk t}
       \<and> (if AE_ERR = AE_ERR then tevs t = tevs s \<and> timeEventHead M = timeEventHead L
          else AE_ERR = timeEventNextId L \<and> chain (tevs t) te_next (timeEventHead M) (tev_brk s # ts)
            \<and> (\<exists>sec ms. tevs t = (tevs s)(tev_brk s \<mapsto> new_timer L proc cd fin sec ms)))" by simp
next
  fix t :: "'z aestate_scheme" and sec ms
  let ?T = "(tevs s)(tev_brk s \<mapsto> new_timer L proc cd fin sec ms)"
  have "tev_brk s \<notin> set ts" using chain_dom [OF assms(2)] assms(3) by auto
  then have "chain ?T te_next (Some (tev_brk s)) (tev_brk s # ts)"
    using assms(2) by (simp add: new_timer_def)
  moreover have "dom ?T \<subseteq> {..<Suc (tev_brk s)}" using assms(3) by (auto intro: less_SucI)
  ultimately show "\<exists>M. el (t\<lparr>tev_brk := Suc (tev_brk s), tevs := ?T,
        el := Some (L\<lparr>timeEventNextId := timeEventNextId L + 1, timeEventHead := Some (tev_brk s)\<rparr>)\<rparr>) = Some M
       \<and> timeEventNextId M = timeEventNextId L + 1
       \<and> dom (tevs (t\<lparr>tev_brk := Suc (tev_brk s), tevs := ?T,
        el := Some (L\<lparr>timeEventNextId := timeEventNextId L + 1, timeEventHead := Some (tev_brk s)\<rparr>)\<rparr>))
         \<subseteq> {..<tev_brk (t\<lparr>tev_brk := Suc (tev_brk s), tevs := ?T,
        el := Some (L\<lparr>timeEventNextId := timeEventNextId L + 1, timeEventHead := Some (tev_brk s)\<rparr>)\<rparr>)}
       \<and> (if timeEventNextId L = AE_ERR then tevs (t\<lparr>tev_brk := Suc (tev_brk s), tevs := ?T,
        el := Some (L\<lparr>timeEventNextId := timeEventNextId L + 1, timeEventHead := Some (tev_brk s)\<rparr>)\<rparr>) = tevs s
            \<and> timeEventHead M = timeEventHead L
          else timeEventNextId L = timeEventNextId L
            \<and> chain (tevs (t\<lparr>tev_brk := Suc (tev_brk s), tevs := ?T,
        el := Some (L\<lparr>timeEventNextId := timeEventNextId L + 1, timeEventHead := Some (tev_brk s)\<rparr>)\<rparr>))
                te_next (timeEventHead M) (tev_brk s # ts)
            \<and> (\<exists>sec ms. tevs (t\<lparr>tev_brk := Suc (tev_brk s), tevs := ?T,
        el := Some (L\<lparr>timeEventNextId := timeEventNextId L + 1, timeEventHead := Some (tev_brk s)\<rparr>)\<rparr>)
                = (tevs s)(tev_brk s \<mapsto> new_timer L proc cd fin sec ms)))"
    using assms(4) by auto
qed

theorem aeCreateTimeEvent_adds_witness:
  "wp (aeCreateTimeEvent 1 7 None None)
    (\<lambda>r t. r \<noteq> AE_ERR \<longrightarrow> r = 1 \<and> chain (tevs t) te_next (timeEventHead (the (el t))) [2, 1, 0]) (\<lambda>_. False) two_timers"
proof -
  have "timeEventNextId (demo_loop\<lparr>timeEventHead := Some 1\<rparr>) = 1" "tev_brk two_timers = 2"
    by (simp_all add: demo_loop_def two_timers_def)
  then show ?thesis
    by (intro wp_weaken [OF aeCreateTimeEvent_adds [OF two_timers_list]]) (auto split: if_splits)
qed

text \<open>
  C36: deleting a timer only marks the first timer of that id; it stays on the list until the next run
  over the timers. An id nobody has is reported and nothing changes.
\<close>

theorem aeDeleteTimeEvent_marks:
  assumes "el s = Some L" and "chain (tevs s) te_next (timeEventHead L) ts" and "dom (tevs s) \<subseteq> {..<tev_brk s}"
  shows "aeDeleteTimeEvent i s =
    (case find (\<lambda>a. te_id (the (tevs s a)) = i) ts of
       None \<Rightarrow> Inr (AE_ERR, s)
     | Some a \<Rightarrow> Inr (AE_OK, s\<lparr>tevs := (tevs s)(a \<mapsto> (the (tevs s a))\<lparr>te_id := AE_DELETED_EVENT_ID\<rparr>)\<rparr>))"
proof -
  let ?res = "case find (\<lambda>a. te_id (the (tevs s a)) = i) ts of
       None \<Rightarrow> (AE_ERR, s)
     | Some a \<Rightarrow> (AE_OK, s\<lparr>tevs := (tevs s)(a \<mapsto> (the (tevs s a))\<lparr>te_id := AE_DELETED_EVENT_ID\<rparr>)\<rparr>)"
  have "wp (aeDeleteTimeEvent i) (\<lambda>r t. (r, t) = ?res) (\<lambda>_. False) s"
    by (simp add: wp_aeDeleteTimeEvent [OF assms] split: option.split)
  then show ?thesis by (auto simp: wp_returns split: option.splits)
qed

theorem aeDeleteTimeEvent_marks_witness:
  "aeDeleteTimeEvent 0 two_timers = Inr (AE_OK, two_timers\<lparr>tevs := (tevs two_timers)(0 \<mapsto>
     demo_timer\<lparr>te_id := AE_DELETED_EVENT_ID, when_sec := 9\<rparr>)\<rparr>)"
proof -
  have "find (\<lambda>a. te_id (the (tevs two_timers a)) = 0) [1, 0] = Some 0"
    by (simp add: two_timers_def demo_timer_def)
  moreover have "(the (tevs two_timers 0))\<lparr>te_id := AE_DELETED_EVENT_ID\<rparr> = demo_timer\<lparr>te_id := AE_DELETED_EVENT_ID, when_sec := 9\<rparr>"
    by (simp add: two_timers_def)
  ultimately show ?thesis using aeDeleteTimeEvent_marks [OF two_timers_list, of 0] by simp
qed

text \<open>
  C37: a due time is in normal form and exactly so many milliseconds after the clock's, when the delay
  is not negative: no millisecond is lost in the carry.
\<close>

theorem aeAddMillisecondsToNow_exact:
  assumes "0 \<le> ms"
  shows "wp (aeAddMillisecondsToNow ms)
    (\<lambda>(sec, m) t. 0 \<le> m \<and> m < 1000 \<and> quiet s t
       \<and> sec * 1000 + m = r_sec (answers s (calls s)) * 1000 + int (r_usec (answers s (calls s)) mod 1000000) div 1000 + ms)
    (\<lambda>_. False) s"
proof -
  let ?r = "answers s (calls s)"
  define now where "now = int (r_usec ?r mod 1000000) div 1000"
  define d m where "d = ms div 1000" and "m = ms mod 1000"
  have now: "0 \<le> now" "now < 1000" by (simp_all add: now_def)
  have ms: "ms = 1000 * d + m" "0 \<le> m" "m < 1000" by (simp_all add: d_def m_def)
  have c: "c_div ms 1000 = d" "c_mod ms 1000 = m"
    using assms unfolding d_def m_def
    by (cases "ms = 0"; simp add: c_div_def c_mod_def signed_divide_int_def signed_modulo_int_def sgn_if)+
  have time: "wp aeGetTime Q E s = Q (r_sec ?r, now) (s\<lparr>calls := Suc (calls s)\<rparr>)" for Q E
    by (simp add: aeGetTime_def sys_gettimeofday_def wp_kernel now_def)
  have "quiet s (s\<lparr>calls := Suc (calls s)\<rparr>)" by (simp add: frame_defs)
  then show ?thesis
    using now ms(2,3) ms(1) [symmetric]
    by (simp add: aeAddMillisecondsToNow_def time Let_def c now_def [symmetric])
qed

theorem aeAddMillisecondsToNow_exact_witness:
  "wp (aeAddMillisecondsToNow 1500) (\<lambda>(sec, m) t. sec * 1000 + m = 2200) (\<lambda>_. False)
    (demo_world (\<lambda>_. no_reply\<lparr>r_usec := 700000\<rparr>) [])"
  by (rule wp_weaken [OF aeAddMillisecondsToNow_exact]) (auto simp: demo_world_def no_reply_def)

end
