(* ===== verification/Shutdown.thy ===== *)
theory Shutdown
  imports LinkOps
begin

text \<open>
  Shutting the serial side down (\<open>serialTerm\<close> of \<open>src/serial.c\<close>): every link is closed and every node
  freed. While this runs the event table goes stale, because the events of a master's link are
  deleted with the flags the master has once its virtual nodes are gone; what stays true is
  \<open>term_ok\<close>, which does not look at the table.
\<close>

section \<open>The invariant of the shutdown\<close>

definition no_loop :: aeEventLoop where
  "no_loop = \<lparr>maxfd = -1, setsize = 0, timeEventNextId = 0, lastTime = 0, events = [], fired = [],
     timeEventHead = None, stop = True, epfd = -1, beforesleep = None\<rparr>"

lemma evmask_no_loop [simp]: "evmask no_loop fd = AE_NONE"
  by (auto simp: evmask_def no_loop_def)

definition loop_shape :: "world \<Rightarrow> bool" where
  "loop_shape s \<longleftrightarrow> (\<exists>L. el s = Some L \<and> 0 \<le> setsize L \<and> length (events L) = nat (setsize L))"

definition term_ok :: "int set \<Rightarrow> world \<Rightarrow> bool" where
  "term_ok B s \<longleftrightarrow>
     links_ok B (nodes s) (\<lambda>_. AE_NONE) (links s) (link_brk s) (fds s) no_loop
     \<and> (\<forall>fd. interest s fd \<noteq> None \<longrightarrow> fd \<in> link_fds (links s)) \<and> loop_shape s \<and> logfile s \<noteq> None"

text \<open>Only nodes, links, descriptors and events differ, and no byte was written.\<close>

definition calm :: "world \<Rightarrow> world \<Rightarrow> bool" where
  "calm s t \<longleftrightarrow> same_env (without_links s) (without_links t) \<and> wrote (trace t) = wrote (trace s)"

lemma calm_refl [simp, intro]: "calm s s"
  by (simp add: calm_def)

lemma calm_trans: "calm s t \<Longrightarrow> calm t u \<Longrightarrow> calm s u"
  by (auto simp: calm_def intro: same_env_trans)

lemma calm_quiet: "quiet s t \<Longrightarrow> calm s t"
  using quiet_link_frame [of s t] by (simp add: calm_def link_frame_def)

lemma calm_nodes [simp]: "calm s (t\<lparr>nodes := N\<rparr>) = calm s t"
  by (simp add: calm_def without_links_def)

lemma calm_world:
  assumes "calm s t"
  shows "node_brk t = node_brk s" "logfile t = logfile s" "tevs t = tevs s" "tev_brk t = tev_brk s"
    "cron_event_id t = cron_event_id s" "map_option bare_loop (el t) = map_option bare_loop (el s)"
  using same_env_world [of "without_links s" "without_links t"] assms
  by (simp_all add: calm_def without_links_def)

lemma links_ok_quiet_loop:
  "links_ok B N flags K brk F L \<Longrightarrow> links_ok B N (\<lambda>_. AE_NONE) K brk F no_loop"
  by (simp add: links_ok_def)

lemma term_ok_start:
  assumes "daemon_ok B ms vs s"
  shows "term_ok B s"
proof -
  obtain L where L: "el s = Some L" "table_ok L (interest s)"
    "links_ok B (nodes s) (ev_flags (nodes s) vs) (links s) (link_brk s) (fds s) L"
    using assms by (rule wf_loop)
  have "fd \<in> link_fds (links s)" if "interest s fd \<noteq> None" for fd
  proof -
    have "evmask L fd \<noteq> AE_NONE" using L(2) that by (auto simp: table_ok_def watch_def)
    then have "fd \<in> set (fds s)" "fd \<notin> B" using links_ok_watched [OF L(3)] by auto
    with links_ok_fds(2) [OF L(3)] show ?thesis by blast
  qed
  moreover have "loop_shape s" using L(1,2) by (auto simp: loop_shape_def table_ok_def)
  moreover have "logfile s \<noteq> None" using assms by (simp add: daemon_ok_def)
  ultimately show ?thesis
    using links_ok_quiet_loop [OF L(3)] by (simp add: term_ok_def)
qed

lemma term_ok_quiet: "term_ok B s \<Longrightarrow> quiet s t \<Longrightarrow> term_ok B t"
  by (simp add: term_ok_def loop_shape_def quiet_world)

lemma term_ok_log: "term_ok B s \<Longrightarrow> log_ok s"
  using links_ok_fds(2) [of B "nodes s" "\<lambda>_. AE_NONE" "links s" "link_brk s" "fds s" no_loop]
  by (auto simp: term_ok_def log_ok_def)

lemma wp_term_log:
  assumes "term_ok B s" and "\<And>t. quiet s t \<Longrightarrow> Q () t"
  shows "wp (serverLog LL_INFO msg) Q E s"
  by (rule wp_serverLog) (use assms term_ok_log in auto)

text \<open>All that \<open>links_ok\<close> reads of the nodes is which link they have.\<close>

lemma links_ok_linkof:
  assumes "linkof N' = linkof N"
  shows "links_ok B N' flags K brk F L = links_ok B N flags K brk F L"
proof -
  have "link_ok M a lk \<longleftrightarrow> 0 \<le> link_fd lk \<and> -1 \<le> link_sfd lk \<and> link_fd lk \<noteq> link_sfd lk \<and> buf_ok lk
      \<and> (\<exists>n. link_node lk = Some n \<and> linkof M n = Some a)" for M a lk
    by (auto simp: link_ok_def linkof_Some)
  then have "link_ok N' = link_ok N" using assms by (auto simp: fun_eq_iff)
  moreover have "(\<forall>n k a. M n = Some k \<longrightarrow> node_link k = Some a \<longrightarrow> (\<exists>lk. K a = Some lk \<and> link_node lk = Some n))
      \<longleftrightarrow> (\<forall>n a. linkof M n = Some a \<longrightarrow> (\<exists>lk. K a = Some lk \<and> link_node lk = Some n))" for M
    by (auto simp: linkof_Some)
  ultimately show ?thesis using assms by (simp add: links_ok_def)
qed

lemma term_ok_nodes: "term_ok B s \<Longrightarrow> linkof N = linkof (nodes s) \<Longrightarrow> term_ok B (s\<lparr>nodes := N\<rparr>)"
  by (simp add: term_ok_def loop_shape_def links_ok_linkof [of N "nodes s"])

section \<open>Closing a link with any flags\<close>

lemma wp_epoll_shrink:
  assumes "opn \<noteq> EPOLL_CTL_ADD"
    and "\<And>r t. same_env s t \<Longrightarrow> fds t = fds s \<Longrightarrow> (\<And>x. interest t x \<noteq> None \<Longrightarrow> interest s x \<noteq> None) \<Longrightarrow> Q r t"
  shows "wp (sys_epoll_ctl opn fd ev) Q E s"
proof -
  have quiet: "Q r (s\<lparr>errno := e\<rparr>)" "Q r (s\<lparr>calls := c, errno := e\<rparr>)" for r e c
    by (rule assms(2); simp add: same_env_def)+
  moreover have "Q r (s\<lparr>interest := (interest s)(fd := None)\<rparr>)" for r
    by (rule assms(2)) (auto simp: same_env_def split: if_splits)
  moreover have "Q r (s\<lparr>calls := c, interest := (interest s)(fd \<mapsto> ev)\<rparr>)" if "interest s fd \<noteq> None" for r c
    by (rule assms(2)) (use that in \<open>auto simp: same_env_def split: if_splits\<close>)
  ultimately show ?thesis
    using assms(1) by (cases opn) (simp_all add: sys_epoll_ctl_def wp_kernel)
qed

lemma wp_delete_any:
  assumes shape: "loop_shape s" and fd: "0 \<le> fd"
    and Q: "\<And>t. calm s t \<Longrightarrow> nodes t = nodes s \<Longrightarrow> links t = links s \<Longrightarrow> link_brk t = link_brk s \<Longrightarrow>
      fds t = fds s \<Longrightarrow> loop_shape t \<Longrightarrow> (\<And>x. interest t x \<noteq> None \<Longrightarrow> interest s x \<noteq> None) \<Longrightarrow> Q () t"
  shows "wp (aeDeleteFileEvent fd m) Q E s"
proof -
  obtain L where L: "el s = Some L" "0 \<le> setsize L" "length (events L) = nat (setsize L)"
    using shape by (auto simp: loop_shape_def)
  show ?thesis
  proof (cases "fd < setsize L \<and> fe_mask (events L ! nat fd) \<noteq> AE_NONE")
    case False
    with Q [of s] shape fd L show ?thesis
      by (auto simp: aeDeleteFileEvent_def wp_get_loop [OF L(1)] event_at_def)
  next
    case True
    let ?fe = "events L ! nat fd"
    let ?u = "\<lambda>t. wp (thn (upd_event fd (\<lambda>fe. fe\<lparr>fe_mask := fe_mask fe AND NOT m\<rparr>)) (upd_loop (\<lambda>L.
        if fd = maxfd L \<and> fe_mask (events L ! nat fd) = AE_NONE
        then L\<lparr>maxfd := highest_below (events L) (nat (maxfd L))\<rparr> else L))) Q E t"
    have upd: "?u t" if t: "same_env s t" "fds t = fds s" "\<And>x. interest t x \<noteq> None \<Longrightarrow> interest s x \<noteq> None" for t
    proof -
      have el: "el t = Some L" using same_env_world [OF t(1)] L(1) by simp
      let ?L = "L\<lparr>events := (events L)[nat fd := ?fe\<lparr>fe_mask := fe_mask ?fe AND NOT m\<rparr>]\<rparr>"
      let ?M = "if fd = maxfd ?L \<and> fe_mask (events ?L ! nat fd) = AE_NONE
          then ?L\<lparr>maxfd := highest_below (events ?L) (nat (maxfd ?L))\<rparr> else ?L"
      have shape_M: "setsize ?M = setsize L" "length (events ?M) = length (events L)" "bare_loop ?M = bare_loop L"
        by (simp_all add: bare_loop_def)
      have "Q () (t\<lparr>el := Some ?M\<rparr>)"
      proof (rule Q)
        show "calm s (t\<lparr>el := Some ?M\<rparr>)"
          using t(1) L(1) shape_M(3) by (cases s; cases t) (simp add: calm_def without_links_def same_env_def)
        show "loop_shape (t\<lparr>el := Some ?M\<rparr>)" using L(2,3) shape_M by (simp add: loop_shape_def)
      qed (use t same_env_world [OF t(1)] in simp_all)
      then show ?thesis by (simp add: upd_event_def wp_upd_loop [OF el] upd_loop_def get_loop_def el)
    qed
    have "wp (sys_epoll_ctl opn fd ev) (\<lambda>_. ?u) E s" if "opn \<noteq> EPOLL_CTL_ADD" for opn ev
      using that upd by (rule wp_epoll_shrink)
    then have "wp (aeApiDelEvent fd m) (\<lambda>_. ?u) E s"
      using True fd L by (simp add: aeApiDelEvent_def event_at_def wp_get_loop [OF L(1)] Let_def wp_bnd_fun wp_thn_fun)
    with True fd L show ?thesis
      by (simp add: aeDeleteFileEvent_def wp_get_loop [OF L(1)] event_at_def wp_thn_fun)
  qed
qed

lemma term_ok_remove:
  assumes ok: "term_ok B s" and a: "links s a = Some lk" "link_node lk = Some n" "nodes s n = Some k"
    and t: "nodes t = (nodes s)(n \<mapsto> k\<lparr>node_link := None\<rparr>)" "links t = (links s)(a := None)"
      "link_brk t = link_brk s" "distinct (fds t)" "set (fds t) = set (fds s) - fds_of lk"
      "\<And>x. interest t x \<noteq> None \<Longrightarrow> interest s x \<noteq> None \<and> x \<notin> fds_of lk" "loop_shape t" "logfile t \<noteq> None"
  shows "term_ok B t"
proof -
  have lks: "links_ok B (nodes s) (\<lambda>_. AE_NONE) (links s) (link_brk s) (fds s) no_loop"
    using ok by (simp add: term_ok_def)
  have "links_ok B (nodes t) (\<lambda>_. AE_NONE) (links t) (link_brk t) (fds t) no_loop"
    unfolding t(1,2,3) by (rule links_ok_remove [OF lks a _ _ t(4,5)]) (auto simp: fun_eq_iff)
  moreover have "link_fds (links t) = link_fds (links s) - fds_of lk"
    unfolding t(2) by (rule link_fds_remove) (rule links_ok_fds(5) [OF lks], assumption+, rule a(1))
  ultimately show ?thesis using ok t(6,7,8) by (auto simp: term_ok_def)
qed

lemma wp_term_free_link:
  assumes ok: "term_ok B s" and a: "links s a = Some lk" "link_node lk = Some n" "nodes s n = Some k"
    and flags: "\<And>R. (\<And>m. R m s) \<Longrightarrow> wp (serialEventFlags (Some n)) R E s"
    and Q: "\<And>t. term_ok B t \<Longrightarrow> calm s t \<Longrightarrow> links t = (links s)(a := None) \<Longrightarrow>
      nodes t = (nodes s)(n \<mapsto> k\<lparr>node_link := None\<rparr>) \<Longrightarrow> Q () t"
  shows "wp (serialFreeLink (Some a)) Q E s"
proof -
  have lks: "links_ok B (nodes s) (\<lambda>_. AE_NONE) (links s) (link_brk s) (fds s) no_loop"
    using ok by (simp add: term_ok_def)
  have fd: "0 \<le> link_fd lk" "-1 \<le> link_sfd lk" "link_fd lk \<noteq> link_sfd lk"
    using lks a(1) by (rule links_ok_link; simp)+
  have "fds_of lk \<subseteq> link_fds (links s)" using a(1) by (auto simp: link_fds_def ran_def)
  then have opened: "link_fd lk \<in> set (fds s)" "link_sfd lk \<noteq> -1 \<Longrightarrow> link_sfd lk \<in> set (fds s)"
    using links_ok_fds(2) [OF lks] by (auto simp: fds_of_def split: if_splits)
  let ?rest = "thn (upd_node (Some n) (\<lambda>n. n\<lparr>node_link := None\<rparr>))
      (thn (thn (sys_close (link_fd lk)) (ret ()))
      (thn (when_do (link_sfd lk \<noteq> -1) (thn (sys_close (link_sfd lk)) (ret ())))
        (modify (\<lambda>s. s\<lparr>links := (links s)(a := None)\<rparr>))))"
  have rest: "wp ?rest Q E t"
    if t: "calm s t" "nodes t = nodes s" "links t = links s" "link_brk t = link_brk s" "fds t = fds s"
      "loop_shape t" "\<And>x. interest t x \<noteq> None \<Longrightarrow> interest s x \<noteq> None" for t
  proof -
    let ?F = "(if link_sfd lk = -1 then remove1 (link_fd lk) (fds s)
        else remove1 (link_sfd lk) (remove1 (link_fd lk) (fds s)))"
    have F: "distinct ?F" "set ?F = set (fds s) - fds_of lk"
      using links_ok_fds(1) [OF lks] by (auto simp: fds_of_def)
    have final: "Q () (t\<lparr>nodes := (nodes s)(n \<mapsto> k\<lparr>node_link := None\<rparr>), fds := ?F, interest := I,
        trace := trace t @ tr, links := (links s)(a := None)\<rparr>)"
      if I: "\<And>x. I x \<noteq> None \<Longrightarrow> interest t x \<noteq> None \<and> x \<notin> fds_of lk" and tr: "wrote tr = []" for I tr
    proof (rule Q)
      show "term_ok B (t\<lparr>nodes := (nodes s)(n \<mapsto> k\<lparr>node_link := None\<rparr>), fds := ?F, interest := I,
          trace := trace t @ tr, links := (links s)(a := None)\<rparr>)"
        using ok a
        by (rule term_ok_remove)
          (use t F I calm_world [OF t(1)] ok in \<open>auto simp: loop_shape_def term_ok_def\<close>)
      show "calm s (t\<lparr>nodes := (nodes s)(n \<mapsto> k\<lparr>node_link := None\<rparr>), fds := ?F, interest := I,
          trace := trace t @ tr, links := (links s)(a := None)\<rparr>)"
        using t(1) tr by (simp add: calm_def without_links_def)
    qed simp_all
    show ?thesis
    proof (cases "link_sfd lk = -1")
      case True
      let ?I = "(interest t)(link_fd lk := None)"
      have "interest t x \<noteq> None \<and> x \<notin> fds_of lk" if "?I x \<noteq> None" for x
        using that True by (auto simp: fds_of_def split: if_splits)
      from final [of ?I "[Closed (link_fd lk)]", OF this] True show ?thesis
        using t a opened by (simp add: wp_upd_node wp_sys_close)
    next
      case False
      let ?I = "(interest t)(link_fd lk := None, link_sfd lk := None)"
      have "interest t x \<noteq> None \<and> x \<notin> fds_of lk" if "?I x \<noteq> None" for x
        using that by (auto simp: fds_of_def split: if_splits)
      from final [of ?I "[Closed (link_fd lk), Closed (link_sfd lk)]", OF this] False show ?thesis
        using t a opened fd by (simp add: wp_upd_node wp_sys_close)
    qed
  qed
  have "loop_shape s" using ok by (simp add: term_ok_def)
  then have "wp (aeDeleteFileEvent (link_fd lk) m) (\<lambda>_. wp ?rest Q E) E s" for m
    using fd(1) by (rule wp_delete_any) (rule rest)
  then have "wp (serialEventFlags (Some n)) (\<lambda>m. wp (aeDeleteFileEvent (link_fd lk) m) (\<lambda>_. wp ?rest Q E) E) E s"
    by (rule flags)
  with a fd(1) show ?thesis
    by (simp add: serialFreeLink_def wp_get_link wp_funs)
qed

text \<open>A node about to be freed gives up its link, if it has one.\<close>

lemma wp_close_node:
  assumes ok: "term_ok B s" and n: "nodes s n = Some k"
    and flags: "\<And>R. (\<And>m. R m s) \<Longrightarrow> wp (serialEventFlags (Some n)) R E s"
    and Q: "\<And>t. term_ok B t \<Longrightarrow> calm s t \<Longrightarrow> nodes t = (nodes s)(n \<mapsto> k\<lparr>node_link := None\<rparr>) \<Longrightarrow> Q () t"
  shows "wp (close_node (Some n)) Q E s"
proof (cases "node_link k")
  case None
  then have "(nodes s)(n \<mapsto> k\<lparr>node_link := None\<rparr>) = nodes s" using n by (cases k) (auto simp: fun_upd_idem)
  with Q [of s] ok n None show ?thesis by (simp add: close_node_def wp_get_node)
next
  case (Some a)
  have lks: "links_ok B (nodes s) (\<lambda>_. AE_NONE) (links s) (link_brk s) (fds s) no_loop"
    using ok by (simp add: term_ok_def)
  obtain lk where a: "links s a = Some lk" "link_node lk = Some n" using lks n Some by (rule links_ok_node)
  have "wp (serialFreeLink (Some a)) (\<lambda>_. wp (upd_node (Some n) (\<lambda>n. n\<lparr>node_link := None\<rparr>)) Q E) E s"
  proof (rule wp_term_free_link [OF ok a n flags])
    fix t assume t: "term_ok B t" "calm s t" "nodes t = (nodes s)(n \<mapsto> k\<lparr>node_link := None\<rparr>)"
    have eq: "t\<lparr>nodes := (nodes s)(n \<mapsto> k\<lparr>node_link := None\<rparr>)\<rparr> = t" using t(3) by simp
    show "wp (upd_node (Some n) (\<lambda>n. n\<lparr>node_link := None\<rparr>)) Q E t"
      using Q [OF t] unfolding eq by (simp add: wp_upd_node t(3)) (simp only: eq)
  qed
  with n Some show ?thesis by (simp add: close_node_def wp_get_node)
qed

section \<open>Freeing a node\<close>

text \<open>Freeing a virtual node takes it off its master's list, which is dropped whole.\<close>

lemma wp_free_virtual:
  assumes x: "nodes s x = Some k" "nodeIsVirtual k" "virtual_head k = None" "virtualof k = Some m"
    and m: "nodes s m = Some mn" "m \<noteq> x" "virtual_head mn = None \<or> virtual_head mn = Some x"
    and Q: "\<And>t. quiet s t \<Longrightarrow> Q () (t\<lparr>nodes := (nodes s)(x := None, m \<mapsto> mn\<lparr>virtual_head := None\<rparr>)\<rparr>)"
  shows "wp (serialFreeNode (Some x)) Q E s"
proof -
  let ?t = "\<lambda>t. t\<lparr>nodes := (nodes s)(x := None, m \<mapsto> mn\<lparr>virtual_head := None\<rparr>)\<rparr>"
  let ?rest = "thn (bnd (get_node (Some x)) (\<lambda>node'. when_do (virtualof node' \<noteq> None)
        (serialRemoveVirtualNode (virtualof node') (Some x))))
      (thn (upd_node (Some x) (\<lambda>c. c\<lparr>virtual_head := None\<rparr>))
        (modify (\<lambda>s. s\<lparr>nodes := (nodes s)(x := None)\<rparr>)))"
  have rest: "wp ?rest Q E t" if t: "quiet s t" for t
  proof (cases "virtual_head mn")
    case None
    then have "(nodes s)(x := None) = (nodes s)(x := None, m \<mapsto> mn\<lparr>virtual_head := None\<rparr>)"
      using m by (cases mn) (auto simp: fun_eq_iff)
    with Q [OF t] None x m quiet_world [OF t] show ?thesis
      by (simp add: serialRemoveVirtualNode_def node_fuel_def wp_get_node loop.simps(2) remove_body_def wp_upd_node)
  next
    case (Some h)
    then have "(nodes s)(x := None, m \<mapsto> mn\<lparr>virtual_head := None\<rparr>)
        = (nodes s)(m \<mapsto> mn\<lparr>virtual_head := None\<rparr>, x := None)"
      using m by (auto simp: fun_eq_iff)
    with Q [OF t] Some x m quiet_world [OF t] show ?thesis
      by (auto simp: serialRemoveVirtualNode_def node_fuel_def wp_get_node loop.simps(2) remove_body_def wp_upd_node)
  qed
  have "wp (sys_remove nm) (\<lambda>_. wp ?rest Q E) E s" for nm
    by (rule quiet_wp [OF quiet_remove]) (rule rest)
  with x show ?thesis
    by (simp add: serialFreeNode_def node_fuel_def wp_get_node loop.simps(2) orphan_body_def wp_funs)
qed

lemma wp_free_master:
  assumes "nodes s m = Some n" and "\<not> nodeIsVirtual n" and "virtual_head n = None"
    and "Q () (s\<lparr>nodes := (nodes s)(m := None)\<rparr>)"
  shows "wp (serialFreeNode (Some m)) Q E s"
  using assms
  by (simp add: serialFreeNode_def node_fuel_def wp_get_node loop.simps(2) orphan_body_def wp_upd_node)

lemma wp_flags_virtual:
  assumes "nodes s x = Some k" and "nodeIsVirtual k" "\<not> nodeIsMaster k" and "\<And>m. R m s"
  shows "wp (serialEventFlags (Some x)) R E s"
  using assms by (simp add: serialEventFlags_def wp_get_node)

lemma wp_flags_master:
  assumes "nodes s x = Some k" and "nodeIsMaster k" "virtual_head k = None" and "\<And>m. R m s"
  shows "wp (serialEventFlags (Some x)) R E s"
proof -
  have "wp (search_chain (node_fuel s) nodes node_next nodeIsWriter None) Q E s = Q None s" for Q
    using wp_search [of nodes s node_next None "[]" "node_fuel s"] by (simp add: node_fuel_def)
  with assms show ?thesis
    by (simp add: serialEventFlags_def wp_get_node serialGetVirtualWriterNode_def)
qed

section \<open>The walks\<close>

text \<open>The nodes after the virtual nodes \<open>xs\<close> of master \<open>m\<close> are gone.\<close>

definition orphaned :: "(nat \<Rightarrow> serialNode option) \<Rightarrow> nat \<Rightarrow> nat list \<Rightarrow> (nat \<Rightarrow> serialNode option)" where
  "orphaned N m xs = (\<lambda>a. if a \<in> set xs then None
     else if a = m then map_option (\<lambda>n. n\<lparr>virtual_head := None\<rparr>) (N m) else N a)"

definition is_virtual_of :: "(nat \<Rightarrow> serialNode option) \<Rightarrow> nat \<Rightarrow> nat \<Rightarrow> bool" where
  "is_virtual_of N m x \<longleftrightarrow> (\<exists>k. N x = Some k \<and> nodeIsVirtual k \<and> \<not> nodeIsMaster k \<and> virtualof k = Some m
     \<and> virtual_head k = None)"

lemma wp_term_virtuals:
  assumes "term_ok B s" and "chain (nodes s) node_next p xs" and "length xs < fuel"
    and "m \<notin> set xs" and "nodes s m = Some mn" and "virtual_head mn = None \<or> virtual_head mn = p"
    and "\<And>x. x \<in> set xs \<Longrightarrow> is_virtual_of (nodes s) m x"
  shows "wp (loop fuel term_virtual p)
    (\<lambda>_ t. term_ok B t \<and> calm s t \<and> nodes t = orphaned (nodes s) m xs) E s"
  using assms
proof (induction xs arbitrary: s p fuel mn)
  case Nil
  then have "p = None" by simp
  moreover have "orphaned (nodes s) m [] = nodes s"
    using Nil.prems(5,6) \<open>p = None\<close> by (cases mn) (auto simp: orphaned_def fun_eq_iff)
  ultimately show ?case using Nil.prems(1,3) by (cases fuel) (simp_all add: loop.simps term_virtual_def)
next
  case (Cons x xs)
  obtain fuel' where fuel: "fuel = Suc fuel'" "length xs < fuel'" using Cons.prems(3) by (cases fuel) auto
  obtain k0 where x: "p = Some x" "nodes s x = Some k0" "chain (nodes s) node_next (node_next k0) xs"
    using Cons.prems(2) by (cases "nodes s x") auto
  have k: "nodeIsVirtual k0" "\<not> nodeIsMaster k0" "virtualof k0 = Some m" "virtual_head k0 = None"
    using Cons.prems(7) [of x] x(2) by (auto simp: is_virtual_of_def)
  have apart: "x \<notin> set xs" "m \<noteq> x" using chain_distinct [OF Cons.prems(2)] Cons.prems(4) by auto
  have head: "virtual_head mn = None \<or> virtual_head mn = Some x" using Cons.prems(6) x(1) by simp
  let ?post = "\<lambda>_ t. term_ok B t \<and> calm s t \<and> nodes t = orphaned (nodes s) m (x # xs)"
  let ?walk = "loop fuel' term_virtual (node_next k0)"
  have walk: "wp ?walk ?post E t"
    if t: "term_ok B t" "calm s t" "nodes t = (nodes s)(x := None, m \<mapsto> mn\<lparr>virtual_head := None\<rparr>)" for t
  proof -
    have same: "nodes t y = nodes s y" if "y \<in> set xs" for y
      using that apart Cons.prems(4) unfolding t(3) by auto
    have "chain (nodes t) node_next (node_next k0) xs"
      using x(3) chain_cong [of xs node_next "nodes t" "nodes s"] same by simp
    note run = Cons.IH [OF t(1) this fuel(2)]
    have virt: "is_virtual_of (nodes t) m y" if "y \<in> set xs" for y
      using Cons.prems(7) [of y] that same by (simp add: is_virtual_of_def)
    have "wp ?walk (\<lambda>_ u. term_ok B u \<and> calm t u \<and> nodes u = orphaned (nodes t) m xs) E t"
      by (rule run [where mn = "mn\<lparr>virtual_head := None\<rparr>", OF _ _ _ virt]) (use Cons.prems(4) t(3) in simp_all)
    then show ?thesis
    proof (rule wp_weaken, elim conjE, intro conjI)
      fix u assume u: "calm t u" "nodes u = orphaned (nodes t) m xs"
      show "calm s u" using t(2) u(1) by (rule calm_trans)
      show "nodes u = orphaned (nodes s) m (x # xs)"
        unfolding u(2) t(3) using apart Cons.prems(4,5) by (auto simp: orphaned_def fun_eq_iff)
    qed
  qed
  have free: "wp (serialFreeNode (Some x)) (\<lambda>_. wp ?walk ?post E) E t"
    if t: "term_ok B t" "calm s t" "nodes t = (nodes s)(x \<mapsto> k0\<lparr>node_link := None\<rparr>)" for t
  proof (rule wp_free_virtual [where k = "k0\<lparr>node_link := None\<rparr>"])
    fix u assume u: "quiet t u"
    let ?u = "u\<lparr>nodes := (nodes t)(x := None, m \<mapsto> mn\<lparr>virtual_head := None\<rparr>)\<rparr>"
    have "linkof ((nodes t)(x := None, m \<mapsto> mn\<lparr>virtual_head := None\<rparr>)) = linkof (nodes u)"
      using Cons.prems(5) apart quiet_world(1) [OF u] t(3) by (auto simp: linkof_def fun_eq_iff)
    then have "term_ok B ?u" by (rule term_ok_nodes [OF term_ok_quiet [OF t(1) u]])
    moreover have "calm s ?u" using calm_trans [OF t(2) calm_quiet [OF u]] by simp
    ultimately show "wp ?walk ?post E ?u" by (rule walk) (use t(3) in \<open>simp add: fun_eq_iff\<close>)
  qed (use t(3) k head apart Cons.prems(5) in \<open>auto simp: nodeIsVirtual_def\<close>)
  have close: "wp (close_node (Some x)) (\<lambda>_. wp (serialFreeNode (Some x)) (\<lambda>_. wp ?walk ?post E) E) E t"
    if t: "quiet s t" for t
  proof (rule wp_close_node [OF term_ok_quiet [OF Cons.prems(1) t]])
    show "nodes t x = Some k0" using x(2) quiet_world(1) [OF t] by simp
    then show "wp (serialEventFlags (Some x)) R E t" if "\<And>m. R m t" for R
      using k(1,2) that by (rule wp_flags_virtual)
    show "wp (serialFreeNode (Some x)) (\<lambda>_. wp ?walk ?post E) E u"
      if u: "term_ok B u" "calm t u" "nodes u = (nodes t)(x \<mapsto> k0\<lparr>node_link := None\<rparr>)" for u
      by (rule free [OF u(1) calm_trans [OF calm_quiet [OF t] u(2)]]) (use u(3) quiet_world(1) [OF t] in simp)
  qed
  have "wp (serverLog LL_INFO msg) (\<lambda>_. wp (close_node (Some x))
      (\<lambda>_. wp (serialFreeNode (Some x)) (\<lambda>_. wp ?walk ?post E) E) E) E s" for msg
    using Cons.prems(1) close by (rule wp_term_log)
  with x(1,2) show ?case
    unfolding fuel(1) loop.simps(2) [of fuel' term_virtual]
    by (simp add: term_virtual_def [of "Some x"] wp_get_node wp_funs)
qed

lemma reg_ok_drop:
  assumes reg: "reg_ok N p b (x # xs) vs" and k: "N x = Some k"
  shows "reg_ok ((orphaned N x (vs x))(x := None)) (node_next k) b xs vs" (is "reg_ok ?M _ _ _ _")
proof -
  have x: "x \<in> set (x # xs)" by simp
  have c: "chain N node_next p (x # xs)" using reg by (simp add: reg_ok_def)
  have apart: "x \<notin> set xs" using chain_distinct [OF c] by simp
  have other: "m \<noteq> x" "m \<notin> set (vs x)" "x \<notin> set (vs m)" "set (vs m) \<inter> set (vs x) = {}" if "m \<in> set xs" for m
    using reg_ok_disjoint [OF reg, of m x] reg_ok_disjoint(1) [OF reg x, of m] that apart by auto
  have same: "?M y = N y" if "m \<in> set xs" "y = m \<or> y \<in> set (vs m)" for m y
    using other [OF that(1)] that(2) by (auto simp: orphaned_def)
  have "chain ?M node_next (node_next k) xs"
    using c k chain_cong [of xs node_next ?M N] same by simp
  moreover have "master_ok ?M m (vs m)" if m: "m \<in> set xs" for m
  proof -
    have "chain ?M node_next q (vs m) = chain N node_next q (vs m)" for q
      by (rule chain_cong) (use same [OF m] in simp)
    moreover have "master_ok N m (vs m)" using reg m by (simp add: reg_ok_def)
    ultimately show ?thesis using same [OF m] by (simp add: master_ok_def)
  qed
  moreover have "dom ?M = set xs \<union> (\<Union>m\<in>set xs. set (vs m))"
  proof -
    have minus: "dom ?M = dom N - insert x (set (vs x))" by (auto simp: orphaned_def dom_def)
    have all: "dom N = set (x # xs) \<union> (\<Union>m\<in>set (x # xs). set (vs m))" using reg by (simp add: reg_ok_def)
    show ?thesis unfolding minus all using apart other by fastforce
  qed
  moreover have "dom ?M \<subseteq> {..<b}" using reg by (auto simp: reg_ok_def orphaned_def dom_def split: if_splits)
  ultimately show ?thesis by (simp add: reg_ok_def)
qed

lemma wp_term_masters:
  assumes "term_ok B s" and "reg_ok (nodes s) p (node_brk s) xs vs" and "length xs < fuel"
  shows "wp (loop fuel term_master p)
    (\<lambda>_ t. term_ok B t \<and> calm s t \<and> nodes t = (\<lambda>_. None)) E s"
  using assms
proof (induction xs arbitrary: s p fuel)
  case Nil
  then have "p = None" "nodes s = (\<lambda>_. None)" by (auto simp: reg_ok_def dom_def fun_eq_iff)
  with Nil.prems(1,3) show ?case by (cases fuel) (simp_all add: loop.simps term_master_def)
next
  case (Cons x xs)
  note reg = Cons.prems(2)
  have x: "x \<in> set (x # xs)" by simp
  obtain fuel' where fuel: "fuel = Suc fuel'" "length xs < fuel'" using Cons.prems(3) by (cases fuel) auto
  obtain k where k: "nodes s x = Some k" "nodeIsMaster k" "\<not> nodeIsVirtual k"
    "chain (nodes s) node_next (virtual_head k) (vs x)" using reg x by (rule reg_ok_master)
  have p: "p = Some x" using reg by (simp add: reg_ok_def)
  let ?post = "\<lambda>_ t. term_ok B t \<and> calm s t \<and> nodes t = (\<lambda>_. None)"
  let ?walk = "loop fuel' term_master (node_next k)"
  let ?k = "k\<lparr>virtual_head := None\<rparr>"
  let ?N = "orphaned (nodes s) x (vs x)"
  have apart: "x \<notin> set (vs x)" using reg_ok_disjoint(1) [OF reg x x] .
  have Nx: "?N x = Some ?k" using apart k(1) by (simp add: orphaned_def)
  have walk: "wp ?walk ?post E t" if t: "term_ok B t" "calm s t" "nodes t = ?N(x := None)" for t
  proof -
    have "reg_ok (nodes t) (node_next k) (node_brk t) xs vs"
      using reg_ok_drop [OF reg k(1)] t(3) calm_world(1) [OF t(2)] by simp
    from Cons.IH [OF t(1) this fuel(2)] show ?thesis
      by (rule wp_weaken) (use t(2) in \<open>auto intro: calm_trans\<close>)
  qed
  have free: "wp (serialFreeNode (Some x)) (\<lambda>_. wp ?walk ?post E) E t"
    if t: "term_ok B t" "calm s t" "nodes t = ?N(x \<mapsto> ?k\<lparr>node_link := None\<rparr>)" for t
  proof (rule wp_free_master [where n = "?k\<lparr>node_link := None\<rparr>"])
    have "linkof ((nodes t)(x := None)) = linkof (nodes t)"
      unfolding t(3) by (auto simp: linkof_def fun_eq_iff)
    then have "term_ok B (t\<lparr>nodes := (nodes t)(x := None)\<rparr>)" by (rule term_ok_nodes [OF t(1)])
    then show "wp ?walk ?post E (t\<lparr>nodes := (nodes t)(x := None)\<rparr>)"
      by (rule walk) (use t(2,3) in simp_all)
  qed (use t(3) k(3) in \<open>simp_all add: nodeIsVirtual_def\<close>)
  have close: "wp (close_node (Some x)) (\<lambda>_. wp (serialFreeNode (Some x)) (\<lambda>_. wp ?walk ?post E) E) E t"
    if t: "term_ok B t" "calm s t" "nodes t = ?N" for t
  proof (rule wp_close_node [OF t(1)])
    show n: "nodes t x = Some ?k" using Nx t(3) by simp
    show "wp (serialEventFlags (Some x)) R E t" if "\<And>m. R m t" for R
      using n _ _ that by (rule wp_flags_master) (use k(2) in \<open>simp_all add: nodeIsMaster_def\<close>)
    show "wp (serialFreeNode (Some x)) (\<lambda>_. wp ?walk ?post E) E u"
      if u: "term_ok B u" "calm t u" "nodes u = (nodes t)(x \<mapsto> ?k\<lparr>node_link := None\<rparr>)" for u
      by (rule free [OF u(1) calm_trans [OF t(2) u(2)]]) (use u(3) t(3) in simp)
  qed
  let ?rest = "bnd (get_node (Some x)) (\<lambda>n. thn (serverLog LL_INFO (''Closing serial: '' @ node_name n))
      (thn (close_node (Some x)) (thn (serialFreeNode (Some x)) (loop fuel' term_master (node_next n)))))"
  have rest: "wp ?rest ?post E t" if t: "term_ok B t" "calm s t" "nodes t = ?N" for t
  proof -
    have "wp (serverLog LL_INFO msg) (\<lambda>_. wp (close_node (Some x))
        (\<lambda>_. wp (serialFreeNode (Some x)) (\<lambda>_. wp ?walk ?post E) E) E) E t" for msg
      using t(1) by (rule wp_term_log)
        (rule close, use t in \<open>auto intro: term_ok_quiet calm_trans calm_quiet simp: quiet_world\<close>)
    with Nx t(3) show ?thesis by (simp add: wp_get_node wp_funs)
  qed
  have virt: "is_virtual_of (nodes s) x y" if "y \<in> set (vs x)" for y
    by (rule reg_ok_virtual [OF reg x that]) (simp add: is_virtual_of_def)
  have len: "length (vs x) < node_fuel s" using reg_ok_fuel(2) [OF reg x] by (simp add: node_fuel_def)
  have "wp (loop (node_fuel s) term_virtual (virtual_head k)) (\<lambda>_. wp ?rest ?post E) E s"
    by (rule wp_weaken [OF wp_term_virtuals [where m = x and mn = k, OF Cons.prems(1) k(4) len apart k(1) _ virt]])
      (simp, assumption, elim conjE, rule rest)
  with k(1) show ?case
    unfolding fuel(1) loop.simps(2) [of fuel' term_master] p
    by (simp add: term_master_def [of "Some x"] wp_get_node wp_funs)
qed

text \<open>Everything of the serial side is closed and freed.\<close>

lemma wp_serialTerm:
  assumes wf: "daemon_ok B ms vs s"
  shows "wp serialTerm (\<lambda>_ t. nodes t = (\<lambda>_. None) \<and> links t = (\<lambda>_. None) \<and> distinct (fds t)
    \<and> set (fds t) = B \<and> interest t = (\<lambda>_. None) \<and> loop_shape t \<and> calm s t) E s"
proof -
  have reg: "reg_state s ms vs" using wf by (simp add: daemon_ok_def)
  have len: "length ms < node_fuel s" using reg_ok_fuel(1) [OF reg] by (simp add: node_fuel_def)
  have "nodes t = (\<lambda>_. None) \<and> links t = (\<lambda>_. None) \<and> distinct (fds t) \<and> set (fds t) = B
      \<and> interest t = (\<lambda>_. None) \<and> loop_shape t \<and> calm s t"
    if t: "term_ok B t" "calm s t" "nodes t = (\<lambda>_. None)" for t
  proof -
    have lks: "links_ok B (nodes t) (\<lambda>_. AE_NONE) (links t) (link_brk t) (fds t) no_loop"
      using t(1) by (simp add: term_ok_def)
    have none: "links t = (\<lambda>_. None)"
    proof
      fix a
      show "links t a = None"
      proof (cases "links t a")
        case (Some lk)
        with lks show ?thesis by (rule links_ok_link) (simp add: t(3))
      qed
    qed
    then have "link_fds (links t) = {}" by (simp add: link_fds_def)
    moreover have "interest t = (\<lambda>_. None)" using t(1) calculation by (auto simp: term_ok_def fun_eq_iff)
    ultimately show ?thesis
      using t none links_ok_fds(1,2) [OF lks] by (simp add: term_ok_def)
  qed
  note final = this
  show ?thesis
    unfolding serialTerm_def wp_bnd wp_gets
    by (rule wp_weaken [OF wp_term_masters [OF term_ok_start [OF wf] reg len]]) (elim conjE, rule final)
qed

end
