(* ===== verification/Cycle.thy ===== *)
theory Cycle
  imports Traffic
begin

text \<open>
  The walks over all nodes (\<open>src/serial.c\<close>): emptying the buffers before every poll, and opening the
  links that are missing.
\<close>

section \<open>Walking a list of nodes\<close>

lemma chain_Cons_Some:
  assumes "chain h nx p (a # as)"
  obtains n where "p = Some a" "h a = Some n" "chain h nx (nx n) as"
  using assms by (auto split: option.splits)

section \<open>Emptying the buffers\<close>

definition reset_links :: "(nat \<Rightarrow> serialLink option) \<Rightarrow> nat set \<Rightarrow> nat \<Rightarrow> serialLink option" where
  "reset_links K A = (\<lambda>a. map_option (\<lambda>l. if a \<in> A then l\<lparr>recvbuflen := 0\<rparr> else l) (K a))"

definition links_of :: "(nat \<Rightarrow> serialNode option) \<Rightarrow> nat set \<Rightarrow> nat set" where
  "links_of N A = {a. \<exists>n\<in>A. node_link (the (N n)) = Some a}"

lemma reset_links_empty [simp]: "reset_links K {} = K"
  by (simp add: reset_links_def fun_eq_iff map_option.identity option.map_ident)

lemma reset_links_twice [simp]: "reset_links (reset_links K A) B = reset_links K (A \<union> B)"
  by (auto simp: reset_links_def fun_eq_iff option.map_comp comp_def intro: option.map_cong)

lemma links_of_Un: "links_of N (A \<union> B) = links_of N A \<union> links_of N B"
  by (auto simp: links_of_def)

lemma links_of_empty [simp]: "links_of N {} = {}"
  by (simp add: links_of_def)

text \<open>Every node of the heap is there, and its link too.\<close>

definition linked :: "world \<Rightarrow> bool" where
  "linked s \<longleftrightarrow> (\<forall>n k a. nodes s n = Some k \<longrightarrow> node_link k = Some a \<longrightarrow> links s a \<noteq> None)"

lemma linked_reset [simp]: "linked (s\<lparr>links := reset_links (links s) A\<rparr>) = linked s"
  by (simp add: linked_def reset_links_def)

lemma wp_reset_node:
  assumes "linked s" and "nodes s n = Some k"
  shows "wp (reset_node (Some n)) Q E s = Q () (s\<lparr>links := reset_links (links s) (links_of (nodes s) {n})\<rparr>)"
proof (cases "node_link k")
  case None
  then have "links_of (nodes s) {n} = {}" using assms(2) by (simp add: links_of_def)
  with None assms show ?thesis by (simp add: reset_node_def wp_get_node)
next
  case (Some a)
  then obtain l where l: "links s a = Some l" using assms unfolding linked_def by blast
  have "links_of (nodes s) {n} = {a}" using assms(2) Some by (auto simp: links_of_def)
  moreover have "reset_links (links s) {a} = (links s)(a \<mapsto> l\<lparr>recvbuflen := 0\<rparr>)"
    using l by (auto simp: reset_links_def fun_eq_iff option.map_ident)
  ultimately show ?thesis using assms(2) Some l by (simp add: reset_node_def wp_get_node wp_upd_link)
qed

lemma wp_reset_virtuals:
  assumes "chain (nodes s) node_next p xs" and "length xs < fuel" and "linked s"
  shows "wp (loop fuel reset_virtual p) Q E s
    = Q () (s\<lparr>links := reset_links (links s) (links_of (nodes s) (set xs))\<rparr>)"
  using assms
proof (induction xs arbitrary: s p fuel)
  case Nil
  then show ?case by (cases fuel) (simp_all add: loop.simps reset_virtual_def)
next
  case (Cons x xs)
  obtain fuel' where fuel: "fuel = Suc fuel'" "length xs < fuel'" using Cons.prems(2) by (cases fuel) auto
  obtain k where k: "p = Some x" "nodes s x = Some k" "chain (nodes s) node_next (node_next k) xs"
    using Cons.prems(1) by (rule chain_Cons_Some)
  let ?s = "s\<lparr>links := reset_links (links s) (links_of (nodes s) {x})\<rparr>"
  have "wp (loop fuel reset_virtual p) Q E s = wp (loop fuel' reset_virtual (node_next k)) Q E ?s"
    using k fuel Cons.prems(3)
    by (simp add: loop.simps(2) reset_virtual_def [of "Some x"] wp_reset_node wp_get_node)
  also have "\<dots> = Q () (?s\<lparr>links := reset_links (links ?s) (links_of (nodes ?s) (set xs))\<rparr>)"
    by (rule Cons.IH) (use k fuel Cons.prems(3) in simp_all)
  finally show ?case by (simp flip: links_of_Un)
qed

lemma wp_reset_masters:
  assumes "chain (nodes s) node_next p xs" and "length xs < fuel" and "linked s"
    and "\<And>m. m \<in> set xs \<Longrightarrow> \<exists>n. nodes s m = Some n \<and> chain (nodes s) node_next (virtual_head n) (vs m)"
    and "\<And>m. m \<in> set xs \<Longrightarrow> length (vs m) < node_fuel s"
  shows "wp (loop fuel reset_master p) Q E s
    = Q () (s\<lparr>links := reset_links (links s) (links_of (nodes s) (set xs \<union> (\<Union>m\<in>set xs. set (vs m))))\<rparr>)"
  using assms
proof (induction xs arbitrary: s p fuel)
  case Nil
  then show ?case by (cases fuel) (simp_all add: loop.simps reset_master_def)
next
  case (Cons x xs)
  obtain fuel' where fuel: "fuel = Suc fuel'" "length xs < fuel'" using Cons.prems(2) by (cases fuel) auto
  obtain k where k: "p = Some x" "nodes s x = Some k" "chain (nodes s) node_next (node_next k) xs"
    using Cons.prems(1) by (rule chain_Cons_Some)
  have v: "chain (nodes s) node_next (virtual_head k) (vs x)" "length (vs x) < node_fuel s"
    using Cons.prems(4,5) [of x] k(2) by auto
  let ?A = "links_of (nodes s) {x} \<union> links_of (nodes s) (set (vs x))"
  let ?s = "s\<lparr>links := reset_links (links s) ?A\<rparr>"
  let ?t = "s\<lparr>links := reset_links (links s) (links_of (nodes s) {x})\<rparr>"
  have inner: "wp (loop (node_fuel ?t) reset_virtual (virtual_head k)) R E ?t = R () ?s" for R
    using wp_reset_virtuals [of ?t "virtual_head k" "vs x" "node_fuel ?t" R E] v Cons.prems(3)
    by (simp add: node_fuel_def)
  have "wp (loop fuel reset_master p) Q E s = wp (loop fuel' reset_master (node_next k)) Q E ?s"
    unfolding fuel(1) loop.simps(2) [of fuel' reset_master] k(1)
    using k(2) Cons.prems(3) by (simp add: reset_master_def [of "Some x"] wp_reset_node wp_get_node inner)
  also have "\<dots> = Q () (?s\<lparr>links := reset_links (links ?s)
      (links_of (nodes ?s) (set xs \<union> (\<Union>m\<in>set xs. set (vs m))))\<rparr>)"
    by (rule Cons.IH) (use k fuel Cons.prems in \<open>auto simp: node_fuel_def\<close>)
  finally show ?case
    by (simp flip: links_of_Un) (simp add: Un_ac)
qed

text \<open>All buffers are emptied, nothing else changes, and the call sleeps for a second.\<close>

definition emptied :: "serialLink option \<Rightarrow> serialLink option" where
  "emptied = map_option (\<lambda>l. l\<lparr>recvbuflen := 0\<rparr>)"

lemma wp_serialBeforeSleep:
  assumes wf: "daemon_ok B ms vs s"
  shows "wp serialBeforeSleep Q E s
    = Q () (s\<lparr>links := emptied \<circ> links s, trace := trace s @ [Slept 1000000]\<rparr>)"
proof -
  have reg: "reg_state s ms vs" using wf by (simp add: daemon_ok_def)
  have "linked s" unfolding linked_def using wf by (auto elim: wf_node_link)
  moreover have "chain (nodes s) node_next (master_head s) ms" using reg by (simp add: reg_ok_def)
  moreover have "\<exists>n. nodes s m = Some n \<and> chain (nodes s) node_next (virtual_head n) (vs m)"
    if "m \<in> set ms" for m using reg that by (auto elim: reg_ok_master)
  ultimately have "wp (loop (node_fuel s) reset_master (master_head s)) R E s = R ()
      (s\<lparr>links := reset_links (links s) (links_of (nodes s) (set ms \<union> (\<Union>m\<in>set ms. set (vs m))))\<rparr>)" for R
    using reg_ok_fuel [OF reg] by (intro wp_reset_masters) (simp_all add: node_fuel_def)
  moreover have "reset_links (links s) (links_of (nodes s) (set ms \<union> (\<Union>m\<in>set ms. set (vs m))))
      = emptied \<circ> links s"
  proof
    fix a
    have dom: "dom (nodes s) = set ms \<union> (\<Union>m\<in>set ms. set (vs m))" using reg by (simp add: reg_ok_def)
    have "a \<in> links_of (nodes s) (dom (nodes s))" if l: "links s a = Some l" for l
    proof -
      obtain n k where "nodes s n = Some k" "node_link k = Some a" using wf l by (rule wf_link)
      then show ?thesis by (force simp: links_of_def)
    qed
    then show "reset_links (links s) (links_of (nodes s) (set ms \<union> (\<Union>m\<in>set ms. set (vs m)))) a
        = (emptied \<circ> links s) a"
      unfolding dom [symmetric] by (cases "links s a") (simp_all add: reset_links_def emptied_def)
  qed
  ultimately show ?thesis by (simp add: serialBeforeSleep_def sys_usleep_def wp_emit)
qed

lemma links_ok_emptied:
  assumes ok: "links_ok B N flags K brk F L"
  shows "links_ok B N flags (emptied \<circ> K) brk F L"
proof -
  note old = links_ok_fds [OF ok]
  have some: "(emptied \<circ> K) a = Some x \<longleftrightarrow> (\<exists>l. K a = Some l \<and> x = l\<lparr>recvbuflen := 0\<rparr>)" for a x
    by (auto simp: emptied_def)
  have same: "fds_of (l\<lparr>recvbuflen := n\<rparr>) = fds_of l" for l n by (simp add: fds_of_def)
  have mem: "fd \<in> link_fds M \<longleftrightarrow> (\<exists>b x. M b = Some x \<and> fd \<in> fds_of x)" for fd M
    by (auto simp: link_fds_def ran_def)
  have "fd \<in> link_fds (emptied \<circ> K) \<longleftrightarrow> fd \<in> link_fds K" for fd
    unfolding mem some by (metis same)
  then have "link_fds (emptied \<circ> K) = link_fds K" by blast
  moreover have "dom (emptied \<circ> K) = dom K" by (auto simp: dom_def emptied_def)
  moreover have "link_ok N a x" if x: "(emptied \<circ> K) a = Some x" for a x
  proof -
    obtain l where l: "K a = Some l" "x = l\<lparr>recvbuflen := 0\<rparr>" using x unfolding some by blast
    with ok have "link_ok N a l" by (simp add: links_ok_def)
    with l(2) show ?thesis by (auto simp: link_ok_def buf_ok_def)
  qed
  moreover have "fds_of x \<inter> fds_of y = {}"
    if "(emptied \<circ> K) b = Some x" "(emptied \<circ> K) c = Some y" "b \<noteq> c" for b c x y
    using that old(5) unfolding some by (metis same)
  moreover have "\<exists>x. (emptied \<circ> K) b = Some x \<and> link_node x = Some n"
    if nk: "N n = Some k" "node_link k = Some b" for n k b
    using links_ok_node [OF ok nk] by (metis emptied_def comp_apply option.map(2) serialLink.select_convs(5)
      serialLink.update_convs(4) serialLink.surjective)
  moreover have "event_ok flags (emptied \<circ> K) fd (events L ! nat fd)" if "evmask L fd \<noteq> AE_NONE" for fd
    using links_ok_event [OF ok that] unfolding event_ok_def some by fastforce
  ultimately show ?thesis using old(1,2,3,4) unfolding links_ok_def by simp
qed

lemma emptied_ok: "daemon_ok B ms vs s \<Longrightarrow> daemon_ok B ms vs (s\<lparr>links := emptied \<circ> links s\<rparr>)"
  by (auto simp: daemon_ok_def intro: links_ok_emptied)

section \<open>Opening what is missing\<close>

text \<open>
  From \<open>s\<close> to \<open>t\<close> links were only added, and only to the nodes \<open>A\<close>; nothing was written and nothing
  else of the daemon changed.
\<close>

definition grown :: "nat set \<Rightarrow> world \<Rightarrow> world \<Rightarrow> bool" where
  "grown A s t \<longleftrightarrow> link_frame [] s t \<and> links s \<subseteq>\<^sub>m links t \<and> (\<forall>x. x \<notin> A \<longrightarrow> nodes t x = nodes s x)"

lemma grown_refl [simp, intro]: "grown A s s"
  by (simp add: grown_def)

lemma grown_trans:
  assumes "grown A s t" and "grown A' t u" and "A \<union> A' \<subseteq> C"
  shows "grown C s u"
proof -
  have "nodes u x = nodes s x" if "x \<notin> C" for x
    using assms that unfolding grown_def by (metis UnCI subsetD)
  then show ?thesis
    using assms unfolding grown_def by (auto intro: link_frame_trans0(1) map_le_trans)
qed

lemma grown_mono: "grown A s t \<Longrightarrow> A \<subseteq> C \<Longrightarrow> grown C s t"
  by (auto simp: grown_def)

lemma grown_quiet: "grown A s t \<Longrightarrow> quiet t u \<Longrightarrow> grown A s u"
  by (auto simp: grown_def quiet_world intro: link_frame_trans0(1) quiet_link_frame)

lemma grown_chain: "grown A s t \<Longrightarrow> chain (nodes t) node_next p as = chain (nodes s) node_next p as"
  by (simp add: grown_def link_frame_def relinked_shape same_shape_chain)

lemma grown_node:
  assumes "grown A s t" and "nodes s n = Some k"
  obtains k' where "nodes t n = Some k'" "unlinked k' = unlinked k"
proof -
  have "relinked (nodes s) (nodes t)" using assms(1) by (simp add: grown_def link_frame_def)
  from this assms(2) show thesis by (rule relinked_Some) (rule that)
qed

lemma wp_connect:
  assumes wf: "daemon_ok B ms vs s" and n: "nodes s n = Some k" "node_link k = None" and E: "E (Exit 1)"
    and baud: "nodeIsMaster k \<Longrightarrow> baudrate k \<le> 0 \<Longrightarrow> E DivByZero \<and> E IntOverflow"
    and fail: "\<And>t. daemon_ok B ms vs t \<Longrightarrow> grown {n} s t \<Longrightarrow> nodes t = nodes s \<Longrightarrow> wp bad Q E t"
    and succ: "\<And>t k' a lk. daemon_ok B ms vs t \<Longrightarrow> grown {n} s t \<Longrightarrow> nodes t n = Some k' \<Longrightarrow>
      node_link k' = Some a \<Longrightarrow> links t a = Some lk \<Longrightarrow> wp good Q E t"
  shows "wp (bnd (serialConnectNode (Some n)) (\<lambda>r. if r = C_ERR then bad else good)) Q E s"
  unfolding wp_bnd using wf n E baud
proof (rule wp_serialConnectNode)
  fix t assume t: "daemon_ok B ms vs t" "link_frame [] s t" "links t = links s" "nodes t = nodes s"
  then have "grown {n} s t" by (simp add: grown_def)
  from fail [OF t(1) this t(4)] show "wp (if C_ERR = C_ERR then bad else good) Q E t" by simp
next
  fix t fd sfd
  assume t: "daemon_ok B ms vs t" "link_frame [] s t"
    "links t = (links s)(link_brk s \<mapsto> blank_link fd sfd (Some n))"
    "nodes t = (nodes s)(n \<mapsto> k\<lparr>node_link := Some (link_brk s)\<rparr>)"
  have "links s (link_brk s) = None" using wf by (rule wf_no_link)
  with t(2-4) have "grown {n} s t" by (auto simp: grown_def map_le_def)
  from succ [OF t(1) this] t(3,4) show "wp (if C_OK = C_ERR then bad else good) Q E t" by simp
qed

lemma wp_log_reconnected:
  assumes wf: "daemon_ok B ms vs s" and n: "nodes s n = Some k" "node_link k = Some a" "links s a = Some lk"
    and Q: "\<And>t. quiet s t \<Longrightarrow> Q () t"
  shows "wp (log_reconnected what (Some n)) Q E s"
proof -
  have reg: "reg_state s ms vs" using wf by (simp add: daemon_ok_def)
  have log: "wp (serverLog LL_INFO msg) Q E s" for msg
    by (rule wp_serverLog) (use wf_log_ok [OF wf] Q in auto)
  show ?thesis
    using n by (simp add: log_reconnected_def wp_get_node wp_get_link serialEventString_def
        wp_serialEventFlags [OF reg n(1)] log)
qed

lemma wp_log_warn:
  assumes "daemon_ok B ms vs s" and "\<And>t. quiet s t \<Longrightarrow> Q () t"
  shows "wp (serverLog LL_WARN msg) Q E s"
  by (rule wp_serverLog) (use wf_log_ok assms in auto)

text \<open>The walk over the virtual nodes of one master.\<close>

lemma wp_reconnect_virtuals:
  assumes "daemon_ok B ms vs s" and "chain (nodes s) node_next p xs" and "length xs < fuel"
    and "\<And>v. v \<in> set xs \<Longrightarrow> \<not> nodeIsMaster (the (nodes s v))" and E: "E (Exit 1)"
  shows "wp (loop fuel reconnect_virtual p) (\<lambda>_ t. daemon_ok B ms vs t \<and> grown (set xs) s t) E s"
  using assms(1-4)
proof (induction xs arbitrary: s p fuel)
  case Nil
  then show ?case by (cases fuel) (simp_all add: loop.simps reconnect_virtual_def)
next
  case (Cons x xs)
  obtain fuel' where fuel: "fuel = Suc fuel'" "length xs < fuel'" using Cons.prems(3) by (cases fuel) auto
  obtain k where k: "p = Some x" "nodes s x = Some k" "chain (nodes s) node_next (node_next k) xs"
    using Cons.prems(2) by (rule chain_Cons_Some)
  have virt: "\<not> nodeIsMaster k" using Cons.prems(4) [of x] k(2) by simp
  let ?rest = "bnd (get_node (Some x)) (\<lambda>v. loop fuel' reconnect_virtual (node_next v))"
  let ?Q = "\<lambda>_ t. daemon_ok B ms vs t \<and> grown (set (x # xs)) s t"
  have rest: "wp ?rest ?Q E t" if t: "daemon_ok B ms vs t" "grown {x} s t" for t
  proof -
    obtain k' where k': "nodes t x = Some k'" "unlinked k' = unlinked k" using t(2) k(2) by (rule grown_node)
    have "\<not> nodeIsMaster (the (nodes t v))" if "v \<in> set xs" for v
    proof (cases "v = x")
      case True
      with virt k' show ?thesis by (simp add: nodeIsMaster_def unlinked_eqD [OF k'(2)])
    next
      case False
      with that Cons.prems(4) [of v] t(2) show ?thesis by (simp add: grown_def)
    qed
    moreover have "chain (nodes t) node_next (node_next k') xs"
      using k(3) by (simp add: grown_chain [OF t(2)] unlinked_eqD [OF k'(2)])
    ultimately have "wp (loop fuel' reconnect_virtual (node_next k'))
        (\<lambda>_ u. daemon_ok B ms vs u \<and> grown (set xs) t u) E t"
      using t(1) fuel(2) by (intro Cons.IH)
    then have "wp (loop fuel' reconnect_virtual (node_next k')) ?Q E t"
      by (rule wp_weaken) (use t(2) in \<open>auto intro: grown_trans\<close>)
    with k' show ?thesis by (simp add: wp_get_node)
  qed
  have go: "wp ?rest ?Q E u" if "daemon_ok B ms vs t" "grown {x} s t" "quiet t u" for t u
    using that by (intro rest) (auto intro: daemon_ok_quiet grown_quiet)
  have "wp (bnd (serialConnectNode (Some x)) (\<lambda>r. if r = C_ERR
      then serverLog LL_WARN (''Problem reconnecting virtual serial device: '' @ node_name k)
      else log_reconnected ''Reconnected virtual: '' (Some x))) (\<lambda>_. wp ?rest ?Q E) E s"
    if "node_link k = None"
    by (rule wp_connect [where E = E, OF Cons.prems(1) k(2) that E])
       (use virt go in \<open>auto intro: wp_log_warn wp_log_reconnected\<close>)
  moreover have "wp ?rest ?Q E s" using Cons.prems(1) by (rule rest) simp
  ultimately have "wp (when_do (node_link k = None) (bnd (serialConnectNode (Some x)) (\<lambda>r. if r = C_ERR
      then serverLog LL_WARN (''Problem reconnecting virtual serial device: '' @ node_name k)
      else log_reconnected ''Reconnected virtual: '' (Some x)))) (\<lambda>_. wp ?rest ?Q E) E s"
    unfolding wp_when_do by simp
  then show ?case
    using k(1,2) unfolding fuel(1)
    by (simp add: loop.simps(2) reconnect_virtual_def [of "Some x"] wp_get_node wp_bnd_fun del: wp_when_do)
qed

text \<open>The virtual nodes of a master that could not be opened are left alone.\<close>

definition untouched ::
    "(nat \<Rightarrow> serialNode option) \<Rightarrow> (nat \<Rightarrow> serialNode option) \<Rightarrow> (nat \<Rightarrow> nat list) \<Rightarrow> nat \<Rightarrow> bool" where
  "untouched N N' vs m \<longleftrightarrow> node_link (the (N' m)) = None \<longrightarrow> (\<forall>v\<in>set (vs m). N' v = N v)"

lemma wp_reconnect_inner:
  assumes wf: "daemon_ok B ms vs s" and m: "m \<in> set ms"
  shows "wp (bnd (gets node_fuel) (\<lambda>fuel. bnd (get_node (Some m)) (\<lambda>n. loop fuel reconnect_virtual (virtual_head n))))
    (\<lambda>_ t. daemon_ok B ms vs t \<and> grown (set (vs m)) s t) (\<lambda>h. h = Exit 1) s"
proof -
  have reg: "reg_state s ms vs" using wf by (simp add: daemon_ok_def)
  obtain n where n: "nodes s m = Some n" "chain (nodes s) node_next (virtual_head n) (vs m)"
    using reg m by (rule reg_ok_master)
  have virt: "\<not> nodeIsMaster (the (nodes s v))" if "v \<in> set (vs m)" for v
    by (rule reg_ok_virtual [OF reg m that]) simp
  have len: "length (vs m) < node_fuel s" using reg_ok_fuel(2) [OF reg m] by (simp add: node_fuel_def)
  show ?thesis
    using wp_reconnect_virtuals [where E = "\<lambda>h. h = Exit 1", OF wf n(2) len virt] n(1)
    by (simp add: wp_get_node)
qed

lemma wp_reconnect_turn:
  assumes wf: "daemon_ok B ms vs s" and m: "m \<in> set ms" and k: "nodes s m = Some k" and E: "E (Exit 1)"
    and baud: "baudrate k \<le> 0 \<Longrightarrow> E DivByZero \<and> E IntOverflow"
    and Q: "\<And>t. daemon_ok B ms vs t \<Longrightarrow> grown (insert m (set (vs m))) s t \<Longrightarrow>
      untouched (nodes s) (nodes t) vs m \<Longrightarrow> Q (Inl (node_next k)) t"
  shows "wp (reconnect_master (Some m)) Q E s"
proof -
  have reg: "reg_state s ms vs" using wf by (simp add: daemon_ok_def)
  have apart: "m \<notin> set (vs m)" using reg_ok_disjoint(1) [OF reg m m] .
  let ?walk = "bnd (gets node_fuel) (\<lambda>fuel. bnd (get_node (Some m)) (\<lambda>n. loop fuel reconnect_virtual (virtual_head n)))"
  let ?last = "bnd (get_node (Some m)) (\<lambda>n. ret (Inl (node_next n)))"
  have last: "wp ?last Q E t" if t: "daemon_ok B ms vs t" "grown (insert m (set (vs m))) s t"
    "untouched (nodes s) (nodes t) vs m" for t
  proof -
    obtain k' where k': "nodes t m = Some k'" "unlinked k' = unlinked k" using t(2) k by (rule grown_node)
    with Q [OF t] show ?thesis by (simp add: wp_get_node unlinked_eqD [OF k'(2)])
  qed
  have on: "wp (thn ?walk ?last) Q E t"
    if t: "daemon_ok B ms vs t" "grown {m} s t" "node_link (the (nodes t m)) \<noteq> None" for t
  proof -
    have "wp ?last Q E u" if u: "daemon_ok B ms vs u" "grown (set (vs m)) t u" for u
    proof -
      have "nodes u m = nodes t m" using u(2) apart by (simp add: grown_def)
      with t(3) have "untouched (nodes s) (nodes u) vs m" by (auto simp: untouched_def)
      moreover have "grown (insert m (set (vs m))) s u" using t(2) u(2) by (rule grown_trans) auto
      ultimately show ?thesis using u(1) by (intro last)
    qed
    then have "wp ?walk (\<lambda>_. wp ?last Q E) E t"
      using E by (intro wp_mono [OF wp_reconnect_inner [OF t(1) m]]) auto
    then show ?thesis by simp
  qed
  have off: "wp ?last Q E t" if t: "daemon_ok B ms vs t" "grown {m} s t" "nodes t = nodes s" for t
    by (rule last [OF t(1) grown_mono [OF t(2)]]) (use t(3) in \<open>auto simp: untouched_def\<close>)
  let ?phase = "\<lambda>connected. thn (when_do connected ?walk) ?last"
  have "wp (bnd (serialConnectNode (Some m)) (\<lambda>r. if r = C_ERR
      then thn (serverLog LL_WARN (''Problem reconnecting serial device: '' @ node_name k)) (ret False)
      else thn (log_reconnected ''Reconnected serial: '' (Some m)) (ret True))) (\<lambda>c. wp (?phase c) Q E) E s"
    if none: "node_link k = None"
  proof (rule wp_connect [where E = E, OF wf k none E baud])
    fix t assume t: "daemon_ok B ms vs t" "grown {m} s t" "nodes t = nodes s"
    have "wp ?last Q E u" if u: "quiet t u" for u
      by (rule off) (use t u in \<open>auto intro: daemon_ok_quiet grown_quiet simp: quiet_world\<close>)
    then have "wp (serverLog LL_WARN msg) (\<lambda>_. wp ?last Q E) E t" for msg
      by (rule wp_log_warn [OF t(1)])
    then show "wp (thn (serverLog LL_WARN (''Problem reconnecting serial device: '' @ node_name k)) (ret False))
        (\<lambda>c. wp (?phase c) Q E) E t" by (simp add: wp_bnd_fun wp_thn_fun)
  next
    fix t k' a lk assume t: "daemon_ok B ms vs t" "grown {m} s t" "nodes t m = Some k'" "node_link k' = Some a"
      "links t a = Some lk"
    have "wp (thn ?walk ?last) Q E u" if u: "quiet t u" for u
      by (rule on) (use t u in \<open>auto intro: daemon_ok_quiet grown_quiet simp: quiet_world\<close>)
    then have "wp (log_reconnected ''Reconnected serial: '' (Some m)) (\<lambda>_. wp (thn ?walk ?last) Q E) E t"
      by (rule wp_log_reconnected [OF t(1,3-5)])
    then show "wp (thn (log_reconnected ''Reconnected serial: '' (Some m)) (ret True))
        (\<lambda>c. wp (?phase c) Q E) E t"
      by (simp only: wp_thn wp_thn_fun wp_ret_fun when_do_def if_True)
  qed
  moreover have "wp (thn ?walk ?last) Q E s" if "node_link k \<noteq> None"
    by (rule on [OF wf]) (use that k in auto)
  ultimately show ?thesis
    using k by (simp add: reconnect_master_def wp_get_node wp_if)
qed

lemma wp_reconnect_masters:
  assumes "daemon_ok B ms vs s" and "chain (nodes s) node_next p xs" and "length xs < fuel"
    and "set xs \<subseteq> set ms" and E: "E (Exit 1)"
    and "\<And>m. m \<in> set xs \<Longrightarrow> baudrate (the (nodes s m)) \<le> 0 \<Longrightarrow> E DivByZero \<and> E IntOverflow"
  shows "wp (loop fuel reconnect_master p) (\<lambda>_ t. daemon_ok B ms vs t
    \<and> grown (set xs \<union> (\<Union>m\<in>set xs. set (vs m))) s t \<and> (\<forall>m\<in>set xs. untouched (nodes s) (nodes t) vs m)) E s"
  using assms(1-4,6)
proof (induction xs arbitrary: s p fuel)
  case Nil
  then show ?case by (cases fuel) (simp_all add: loop.simps reconnect_master_def)
next
  case (Cons x xs)
  let ?A = "\<lambda>xs. set xs \<union> (\<Union>m\<in>set xs. set (vs m))"
  obtain fuel' where fuel: "fuel = Suc fuel'" "length xs < fuel'" using Cons.prems(3) by (cases fuel) auto
  obtain k where k: "p = Some x" "nodes s x = Some k" "chain (nodes s) node_next (node_next k) xs"
    using Cons.prems(2) by (rule chain_Cons_Some)
  have reg: "reg_state s ms vs" using Cons.prems(1) by (simp add: daemon_ok_def)
  have x: "x \<in> set ms" "set xs \<subseteq> set ms" using Cons.prems(4) by auto
  have "x \<notin> set xs" using chain_distinct [OF Cons.prems(2)] by simp
  then have apart: "insert x (set (vs x)) \<inter> ?A xs = {}"
    using reg_ok_disjoint [OF reg] x by fast
  have "wp (loop fuel' reconnect_master (node_next k)) (\<lambda>_ u. daemon_ok B ms vs u \<and> grown (?A (x # xs)) s u
      \<and> (\<forall>m\<in>set (x # xs). untouched (nodes s) (nodes u) vs m)) E t"
    if t: "daemon_ok B ms vs t" "grown (insert x (set (vs x))) s t" "untouched (nodes s) (nodes t) vs x" for t
  proof -
    have old: "nodes t y = nodes s y" if "y \<in> ?A xs" for y
      using t(2) that apart unfolding grown_def by blast
    have "chain (nodes t) node_next (node_next k) xs" using k(3) by (simp add: grown_chain [OF t(2)])
    then have "wp (loop fuel' reconnect_master (node_next k)) (\<lambda>_ u. daemon_ok B ms vs u \<and> grown (?A xs) t u
        \<and> (\<forall>m\<in>set xs. untouched (nodes t) (nodes u) vs m)) E t"
      using t(1) fuel(2) x(2) old Cons.prems(5) by (intro Cons.IH) auto
    then show ?thesis
    proof (rule wp_weaken)
      fix r u
      assume u: "daemon_ok B ms vs u \<and> grown (?A xs) t u \<and> (\<forall>m\<in>set xs. untouched (nodes t) (nodes u) vs m)"
      have same: "nodes u y = nodes t y" if "y \<in> insert x (set (vs x))" for y
        using u that apart unfolding grown_def by blast
      have "untouched (nodes s) (nodes u) vs x" using t(3) same by (simp add: untouched_def)
      moreover have "untouched (nodes s) (nodes u) vs m" if m: "m \<in> set xs" for m
      proof -
        have "nodes t v = nodes s v" if "v \<in> set (vs m)" for v using old m that by blast
        with u m show ?thesis by (simp add: untouched_def)
      qed
      moreover have "grown (?A (x # xs)) s u" using t(2) conjunct1 [OF conjunct2 [OF u]] by (rule grown_trans) auto
      ultimately show "daemon_ok B ms vs u \<and> grown (?A (x # xs)) s u
          \<and> (\<forall>m\<in>set (x # xs). untouched (nodes s) (nodes u) vs m)" using u by simp
    qed
  qed
  note rest = this
  have baud: "E DivByZero \<and> E IntOverflow" if "baudrate k \<le> 0" using Cons.prems(5) [of x] that k(2) by simp
  show ?case
    unfolding fuel(1) loop.simps(2) [of fuel' reconnect_master] k(1) wp_bnd
    by (rule wp_reconnect_turn [where E = E, OF Cons.prems(1) x(1) k(2) E baud])
      (simp_all only: sum.case rest)
qed

definition rates_ok :: "(nat \<Rightarrow> serialNode option) \<Rightarrow> nat list \<Rightarrow> bool" where
  "rates_ok N ms \<longleftrightarrow> (\<forall>m\<in>set ms. 0 < baudrate (the (N m)))"

lemma wp_serialReconnect:
  assumes wf: "daemon_ok B ms vs s" and E: "E (Exit 1)"
    and "\<not> rates_ok (nodes s) ms \<Longrightarrow> E DivByZero \<and> E IntOverflow"
  shows "wp serialReconnect (\<lambda>_ t. daemon_ok B ms vs t \<and> link_frame [] s t \<and> links s \<subseteq>\<^sub>m links t
    \<and> (\<forall>m\<in>set ms. untouched (nodes s) (nodes t) vs m)) E s"
proof -
  have reg: "reg_state s ms vs" using wf by (simp add: daemon_ok_def)
  then have c: "chain (nodes s) node_next (master_head s) ms" by (simp add: reg_ok_def)
  have len: "length ms < node_fuel s" using reg_ok_fuel(1) [OF reg] by (simp add: node_fuel_def)
  have "wp (loop (node_fuel s) reconnect_master (master_head s)) (\<lambda>_ t. daemon_ok B ms vs t
    \<and> grown (set ms \<union> (\<Union>m\<in>set ms. set (vs m))) s t \<and> (\<forall>m\<in>set ms. untouched (nodes s) (nodes t) vs m)) E s"
    by (rule wp_reconnect_masters [OF wf c len]) (use assms in \<open>auto simp: rates_ok_def not_less\<close>)
  then have "wp (loop (node_fuel s) reconnect_master (master_head s)) (\<lambda>_ t. daemon_ok B ms vs t
    \<and> link_frame [] s t \<and> links s \<subseteq>\<^sub>m links t \<and> (\<forall>m\<in>set ms. untouched (nodes s) (nodes t) vs m)) E s"
    by (rule wp_weaken) (simp add: grown_def)
  then show ?thesis by (simp add: serialReconnect_def)
qed

end
