(* ===== verification/LinkProps.thy ===== *)
theory LinkProps
  imports Demo Shutdown Cycle
begin

text \<open>
  What is claimed of the links of \<open>src/serial.c\<close>: the event handler and the two handlers it calls,
  opening and closing, the walks over all nodes, and the shutdown. \<open>Demo\<close> has the states of the
  witnesses.
\<close>

section \<open>The event handler\<close>

text \<open>
  C9: on a link of the running daemon the event handler keeps the invariant, which ties nodes,
  links, descriptors, event table and epoll set together, whatever the environment answers. It can
  stop in one way only, a use of the freed link, and only when both directions were reported.
\<close>

theorem serialEventHandler_safe:
  assumes "daemon_ok B ms vs s" and "links s a = Some lk"
  shows "wp (serialEventHandler fd (Some a) m) (\<lambda>_ t. daemon_ok B ms vs t \<and> (\<exists>w. link_frame w s t))
    (\<lambda>h. h = UseAfterFree \<and> m AND AE_READABLE \<noteq> 0 \<and> m AND AE_WRITABLE \<noteq> 0) s"
  by (rule wp_serialEventHandler_ok [OF assms]) simp

theorem serialEventHandler_safe_witness:
  "wp (serialEventHandler 4 (Some 0) AE_READABLE)
    (\<lambda>_ t. daemon_ok {3} [0] demo_virtuals t \<and> (\<exists>w. link_frame w (demo_world (\<lambda>_. no_reply) []) t))
    (\<lambda>h. False) (demo_world (\<lambda>_. no_reply) [])"
  by (rule wp_mono [OF serialEventHandler_safe [OF demo_ok, where a = 0 and lk = "demo_link []"]])
    (simp_all add: demo_world_def)

text \<open>
  C10: the comment above the call says the write handler is safe after a failed read; it is not. When
  the read handler gives the link up and the event was reported for both directions, the write
  handler reads the freed link, in every state of the running daemon.
\<close>

theorem serialEventHandler_use_after_free:
  assumes "daemon_ok B ms vs s" and "links s a = Some lk"
    and "arrived s = []" and "read_errno s \<noteq> EAGAIN"
    and "m AND AE_READABLE \<noteq> 0" and "m AND AE_WRITABLE \<noteq> 0"
  shows "serialEventHandler fd (Some a) m s = Inl UseAfterFree"
proof -
  have "wp (serialReadHandler (Some a)) (\<lambda>_. wp (serialWriteHandler (Some a)) (\<lambda>_ _. False) (\<lambda>h. h = UseAfterFree))
      (\<lambda>h. h = UseAfterFree) s"
    by (rule wp_serialReadHandler [OF assms(1,2)])
      (use assms in \<open>simp_all add: serialWriteHandler_def get_link_def\<close>)
  with assms(5,6) have "wp (serialEventHandler fd (Some a) m) (\<lambda>_ _. False) (\<lambda>h. h = UseAfterFree) s"
    by (simp add: serialEventHandler_def wp_funs)
  then show ?thesis by (auto simp: wp_def split: sum.splits)
qed

theorem serialEventHandler_use_after_free_witness:
  "serialEventHandler 4 (Some 0) (AE_READABLE OR AE_WRITABLE) (demo_world (\<lambda>_. no_reply) []) = Inl UseAfterFree"
  by (rule serialEventHandler_use_after_free [OF demo_ok, where lk = "demo_link []"])
    (simp_all add: demo_world_def arrived_def read_errno_def no_reply_def idle_world_def)

text \<open>
  C12: the read handler stores exactly the bytes that arrived, at most a buffer full, over the front of
  the buffer; a failed read closes the link unless the error number is EAGAIN. At the end of the input
  the error number is the one an earlier call left, so a stale EAGAIN keeps the dead link. The handler
  always returns.
\<close>

theorem serialReadHandler_stores:
  assumes "daemon_ok B ms vs s" and "links s a = Some lk"
  shows "wp (serialReadHandler (Some a))
    (\<lambda>_ t. daemon_ok B ms vs t \<and> link_frame [] s t
       \<and> links t = (if arrived s \<noteq> [] then (links s)(a \<mapsto> received lk (arrived s))
                    else if read_errno s = EAGAIN then links s else (links s)(a := None))) (\<lambda>_. False) s"
proof (rule wp_serialReadHandler [OF assms])
  show "daemon_ok B ms vs t \<and> link_frame [] s t
       \<and> links t = (if arrived s \<noteq> [] then (links s)(a \<mapsto> received lk (arrived s))
                    else if read_errno s = EAGAIN then links s else (links s)(a := None))"
    if t: "arrived s \<noteq> []" "quiet (s\<lparr>links := (links s)(a \<mapsto> received lk (arrived s))\<rparr>) t" "daemon_ok B ms vs t" for t
  proof -
    have "link_frame [] s (s\<lparr>links := (links s)(a \<mapsto> received lk (arrived s))\<rparr>)" by simp
    from link_frame_trans0(1) [OF this quiet_link_frame [OF t(2)]] t quiet_world(2) [OF t(2)] show ?thesis by simp
  qed
qed (use assms in \<open>auto intro: daemon_ok_quiet quiet_link_frame simp: quiet_world\<close>)

theorem serialReadHandler_stores_witness:
  "wp (serialReadHandler (Some 0))
    (\<lambda>_ t. links t 0 = Some (received (demo_link ''abc'') ''hello''))
    (\<lambda>_. False) (demo_world (\<lambda>_. no_reply\<lparr>r_ok := True, r_data := ''hello''\<rparr>) ''abc'')"
  by (rule wp_mono [OF serialReadHandler_stores [OF demo_ok, where lk = "demo_link ''abc''"]])
    (simp_all add: demo_world_def arrived_def)

text \<open>
  What may come of writing the bytes \<open>p\<close> to the link \<open>lk\<close> at \<open>a\<close>.
\<close>

definition write_outcome :: "world \<Rightarrow> nat \<Rightarrow> serialLink \<Rightarrow> string \<Rightarrow> world \<Rightarrow> bool" where
  "write_outcome s a lk p t \<longleftrightarrow>
     (if p = [] then t = s
      else if taken s p \<noteq> [] then link_frame [(link_fd lk, taken s p)] s t \<and> links t = links s
      else links t = (links s)(a := None) \<and> (link_frame [] s t \<or> link_frame [(link_fd lk, [])] s t))"

text \<open>
  C11: routing. A writable link is sent bytes of one source only: for a virtual node its master's
  link, for a master the link of its first writer. What is sent is what the kernel takes of the front
  of the bytes waiting in the source's buffer, in one write to this link's descriptor; the rest of
  them is not tried again. When the kernel takes nothing, the link is closed, and nothing else is.
\<close>

theorem serialWriteHandler_routes:
  assumes "daemon_ok B ms vs s" and "links s a = Some lk" and "link_node lk = Some n"
  shows "wp (serialWriteHandler (Some a))
    (\<lambda>_ t. daemon_ok B ms vs t \<and> write_outcome s a lk
       (case source_of (nodes s) vs n of None \<Rightarrow> [] | Some b \<Rightarrow> pending (the (links s b))) t) (\<lambda>_. False) s"
proof (rule wp_serialWriteHandler [OF assms], cases "source_of (nodes s) vs n")
  case None
  with assms(1) show "wp (serialWriteLink (source_of (nodes s) vs n) (Some a)) (\<lambda>_ t. daemon_ok B ms vs t
      \<and> write_outcome s a lk (case source_of (nodes s) vs n of None \<Rightarrow> [] | Some b \<Rightarrow> pending (the (links s b))) t)
      (\<lambda>_. False) s"
    by (simp add: serialWriteLink_def write_outcome_def)
next
  case (Some b)
  obtain k where k: "nodes s n = Some k" using wf_link [OF assms(1,2)] assms(3) by (metis option.inject)
  obtain lb where lb: "links s b = Some lb" using assms(1) k Some by (rule source_of_link)
  have "wp (serialWriteLink (Some b) (Some a)) (\<lambda>_ t. daemon_ok B ms vs t \<and> write_outcome s a lk (pending lb) t)
      (\<lambda>_. False) s"
  proof (rule wp_serialWriteLink [OF assms(1,2)])
    show "daemon_ok B ms vs t \<and> write_outcome s a lk (pending lb) t"
      if "taken s (pending lb) \<noteq> []" "daemon_ok B ms vs t"
        "link_frame [(link_fd lk, taken s (pending lb))] s t" "links t = links s" for t
    proof -
      have "pending lb \<noteq> []" using that(1) by (auto simp: taken_def Let_def split: if_splits)
      with that show ?thesis by (simp add: write_outcome_def)
    qed
  qed (use assms(1) lb in \<open>auto simp: write_outcome_def\<close>)
  with Some lb show "wp (serialWriteLink (source_of (nodes s) vs n) (Some a)) (\<lambda>_ t. daemon_ok B ms vs t
      \<and> write_outcome s a lk (case source_of (nodes s) vs n of None \<Rightarrow> [] | Some b \<Rightarrow> pending (the (links s b))) t)
      (\<lambda>_. False) s" by simp
qed

theorem serialWriteHandler_routes_witness:
  "wp (serialWriteHandler (Some 1))
    (\<lambda>_ t. wrote (trace t) = [(5, ''he'')])
    (\<lambda>_. False) (demo_world (\<lambda>_. no_reply\<lparr>r_ok := True, r_num := 2\<rparr>) ''hello'')"
  (is "wp _ _ _ ?s")
proof -
  have route: "source_of (nodes ?s) demo_virtuals 1 = Some 0" "pending (the (links ?s 0)) = ''hello''"
    by (simp_all add: source_of_def demo_world_def demo_virtual_def demo_master_def nodeIsVirtual_def
        pending_def demo_link_def)
  have "taken ?s ''hello'' = ''he''" "link_fd demo_pty = 5" "wrote (trace ?s) = []"
    by (simp_all add: taken_def demo_world_def no_reply_def idle_world_def demo_pty_def)
  with route show ?thesis
    by (intro wp_weaken [OF serialWriteHandler_routes [OF demo_ok, where lk = demo_pty and n = 1]])
      (auto simp: write_outcome_def demo_world_def demo_pty_def dest: link_frame_world(18))
qed

section \<open>Opening and closing\<close>

text \<open>
  C24: before every poll all buffers are emptied, so bytes nobody was sent in the turn they arrived
  are lost; then the process sleeps for a second. Nothing else happens.
\<close>

theorem serialBeforeSleep_empties:
  assumes "daemon_ok B ms vs s"
  shows "serialBeforeSleep s = Inr ((), s\<lparr>links := emptied \<circ> links s, trace := trace s @ [Slept 1000000]\<rparr>)"
proof -
  have "wp serialBeforeSleep (\<lambda>_ t. t = s\<lparr>links := emptied \<circ> links s, trace := trace s @ [Slept 1000000]\<rparr>) (\<lambda>_. False) s"
    by (simp add: wp_serialBeforeSleep [OF assms])
  then show ?thesis by (simp add: wp_returns)
qed

theorem serialBeforeSleep_empties_witness:
  "\<exists>t. serialBeforeSleep (demo_world (\<lambda>_. no_reply) ''abc'') = Inr ((), t)
    \<and> map_option pending (links t 0) = Some []"
  using serialBeforeSleep_empties [OF demo_ok, of "''abc''" "\<lambda>_. no_reply"]
  by (simp add: demo_world_def emptied_def pending_def)

text \<open>
  C23: closing a link keeps the invariant and frees exactly what the link owned: its object, its
  descriptors and their place in the epoll set, and its node's pointer to it. No other node, link or
  descriptor is touched.
\<close>

theorem serialFreeLink_closes:
  assumes "daemon_ok B ms vs s" and "links s a = Some lk"
  shows "wp (serialFreeLink (Some a))
    (\<lambda>_ t. daemon_ok B ms vs t \<and> link_frame [] s t \<and> links t = (links s)(a := None)
       \<and> set (fds t) = set (fds s) - fds_of lk \<and> interest t (link_fd lk) = None
       \<and> linkof (nodes t) = (linkof (nodes s))(the (link_node lk) := None)) (\<lambda>_. False) s"
proof (rule wp_serialFreeLink [OF assms])
  fix t n k
  assume n: "link_node lk = Some n" "nodes s n = Some k" and t: "daemon_ok B ms vs t" "link_frame [] s t"
    "links t = (links s)(a := None)" "nodes t = (nodes s)(n \<mapsto> k\<lparr>node_link := None\<rparr>)"
  have fds: "set (fds t) = set (fds s) - fds_of lk" by (rule daemon_ok_fds_removed [OF assms t(1,3)])
  have "log_ok t" using t(1) by (rule wf_log_ok)
  with fds have "interest t (link_fd lk) = None" by (simp add: log_ok_def fds_of_def)
  with n t fds show "daemon_ok B ms vs t \<and> link_frame [] s t \<and> links t = (links s)(a := None)
       \<and> set (fds t) = set (fds s) - fds_of lk \<and> interest t (link_fd lk) = None
       \<and> linkof (nodes t) = (linkof (nodes s))(the (link_node lk) := None)"
    by (auto simp: linkof_def fun_eq_iff)
qed

theorem serialFreeLink_closes_witness:
  "wp (serialFreeLink (Some 1))
    (\<lambda>_ t. set (fds t) = {3, 4} \<and> interest t 5 = None \<and> links t 1 = None)
    (\<lambda>_. False) (demo_world (\<lambda>_. no_reply) [])"
  by (rule wp_weaken [OF serialFreeLink_closes [OF demo_ok, where lk = demo_pty]])
    (auto simp: demo_world_def demo_pty_def fds_of_def)

text \<open>
  C13: opening a link is all or nothing. Either it fails and no link, node or descriptor is left
  behind, or the node has a new link with descriptors nobody used, an empty buffer and, where the
  table had room, its events registered; the invariant holds again in both cases. It exits only
  when memory runs out.
\<close>

theorem serialCreateLink_all_or_nothing:
  assumes "daemon_ok B ms vs s" and "nodes s n = Some k" and "node_link k = None"
    and "nodeIsMaster k \<Longrightarrow> 0 < baudrate k"
  shows "wp (serialCreateLink (Some n))
    (\<lambda>r t. daemon_ok B ms vs t \<and> link_frame [] s t \<and>
       (if r = None then links t = links s \<and> nodes t = nodes s \<and> fds t = fds s
        else r = Some (link_brk s) \<and> nodes t = (nodes s)(n \<mapsto> k\<lparr>node_link := r\<rparr>) \<and>
          (\<exists>fd sfd. links t = (links s)(link_brk s \<mapsto> blank_link fd sfd (Some n)) \<and> fds t = new_fds (fds s) fd sfd)))
    (\<lambda>h. h = Exit 1) s"
  by (rule wp_serialCreateLink [OF assms(1-3)]) (use assms(4) in auto)

theorem serialCreateLink_all_or_nothing_witness:
  "wp (serialCreateLink (Some 0))
    (\<lambda>r t. daemon_ok {3} [0] demo_virtuals t \<and> (r = None \<longrightarrow> fds t = [3])) (\<lambda>h. h = Exit 1)
    (new_world (\<lambda>_. no_reply\<lparr>r_ok := True\<rparr>))"
  by (rule wp_weaken [OF serialCreateLink_all_or_nothing [OF new_ok, where k = "unplugged demo_master"]])
    (auto simp: new_world_def unplugged_def demo_master_def)

text \<open>
  C31: connecting a node. A node that has a link already is refused without any effect; otherwise
  the result says whether the node has a link now.
\<close>

theorem serialConnectNode_reports:
  assumes "daemon_ok B ms vs s" and "nodes s n = Some k" and "nodeIsMaster k \<Longrightarrow> 0 < baudrate k"
  shows "wp (serialConnectNode (Some n))
    (\<lambda>r t. daemon_ok B ms vs t \<and> link_frame [] s t \<and>
       (if node_link k \<noteq> None then r = C_ERR \<and> t = s
        else r = (if linkof (nodes t) n = None then C_ERR else C_OK) \<and> (r = C_ERR \<longrightarrow> fds t = fds s)))
    (\<lambda>h. h = Exit 1) s"
proof (cases "node_link k")
  case None
  then show ?thesis
    by (intro wp_serialConnectNode [OF assms(1,2)]) (use assms in \<open>auto simp: linkof_def\<close>)
next
  case (Some a)
  with assms show ?thesis by (simp add: serialConnectNode_def wp_get_node)
qed

theorem serialConnectNode_reports_witness:
  "wp (serialConnectNode (Some 0)) (\<lambda>r t. r = C_ERR \<longrightarrow> fds t = [3]) (\<lambda>h. h = Exit 1)
    (new_world (\<lambda>_. no_reply\<lparr>r_ok := True\<rparr>))"
  by (rule wp_weaken [OF serialConnectNode_reports [OF new_ok, where k = "unplugged demo_master"]])
    (auto simp: new_world_def unplugged_def demo_master_def)

text \<open>
  C39: without a log file an error is fatal. The configuration of the README's second example names none,
  so \<open>server.logfile\<close> is NULL; then the first device that cannot be opened makes the daemon dereference
  it, at the default level and at every other one.
\<close>

theorem serialConnectNode_unlogged_crash:
  assumes "nodes s n = Some k" and "nodeIsMaster k" and "node_link k = None"
    and "logfile s = None" and "verbosity s \<le> LL_ERROR"
    and "r_ok (answers s (calls s))" and "\<not> r_ok (answers s (Suc (calls s)))"
  shows "serialConnectNode (Some n) s = Inl NullDeref"
proof -
  have "wp (serialConnectNode (Some n)) (\<lambda>_ _. False) (\<lambda>h. h = NullDeref) s"
    using assms
    by (simp add: serialConnectNode_def serialCreateLink_def open_master_def wp_get_node wp_upd_link sys_malloc_def
        sys_open_def wp_kernel serverLogErrno_def serverLog_def serverLogRaw_def)
  then show ?thesis by (auto simp: wp_def split: sum.splits)
qed

theorem serialConnectNode_unlogged_crash_witness:
  "serialConnectNode (Some 0) ((new_world (\<lambda>i. no_reply\<lparr>r_ok := (i = 0)\<rparr>))\<lparr>logfile := None\<rparr>) = Inl NullDeref"
  by (rule serialConnectNode_unlogged_crash [where k = "unplugged demo_master"])
    (simp_all add: new_world_def demo_world_def idle_world_def unplugged_def demo_master_def nodeIsMaster_def)

end
