(* ===== verification/NodeProps.thy ===== *)
theory NodeProps
  imports Demo Shutdown Cycle
begin

text \<open>
  What is claimed of the registry of nodes and of the walks over it (\<open>src/serial.c\<close>): reconnecting,
  shutting down, removing a node from its list, and the flags and their name in the log.
\<close>

section \<open>Walks over all nodes\<close>

text \<open>
  C19: looking for missing links only adds links: every link stays as it was, nothing is written, and
  the virtual nodes of a master whose device could not be opened are left alone. If every rate is
  positive it exits only when memory runs out.
\<close>

theorem serialReconnect_only_adds:
  assumes "daemon_ok B ms vs s" and "rates_ok (nodes s) ms"
  shows "wp serialReconnect
    (\<lambda>_ t. daemon_ok B ms vs t \<and> link_frame [] s t \<and> links s \<subseteq>\<^sub>m links t
       \<and> (\<forall>m\<in>set ms. linkof (nodes t) m = None \<longrightarrow> (\<forall>v\<in>set (vs m). nodes t v = nodes s v)))
    (\<lambda>h. h = Exit 1) s"
proof (rule wp_weaken [OF wp_serialReconnect [OF assms(1)]])
  fix x t
  assume t: "daemon_ok B ms vs t \<and> link_frame [] s t \<and> links s \<subseteq>\<^sub>m links t
    \<and> (\<forall>m\<in>set ms. untouched (nodes s) (nodes t) vs m)"
  have "node_link (the (nodes t m)) = None" if m: "m \<in> set ms" "linkof (nodes t) m = None" for m
  proof -
    obtain k where "nodes t m = Some k" using daemon_ok_masters [of B ms vs t] t m(1) by blast
    with m(2) show ?thesis by (simp add: linkof_def)
  qed
  with t show "daemon_ok B ms vs t \<and> link_frame [] s t \<and> links s \<subseteq>\<^sub>m links t
       \<and> (\<forall>m\<in>set ms. linkof (nodes t) m = None \<longrightarrow> (\<forall>v\<in>set (vs m). nodes t v = nodes s v))"
    by (auto simp: untouched_def)
qed (use assms(2) in auto)

theorem serialReconnect_only_adds_witness:
  "wp serialReconnect (\<lambda>_ t. daemon_ok {3} [0] demo_virtuals t \<and> (linkof (nodes t) 0 = None \<longrightarrow> linkof (nodes t) 1 = None))
    (\<lambda>h. h = Exit 1) (new_world (\<lambda>_. no_reply\<lparr>r_ok := True\<rparr>))"
proof -
  have "rates_ok (nodes (new_world ans)) [0]" for ans
    by (simp add: rates_ok_def new_world_def unplugged_def demo_master_def)
  then show ?thesis
    by (intro wp_weaken [OF serialReconnect_only_adds [OF new_ok]])
      (auto simp: new_world_def demo_virtuals_def unplugged_def linkof_def)
qed

text \<open>
  C14: the shutdown of the serial side closes every link and frees every node, master and virtual: the
  open descriptors are those the links never owned, nothing is watched, and the walk over the lists it
  destroys neither reads freed memory nor runs on, although a master's list of virtual nodes is taken
  apart from its front while it is walked.
\<close>

theorem serialTerm_frees_all:
  assumes "daemon_ok B ms vs s"
  shows "wp serialTerm
    (\<lambda>_ t. nodes t = (\<lambda>_. None) \<and> links t = (\<lambda>_. None) \<and> distinct (fds t) \<and> set (fds t) = B
       \<and> interest t = (\<lambda>_. None) \<and> wrote (trace t) = wrote (trace s)) (\<lambda>_. False) s"
  by (rule wp_weaken [OF wp_serialTerm [OF assms]]) (simp add: calm_def)

theorem serialTerm_frees_all_witness:
  "wp serialTerm (\<lambda>_ t. set (fds t) = {3} \<and> interest t = (\<lambda>_. None)) (\<lambda>_. False) (demo_world (\<lambda>_. no_reply) ''abc'')"
  by (rule wp_weaken [OF serialTerm_frees_all [OF demo_ok]]) simp_all

section \<open>Removing a node from its list\<close>

text \<open>Both loops run to the node without ever setting \<open>prev\<close>.\<close>

lemmas remove_body_at = remove_body_def [of a b, THEN fun_cong, of "(None, Some x)" for a b x, simplified prod.case]
lemmas del_body_at = del_body_def [of a, THEN fun_cong, of "(None, Some x)" for a x, simplified prod.case]

lemma wp_remove_walk:
  assumes "chain (nodes s) node_next p xs" and "v \<in> set xs" and "length xs < fuel"
    and "nodes s m = Some mn" and "nodes s v = Some k" and "v \<noteq> m"
  shows "wp (loop fuel (remove_body (Some m) (Some v)) (None, p)) Q E s
    = Q () (s\<lparr>nodes := (nodes s)(m \<mapsto> mn\<lparr>virtual_head := None\<rparr>, v \<mapsto> k\<lparr>node_next := None\<rparr>)\<rparr>)"
  using assms
proof (induction xs arbitrary: p fuel)
  case (Cons x xs)
  obtain f where fuel: "fuel = Suc f" using Cons.prems(3) by (cases fuel) auto
  obtain n where x: "p = Some x" "nodes s x = Some n" "chain (nodes s) node_next (node_next n) xs"
    using Cons.prems(1) by (rule chain_Cons_Some)
  show ?case
  proof (cases "v = x")
    case True
    with x Cons.prems(4-6) show ?thesis
      by (simp add: fuel loop.simps(2) [of f "remove_body a b" for a b] remove_body_at wp_upd_node fun_upd_def)
  next
    case False
    with Cons.IH [OF x(3) _ _ Cons.prems(4-6), of f] Cons.prems(2,3) x show ?thesis
      by (simp add: fuel loop.simps(2) [of f "remove_body a b" for a b] remove_body_at wp_get_node)
  qed
qed simp

lemma wp_del_walk:
  assumes "chain (nodes s) node_next p xs" and "v \<in> set xs" and "length xs < fuel" and "nodes s v = Some k"
  shows "wp (loop fuel (del_body (Some v)) (None, p)) Q E s
    = Q () (s\<lparr>master_head := None, nodes := (nodes s)(v \<mapsto> k\<lparr>node_next := None\<rparr>)\<rparr>)"
  using assms
proof (induction xs arbitrary: p fuel)
  case (Cons x xs)
  obtain f where fuel: "fuel = Suc f" using Cons.prems(3) by (cases fuel) auto
  obtain n where x: "p = Some x" "nodes s x = Some n" "chain (nodes s) node_next (node_next n) xs"
    using Cons.prems(1) by (rule chain_Cons_Some)
  show ?case
  proof (cases "v = x")
    case True
    with x Cons.prems(4) show ?thesis
      by (simp add: fuel loop.simps(2) [of f "del_body a" for a] del_body_at wp_upd_node fun_upd_def)
  next
    case False
    with Cons.IH [OF x(3) _ _ Cons.prems(4), of f] Cons.prems(2,3) x show ?thesis
      by (simp add: fuel loop.simps(2) [of f "del_body a" for a] del_body_at wp_get_node)
  qed
qed simp

text \<open>
  C32: \<open>serialRemoveVirtualNode\<close> is meant to take one node out of its master's list. Because its loop
  never moves \<open>prev\<close>, it empties the list whatever node is removed: no virtual node of the master is
  found any more.
\<close>

theorem serialRemoveVirtualNode_drops_all:
  assumes "reg_state s ms vs" and "m \<in> set ms" and "v \<in> set (vs m)"
  shows "wp (serialRemoveVirtualNode (Some m) (Some v))
    (\<lambda>_ t. t = s\<lparr>nodes := (nodes s)(m \<mapsto> (the (nodes s m))\<lparr>virtual_head := None\<rparr>,
             v \<mapsto> (the (nodes s v))\<lparr>node_next := None\<rparr>)\<rparr>
       \<and> serialGetVirtualNode (Some m) (Some nm) t = Inr (None, t)) (\<lambda>_. False) s"
proof -
  obtain mn where mn: "nodes s m = Some mn" "chain (nodes s) node_next (virtual_head mn) (vs m)"
    using assms(1,2) by (rule reg_ok_master)
  obtain k where k: "nodes s v = Some k" using assms by (rule reg_ok_virtual)
  have "v \<noteq> m" using reg_ok_disjoint(1) [OF assms(1,2,2)] assms(3) by auto
  moreover have "length (vs m) < node_fuel s" using reg_ok_fuel(2) [OF assms(1,2)] by (simp add: node_fuel_def)
  ultimately show ?thesis
    using mn k assms(3)
    by (simp add: serialRemoveVirtualNode_def wp_get_node wp_remove_walk [OF mn(2)])
      (simp add: serialGetVirtualNode_def run_defs get_node_def node_fuel_def search_chain.simps)
qed

theorem serialRemoveVirtualNode_drops_all_witness:
  "wp (serialRemoveVirtualNode (Some 0) (Some 1))
    (\<lambda>_ t. map_option virtual_head (nodes t 0) = Some None) (\<lambda>_. False) (demo_world (\<lambda>_. no_reply) [])"
proof -
  have "reg_state (demo_world (\<lambda>_. no_reply) []) [0] demo_virtuals"
    using demo_ok [of "[]" "\<lambda>_. no_reply"] by (simp add: daemon_ok_def)
  then show ?thesis
    by (intro wp_weaken [OF serialRemoveVirtualNode_drops_all]) (auto simp: demo_virtuals_def)
qed

text \<open>
  C33: \<open>serialDelNode\<close> has the same flaw: whatever master it is given, the list of masters is empty
  afterwards, so that no master is found.
\<close>

theorem serialDelNode_drops_all:
  assumes "reg_state s ms vs" and "m \<in> set ms"
  shows "wp (serialDelNode (Some m))
    (\<lambda>_ t. t = s\<lparr>master_head := None, nodes := (nodes s)(m \<mapsto> (the (nodes s m))\<lparr>node_next := None\<rparr>)\<rparr>
       \<and> serialGetNode (Some nm) t = Inr (None, t)) (\<lambda>_. False) s"
proof -
  obtain mn where mn: "nodes s m = Some mn" using assms by (rule reg_ok_master)
  have ms: "chain (nodes s) node_next (master_head s) ms" using assms(1) by (simp add: reg_ok_def)
  have "length ms < node_fuel s" using reg_ok_fuel(1) [OF assms(1)] by (simp add: node_fuel_def)
  then show ?thesis
    using mn assms(2) by (simp add: serialDelNode_def wp_del_walk [OF ms])
      (simp add: serialGetNode_def run_defs node_fuel_def search_chain.simps)
qed

theorem serialDelNode_drops_all_witness:
  "wp (serialDelNode (Some 0)) (\<lambda>_ t. master_head t = None) (\<lambda>_. False) (demo_world (\<lambda>_. no_reply) [])"
proof -
  have "reg_state (demo_world (\<lambda>_. no_reply) []) [0] demo_virtuals"
    using demo_ok [of "[]" "\<lambda>_. no_reply"] by (simp add: daemon_ok_def)
  then show ?thesis
    by (intro wp_weaken [OF serialDelNode_drops_all]) auto
qed

section \<open>Flags\<close>

text \<open>
  A node's events are reading for a master and writing for a virtual node, plus the other
  direction for a writer and the master of one. The name of the flags in the log is \<open>rw\<close> for every
  node, whatever its flags: the first test of \<open>_serialEventString\<close> holds for one flag too.
\<close>

lemma serialEventString_always_rw:
  assumes "reg_state s ms vs" and "nodes s n = Some k"
  shows "serialEventFlags (Some n) s = Inr (ev_flags (nodes s) vs n, s)
    \<and> serialEventString (Some n) s = Inr (Some ''rw'', s)"
proof -
  have "wp (serialEventFlags (Some n)) (\<lambda>r t. r = ev_flags (nodes s) vs n \<and> t = s) (\<lambda>_. False) s"
    by (simp add: wp_serialEventFlags [OF assms])
  then have flags: "serialEventFlags (Some n) s = Inr (ev_flags (nodes s) vs n, s)" by (auto simp: wp_returns)
  moreover have "serialEventString (Some n) s = Inr (Some ''rw'', s)"
    by (simp add: serialEventString_def run_defs flags ev_flags_def)
  ultimately show ?thesis by simp
qed

end
