(* ===== verification/Server.thy ===== *)
theory Server
  imports Config SerialLinks
begin

text \<open>
  The daemon itself (\<open>src/server.c\<close>): signals, the periodic task, start-up, shutdown and \<open>main\<close>,
  and the code behind the callback addresses the event loop is given.
\<close>

abbreviation (input) SIGINT :: int where "SIGINT \<equiv> 2"
abbreviation (input) SIGTERM :: int where "SIGTERM \<equiv> 15"

text \<open>The defaults of \<open>src/server.h\<close>.\<close>

abbreviation (input) CONFIG_DEFAULT_HZ :: int where "CONFIG_DEFAULT_HZ \<equiv> 10"
abbreviation (input) CONFIG_DEFAULT_PID_FILE :: string where "CONFIG_DEFAULT_PID_FILE \<equiv> ''/var/run/sproxyd.pid''"
abbreviation (input) CONFIG_DEFAULT_DAEMONIZE :: bool where "CONFIG_DEFAULT_DAEMONIZE \<equiv> False"
abbreviation (input) CONFIG_DEFAULT_SYSLOG_ENABLED :: int where "CONFIG_DEFAULT_SYSLOG_ENABLED \<equiv> 0"
abbreviation (input) CONFIG_DEFAULT_MAX_CLIENTS :: int where "CONFIG_DEFAULT_MAX_CLIENTS \<equiv> 1000"
abbreviation (input) CONFIG_DEFAULT_VERBOSITY :: int where "CONFIG_DEFAULT_VERBOSITY \<equiv> LL_ERROR"
abbreviation (input) CONFIG_DEFAULT_RECONNECT_INTERVAL_MS :: int where "CONFIG_DEFAULT_RECONNECT_INTERVAL_MS \<equiv> 5000"
abbreviation (input) CONFIG_DEFAULT_SERIAL_CONFIG_FILE :: string where "CONFIG_DEFAULT_SERIAL_CONFIG_FILE \<equiv> ''serial.ini''"

section \<open>Signals\<close>

definition sigHandler :: "int \<Rightarrow> unit io" where
  "sigHandler sig =
     (if sig \<noteq> SIGINT \<and> sig \<noteq> SIGTERM then ret ()
      else bnd (gets shutdown) (\<lambda>sd.
        if sd \<and> sig = SIGINT then stop_with (Exit 1)
        else modify (\<lambda>s. s\<lparr>shutdown := True\<rparr>)))"

text \<open>The environment decides whether a signal arrives, and which; 0 is none.\<close>

definition take_signal :: "unit io" where
  "take_signal = bnd sys_signal sigHandler"

definition setupSignalHandlers :: "unit io" where
  "setupSignalHandlers =
     bnd (sys_sigaction SIGTERM) (\<lambda>r.
       if r \<noteq> 0
       then thn (serverLogErrno LL_ERROR ''sigaction(SIGTERM) failed'') (stop_with (Exit 1))
       else bnd (sys_sigaction SIGINT) (\<lambda>r.
         if r \<noteq> 0
         then thn (serverLogErrno LL_ERROR ''sigaction(SIGINT) failed'') (stop_with (Exit 1))
         else ret ()))"

definition prepareForShutdown :: "unit io" where
  "prepareForShutdown =
     thn (serverLog LL_INFO ''Shutting down...'')
       (bnd (gets daemonize) (\<lambda>d. bnd (gets pidfile) (\<lambda>p.
         when_do (d \<or> p \<noteq> None) (thn (sys_unlink p) (ret ())))))"

section \<open>The periodic task\<close>

text \<open>C division on \<open>int\<close>, undefined for a zero divisor.\<close>

definition int_div :: "int \<Rightarrow> int \<Rightarrow> int io" where
  "int_div a b = (if b = 0 then stop_with DivByZero else ret (c_div a b))"

definition int_mod :: "int \<Rightarrow> int \<Rightarrow> int io" where
  "int_mod a b = (if b = 0 then stop_with DivByZero else ret (c_mod a b))"

text \<open>The condition of the macro \<open>run_with_period(ms)\<close>.\<close>

definition run_with_period :: "int \<Rightarrow> bool io" where
  "run_with_period ms =
     bnd (gets hz) (\<lambda>h.
     bnd (int_div 1000 h) (\<lambda>tick.
       if ms \<le> tick then ret True
       else bnd (int_div ms tick) (\<lambda>period.
         bnd (gets cronloops) (\<lambda>n. bnd (int_mod n period) (\<lambda>m. ret (m = 0))))))"

definition serverCron :: "int \<Rightarrow> ptr \<Rightarrow> int io" where
  "serverCron i clientData =
     bnd (gets shutdown) (\<lambda>sd.
       thn (when_do sd (thn prepareForShutdown aeStop))
      (bnd (gets reconnect_interval) (\<lambda>ms.
       bnd (run_with_period ms) (\<lambda>due.
         thn (when_do due serialCron)
        (bnd (gets cronloops) (\<lambda>n.
           if n = INT_MAX then stop_with IntOverflow
           else
             thn (modify (\<lambda>s. s\<lparr>cronloops := n + 1\<rparr>))
               (bnd (gets hz) (\<lambda>h. int_div 1000 h))))))))"

definition serverBeforeSleep :: "unit io" where
  "serverBeforeSleep = serialBeforeSleep"

text \<open>The functions at the callback addresses; any other address is a bad call.\<close>

definition server_procs :: "world procs" where
  "server_procs =
     \<lparr>call_file = (\<lambda>f fd cd m.
        if f = serialEventHandler_fp then serialEventHandler fd cd m else stop_with BadCall),
      call_time = (\<lambda>f i cd. if f = serverCron_fp then serverCron i cd else stop_with BadCall),
      call_final = (\<lambda>f cd. stop_with BadCall),
      call_sleep = (\<lambda>f. if f = serverBeforeSleep_fp then serverBeforeSleep else stop_with BadCall),
      call_signal = take_signal\<rparr>"

section \<open>Start-up and shutdown\<close>

definition serialInit :: "unit io" where
  "serialInit =
     thn (modify (\<lambda>s. s\<lparr>master_head := None\<rparr>))
       (bnd (gets serial_configfile) (\<lambda>f. thn (serialLoadConfig f) serialReconnect))"

definition serverInitConfig :: "unit io" where
  "serverInitConfig =
     bnd sys_getpid (\<lambda>p.
     thn (modify (\<lambda>s. s\<lparr>pid := p, logfile := None, configfile := None, pidfile := None,
            shutdown := False, cronloops := 0, daemonize := CONFIG_DEFAULT_DAEMONIZE,
            verbosity := CONFIG_DEFAULT_VERBOSITY, syslog := CONFIG_DEFAULT_SYSLOG_ENABLED,
            maxclients := CONFIG_DEFAULT_MAX_CLIENTS, cron_event_id := AE_ERR, hz := CONFIG_DEFAULT_HZ,
            reconnect_interval := CONFIG_DEFAULT_RECONNECT_INTERVAL_MS\<rparr>))
    (bnd (gets maxclients) (\<lambda>n. bnd (aeCreateEventLoop n) (\<lambda>l.
     thn (modify (\<lambda>s. s\<lparr>el := l\<rparr>))
    (bnd sys_malloc (\<lambda>ok.
       if ok then modify (\<lambda>s. s\<lparr>serial_configfile := Some CONFIG_DEFAULT_SERIAL_CONFIG_FILE\<rparr>)
       else exit_saying 2 ''strdup failed'' 1))))))"

definition serverInit :: "unit io" where
  "serverInit =
     thn setupSignalHandlers
       (bnd (aeCreateTimeEvent 1 serverCron_fp None None) (\<lambda>i.
        thn (modify (\<lambda>s. s\<lparr>cron_event_id := i\<rparr>))
          (if i = AE_ERR
           then thn (serverLog LL_ERROR (''Can'' @ [CHR 0x27] @ ''t create event loop timers''))
                  (stop_with (Exit 1))
           else serialInit)))"

definition serverTerm :: "unit io" where
  "serverTerm =
     thn serialTerm
    (thn (modify (\<lambda>s. s\<lparr>logfile := None, pidfile := None, configfile := None,
            serial_configfile := None\<rparr>))
      (bnd (gets cron_event_id) (\<lambda>i. bnd (aeDeleteTimeEvent i) (\<lambda>r.
       thn (when_do (r = AE_ERR) (serverLog LL_WARN ''Failed removing event loop timers''))
         (modify (\<lambda>s. s\<lparr>cron_event_id := AE_ERR\<rparr>))))))"

definition do_daemonize :: "unit io" where
  "do_daemonize =
     bnd sys_fork (\<lambda>r.
       if r \<noteq> 0 then stop_with (Exit 0)
       else thn sys_setsid
         (bnd (sys_open ''/dev/null'') (\<lambda>fd.
           when_do (fd \<noteq> -1)
             (thn (sys_dup2 fd 0) (thn (sys_dup2 fd 1) (thn (sys_dup2 fd 2)
               (when_do (fd > 2) (thn (sys_close fd) (ret ())))))))))"

definition createPidFile :: "unit io" where
  "createPidFile =
     bnd (gets pidfile) (\<lambda>p.
       thn (when_do (p \<noteq> None)
              (bnd sys_malloc (\<lambda>ok.
                 thn (modify (\<lambda>s. s\<lparr>pidfile :=
                        (if ok then Some CONFIG_DEFAULT_PID_FILE else None)\<rparr>))
                   (when_do (\<not> ok)
                     (thn (serverLog LL_ERROR ''strdup failed'') (stop_with (Exit 1)))))))
         (bnd (gets pidfile) (\<lambda>p.
            case p of
              None \<Rightarrow> stop_with NullDeref
            | Some path \<Rightarrow>
                bnd (sys_open path) (\<lambda>fp.
                  when_do (fp \<noteq> -1)
                    (bnd sys_getpid (\<lambda>i.
                       thn (emit (Wrote fp (show_int i @ [newline_char])))
                         (thn (sys_close fp) (ret ()))))))))"

section \<open>main\<close>

text \<open>
  What \<open>getopt(argc, argv, "c:dvh")\<close> returns, call by call: \<open>-c\<close> with its argument, \<open>-d\<close>,
  \<open>-v\<close>, and \<open>-h\<close> or \<open>'?'\<close> for anything it does not know.
\<close>

datatype cmdopt = Opt_c string | Opt_d | Opt_v | Opt_h | Opt_unknown

text \<open>\<open>SPROXY_VERSION\<close> comes from the \<open>config.h\<close> the build generates: a parameter.\<close>

definition version :: "string \<Rightarrow> unit io" where
  "version sproxy_version = exit_saying 1 (''sproxy server v='' @ sproxy_version @ [newline_char]) 0"

definition usage_line :: "string \<Rightarrow> string \<Rightarrow> string" where
  "usage_line opt what = opt @ CHR 0x09 # what @ [newline_char]"

definition usage :: "unit io" where
  "usage = exit_saying 2
     (newline_char # ''Usage: sproxyd [OPTIONS]'' @ [newline_char, newline_char]
      @ ''OPTIONS'' @ [newline_char, newline_char]
      @ usage_line ''-c'' ''Config file'' @ usage_line ''-s'' ''Serial config file''
      @ usage_line ''-d'' ''Daemonize'' @ usage_line ''-v'' ''Program version''
      @ usage_line ''-h'' ''Usage'' @ [newline_char]) 1"

definition parse_option :: "string \<Rightarrow> cmdopt \<Rightarrow> unit io" where
  "parse_option sproxy_version opt =
     (case opt of
        Opt_c arg \<Rightarrow>
          bnd sys_malloc (\<lambda>ok.
            modify (\<lambda>s. s\<lparr>configfile := (if ok then Some arg else None)\<rparr>))
      | Opt_d \<Rightarrow> modify (\<lambda>s. s\<lparr>daemonize := True\<rparr>)
      | Opt_v \<Rightarrow> version sproxy_version
      | Opt_h \<Rightarrow> usage
      | Opt_unknown \<Rightarrow> usage)"

definition read_options :: "string \<Rightarrow> cmdopt list \<Rightarrow> unit io" where
  "read_options sproxy_version opts =
     thn serverInitConfig
    (thn (for_each opts (parse_option sproxy_version))
    (bnd (gets configfile) serverLoadConfig))"

definition go_background :: "unit io" where
  "go_background =
     bnd (gets daemonize) (\<lambda>d.
       when_do d (thn do_daemonize
         (bnd (gets pidfile) (\<lambda>p. when_do (p \<noteq> None) createPidFile))))"

definition startup :: "string \<Rightarrow> cmdopt list \<Rightarrow> unit io" where
  "startup sproxy_version opts =
     thn (read_options sproxy_version opts)
    (thn go_background
    (thn serverInit
    (thn (serverLog LL_INFO (''Server started, sproxy version '' @ sproxy_version))
      (aeSetBeforeSleepProc (Some serverBeforeSleep_fp)))))"

definition finish_server :: "int io" where
  "finish_server = thn serverTerm (thn aeDeleteEventLoop (ret 0))"

definition run_server :: "nat \<Rightarrow> int io" where
  "run_server fuel = thn (aeMain server_procs fuel) finish_server"

definition server_main :: "nat \<Rightarrow> string \<Rightarrow> cmdopt list \<Rightarrow> int io" where
  "server_main fuel sproxy_version opts =
     thn (startup sproxy_version opts) (run_server fuel)"

end
