(* ===== verification/Daemon.thy ===== *)
theory Daemon
  imports Cycle AeLoop Server
begin

text \<open>
  The daemon as a client of its event loop (\<open>src/server.c\<close> on \<open>src/ae.c\<close>): the callbacks \<open>serverCron\<close>,
  \<open>serverBeforeSleep\<close> and \<open>_serialEventHandler\<close> keep the invariant of the running daemon and the
  contract of the loop, which is the interpretation \<open>daemon\<close> of the locale \<open>event_client\<close>.
\<close>

section \<open>The invariant of the running daemon\<close>

definition timers_ok :: "world \<Rightarrow> bool" where
  "timers_ok s \<longleftrightarrow> dom (tevs s) \<subseteq> {..<tev_brk s}
     \<and> (\<forall>L. el s = Some L \<longrightarrow> (\<exists>ts. chain (tevs s) te_next (timeEventHead L) ts
          \<and> (\<exists>a\<in>set ts. te_id (the (tevs s a)) = cron_event_id s))
        \<and> (\<forall>a te. tevs s a = Some te \<longrightarrow> te_id te < timeEventNextId L))
     \<and> (\<forall>a te. tevs s a = Some te \<longrightarrow> te_id te \<noteq> AE_DELETED_EVENT_ID \<and> timeProc te = serverCron_fp)"

definition options_ok :: "world \<Rightarrow> bool" where
  "options_ok s \<longleftrightarrow> 1 \<le> hz s \<and> hz s \<le> 500 \<and> 1000 \<le> reconnect_interval s"

text \<open>\<open>z\<close> says that every master has a positive rate; \<open>e\<close> is the epoll descriptor.\<close>

definition running :: "bool \<Rightarrow> int \<Rightarrow> int set \<Rightarrow> nat list \<Rightarrow> (nat \<Rightarrow> nat list) \<Rightarrow> world \<Rightarrow> bool" where
  "running z e B ms vs s \<longleftrightarrow>
     daemon_ok B ms vs s \<and> timers_ok s \<and> options_ok s \<and> (z \<longrightarrow> rates_ok (nodes s) ms)
     \<and> (\<forall>L. el s = Some L \<longrightarrow> epfd L = e \<and> (beforesleep L = None \<or> beforesleep L = Some serverBeforeSleep_fp))"

text \<open>How the running daemon may stop without returning from its loop.\<close>

definition stops :: "bool \<Rightarrow> halt \<Rightarrow> bool" where
  "stops z h \<longleftrightarrow> h = Exit 1 \<or> h = UseAfterFree \<or> h = IntOverflow \<or> h = DivByZero \<and> \<not> z"

text \<open>The periodic task does not use a freed link.\<close>

definition cron_stops :: "bool \<Rightarrow> halt \<Rightarrow> bool" where
  "cron_stops z h \<longleftrightarrow> h = Exit 1 \<or> h = IntOverflow \<or> h = DivByZero \<and> \<not> z"

lemma stops_cases: "stops z h \<longleftrightarrow> cron_stops z h \<or> h = UseAfterFree"
  by (auto simp: stops_def cron_stops_def)

lemma frozen_bare: "frozen (bare_loop L) = frozen L"
  by (simp add: frozen_def bare_loop_def)

lemma bare_frozen:
  assumes "map_option bare_loop p = map_option bare_loop q"
  shows "map_option frozen p = map_option frozen q"
proof -
  have "map_option frozen r = map_option frozen (map_option bare_loop r)" for r
    by (cases r) (simp_all add: frozen_bare)
  with assms show ?thesis by metis
qed

lemma link_frame_loop_kept:
  assumes "link_frame w s t"
  shows "loop_kept s t"
  using link_frame_world(1,2) [OF assms] bare_frozen [OF link_frame_world(16) [OF assms]]
  by (simp add: loop_kept_def)

lemma rates_ok_relinked:
  assumes "relinked N N'" and "set ms \<subseteq> dom N"
  shows "rates_ok N' ms = rates_ok N ms"
proof -
  have "baudrate (the (N' m)) = baudrate (the (N m))" if m: "m \<in> set ms" for m
  proof -
    obtain n where n: "N m = Some n" using assms(2) m by blast
    obtain n' where "N' m = Some n'" "unlinked n' = unlinked n" using assms(1) n by (rule relinked_Some)
    then show ?thesis using n unlinked_eqD(5) [of n' n] by simp
  qed
  then show ?thesis by (simp add: rates_ok_def)
qed

text \<open>Link operations keep everything else the daemon relies on.\<close>

lemma running_frame:
  assumes run: "running z e B ms vs s" and t: "daemon_ok B ms vs t" "link_frame w s t"
  shows "running z e B ms vs t"
proof -
  have wf: "daemon_ok B ms vs s" using run by (simp add: running_def)
  note same = link_frame_world [OF t(2)]
  have frozen: "map_option frozen (el t) = map_option frozen (el s)"
    using link_frame_loop_kept [OF t(2)] by (simp add: loop_kept_def)
  obtain L where L: "el s = Some L" using wf by (rule wf_loop)
  with frozen have el: "el t = Some L' \<Longrightarrow> timeEventHead L' = timeEventHead L \<and> timeEventNextId L' = timeEventNextId L \<and> beforesleep L' = beforesleep L
      \<and> epfd L' = epfd L" for L'
    by (auto simp: frozen_def)
  have "timers_ok t" using run L el by (auto simp: running_def timers_ok_def same)
  moreover have "rates_ok (nodes t) ms = rates_ok (nodes s) ms"
    using same(17) daemon_ok_masters [OF wf] by (rule rates_ok_relinked)
  moreover have "epfd L' = e \<and> (beforesleep L' = None \<or> beforesleep L' = Some serverBeforeSleep_fp)"
    if "el t = Some L'" for L'
    using run L el [OF that] by (simp add: running_def)
  ultimately show ?thesis using run t(1) by (simp add: running_def options_ok_def same)
qed

lemma running_quiet: "running z e B ms vs s \<Longrightarrow> quiet s t \<Longrightarrow> running z e B ms vs t"
  by (rule running_frame) (auto simp: running_def intro: daemon_ok_quiet quiet_link_frame)

text \<open>Fields of the loop object that the invariant does not read.\<close>

lemma daemon_ok_loop:
  assumes "daemon_ok B ms vs s" and "el s = Some L" and "table_ok L' (interest s) = table_ok L (interest s)"
    and "evmask L' = evmask L" and "events L' = events L"
  shows "daemon_ok B ms vs (s\<lparr>el := Some L'\<rparr>)"
  using assms by (simp add: daemon_ok_def links_ok_def)

lemma running_loop:
  assumes "running z e B ms vs s" and "el s = Some L" and "table_ok L' (interest s) = table_ok L (interest s)"
    and "evmask L' = evmask L" and "events L' = events L" and "timeEventHead L' = timeEventHead L"
    and "timeEventNextId L' = timeEventNextId L" and "beforesleep L' = beforesleep L" and "epfd L' = epfd L"
  shows "running z e B ms vs (s\<lparr>el := Some L'\<rparr>)"
  using assms daemon_ok_loop [of B ms vs s L L']
  by (simp add: running_def timers_ok_def options_ok_def)

lemma running_due:
  assumes "running z e B ms vs s" and "tevs s a = Some te"
  shows "running z e B ms vs (s\<lparr>tevs := (tevs s)(a \<mapsto> te\<lparr>when_sec := x, when_ms := y\<rparr>)\<rparr>)"
proof -
  define T where "T = (tevs s)(a \<mapsto> te\<lparr>when_sec := x, when_ms := y\<rparr>)"
  have "chain T te_next p ts = chain (tevs s) te_next p ts" for p ts
    unfolding T_def by (rule chain_cong) (use assms(2) in simp)
  moreover have "te_id (the (T b)) = te_id (the (tevs s b))" for b using assms(2) by (simp add: T_def)
  moreover have "dom T = dom (tevs s)" using assms(2) by (auto simp: T_def)
  moreover have "te_id te' \<noteq> AE_DELETED_EVENT_ID \<and> timeProc te' = serverCron_fp
      \<and> (el s = Some L \<longrightarrow> te_id te' < timeEventNextId L)" if "T b = Some te'" for b te' L
    using assms that by (auto simp: T_def running_def timers_ok_def split: if_splits)
  ultimately show ?thesis
    using assms(1) unfolding T_def [symmetric] by (simp add: running_def timers_ok_def options_ok_def daemon_ok_def)
qed

lemma running_count:
  "running z e B ms vs s \<Longrightarrow> running z e B ms vs (s\<lparr>cronloops := n\<rparr>)"
  by (simp add: running_def timers_ok_def options_ok_def daemon_ok_def)

lemma running_signal: "running z e B ms vs s \<Longrightarrow> running z e B ms vs (s\<lparr>shutdown := x\<rparr>)"
  by (simp add: running_def timers_ok_def options_ok_def daemon_ok_def)

section \<open>Signals\<close>

lemma wp_take_signal:
  assumes "\<And>t. quiet s t \<Longrightarrow> Q () t" and "\<And>t. quiet s t \<Longrightarrow> Q () (t\<lparr>shutdown := True\<rparr>)" and "E (Exit 1)"
  shows "wp take_signal Q E s"
proof -
  have "wp (sigHandler sig) Q E t" if "quiet s t" for sig t
    using assms that by (simp add: sigHandler_def)
  then show ?thesis unfolding take_signal_def wp_bnd by (rule quiet_wp [OF quiet_signal])
qed

section \<open>The periodic task\<close>

lemma wp_prepareForShutdown:
  assumes "log_ok s" and "\<And>t. quiet s t \<Longrightarrow> Q () t"
  shows "wp prepareForShutdown Q E s"
proof -
  have unlink: "wp (sys_unlink p) (\<lambda>_. Q ()) E t" if "quiet s t" for p t
    by (rule quiet_wp [OF quiet_unlink]) (use that assms(2) quiet_trans in blast)
  show ?thesis
    unfolding prepareForShutdown_def wp_thn
    by (rule wp_serverLog) (use assms unlink in auto)
qed

text \<open>The period is a number of turns, at least one, so the test for it never divides by zero.\<close>

lemma wp_run_with_period:
  assumes "1 \<le> hz s" "hz s \<le> 1000"
  shows "wp (run_with_period ms) Q E s =
    Q (ms \<le> c_div 1000 (hz s) \<or> c_mod (cronloops s) (c_div ms (c_div 1000 (hz s))) = 0) s"
proof -
  let ?tick = "c_div 1000 (hz s)"
  have pos: "1 \<le> ?tick" using assms pos_imp_zdiv_pos_iff [of "hz s" 1000]
    by (simp add: c_div_def signed_divide_int_def)
  have "1 \<le> c_div ms ?tick" if "\<not> ms \<le> ?tick"
    using pos that pos_imp_zdiv_pos_iff [of ?tick ms] by (simp add: c_div_def signed_divide_int_def)
  with pos assms show ?thesis
    by (auto simp: run_with_period_def int_div_def int_mod_def)
qed

text \<open>Whether this run of \<open>serverCron\<close> looks for missing links.\<close>

definition cron_due :: "world \<Rightarrow> bool" where
  "cron_due s \<longleftrightarrow> (let tick = c_div 1000 (hz s) in
     reconnect_interval s \<le> tick \<or> c_mod (cronloops s) (c_div (reconnect_interval s) tick) = 0)"

definition loop_stopped :: "world \<Rightarrow> bool" where
  "loop_stopped s \<longleftrightarrow> stop (the (el s))"

lemma bare_stop: "bare_loop L = bare_loop M \<Longrightarrow> stop L = stop M"
  by (drule arg_cong [where f = stop]) (simp add: bare_loop_def)

lemma link_frame_stopped:
  assumes "link_frame w s t"
  shows "loop_stopped t = loop_stopped s"
proof -
  have same: "map_option bare_loop (el t) = map_option bare_loop (el s)" using assms by (rule link_frame_world)
  show ?thesis
  proof (cases "el s")
    case None
    with same show ?thesis by (simp add: loop_stopped_def)
  next
    case (Some L)
    with same obtain M where M: "el t = Some M" "bare_loop M = bare_loop L" by auto
    with Some bare_stop [OF M(2)] show ?thesis by (simp add: loop_stopped_def)
  qed
qed

text \<open>The settings and the environment stay, and of a node only the pointer to its link may change.\<close>

definition settings :: "world \<Rightarrow> int list" where
  "settings s = [hz s, reconnect_interval s, verbosity s, syslog s, maxclients s]"

definition steady :: "world \<Rightarrow> world \<Rightarrow> bool" where
  "steady s t \<longleftrightarrow> settings t = settings s \<and> answers t = answers s \<and> relinked (nodes s) (nodes t)"

lemma link_frame_steady: "link_frame w s t \<Longrightarrow> steady s t"
  by (simp add: steady_def settings_def link_frame_world)

lemma steady_trans: "steady s t \<Longrightarrow> steady t u \<Longrightarrow> steady s u"
  by (auto simp: steady_def intro: relinked_trans)

lemma wp_shutdown_phase:
  assumes run: "running z e B ms vs s"
    and Q: "\<And>t. running z e B ms vs t \<Longrightarrow> loop_kept s t \<Longrightarrow> nodes t = nodes s \<Longrightarrow> links t = links s \<Longrightarrow>
      hz t = hz s \<Longrightarrow> reconnect_interval t = reconnect_interval s \<Longrightarrow> cronloops t = cronloops s \<Longrightarrow>
      loop_stopped t = (loop_stopped s \<or> shutdown s) \<Longrightarrow> steady s t \<Longrightarrow> Q () t"
  shows "wp (when_do (shutdown s) (thn prepareForShutdown aeStop)) Q E s"
proof (cases "shutdown s")
  case False
  with Q [of s] run show ?thesis by (simp add: loop_kept_def steady_def)
next
  case True
  have wf: "daemon_ok B ms vs s" using run by (simp add: running_def)
  obtain L where L: "el s = Some L" using wf by (rule wf_loop)
  have "Q () (t\<lparr>el := Some (L\<lparr>stop := True\<rparr>)\<rparr>)" if t: "quiet s t" for t
  proof (rule Q)
    note same = quiet_world [OF t]
    show "running z e B ms vs (t\<lparr>el := Some (L\<lparr>stop := True\<rparr>)\<rparr>)"
      by (rule running_loop [OF running_quiet [OF run t], of L]) (use L same in simp_all)
    show "loop_kept s (t\<lparr>el := Some (L\<lparr>stop := True\<rparr>)\<rparr>)"
      using L same by (simp add: loop_kept_def frozen_def)
    show "loop_stopped (t\<lparr>el := Some (L\<lparr>stop := True\<rparr>)\<rparr>) = (loop_stopped s \<or> shutdown s)"
      using True by (simp add: loop_stopped_def)
    show "steady s (t\<lparr>el := Some (L\<lparr>stop := True\<rparr>)\<rparr>)"
      using link_frame_steady [OF quiet_link_frame [OF t]] by (simp add: steady_def settings_def)
  qed (use quiet_world [OF t] in simp_all)
  then have "wp aeStop Q E t" if "quiet s t" for t
    using that L by (simp add: aeStop_def upd_loop_def get_loop_def quiet_world)
  then have "wp prepareForShutdown (\<lambda>_. wp aeStop Q E) E s"
    by (rule wp_prepareForShutdown [OF wf_log_ok [OF wf]])
  with True show ?thesis by simp
qed

lemma wp_serverCron:
  assumes run: "running z e B ms vs s"
  shows "wp (serverCron i cd)
    (\<lambda>r t. running z e B ms vs t \<and> loop_kept s t \<and> r = c_div 1000 (hz s) \<and> cronloops t = cronloops s + 1
      \<and> loop_stopped t = (loop_stopped s \<or> shutdown s) \<and> links s \<subseteq>\<^sub>m links t
      \<and> (\<not> cron_due s \<longrightarrow> links t = links s \<and> nodes t = nodes s)
      \<and> steady s t \<and> cronloops s \<noteq> INT_MAX) (cron_stops z) s"
    (is "wp _ ?Q _ _")
proof -
  let ?tail = "bnd (gets cronloops) (\<lambda>n. if n = INT_MAX then stop_with IntOverflow
      else thn (modify (\<lambda>s. s\<lparr>cronloops := n + 1\<rparr>)) (bnd (gets hz) (\<lambda>h. int_div 1000 h)))"
  have tail: "wp ?tail ?Q (cron_stops z) u"
    if u: "running z e B ms vs u" "loop_kept s u" "hz u = hz s" "cronloops u = cronloops s"
      "loop_stopped u = (loop_stopped s \<or> shutdown s)" "links s \<subseteq>\<^sub>m links u"
      "\<not> cron_due s \<longrightarrow> links u = links s \<and> nodes u = nodes s" "steady s u" for u
  proof -
    have "1 \<le> hz u" using u(1) by (simp add: running_def options_ok_def)
    moreover have "loop_kept s (u\<lparr>cronloops := n\<rparr>)" "loop_stopped (u\<lparr>cronloops := n\<rparr>) = loop_stopped u" for n
      using u(2) by (simp_all add: loop_kept_def loop_stopped_def)
    moreover have "steady s (u\<lparr>cronloops := n\<rparr>)" for n
      using u(8) by (simp add: steady_def settings_def)
    ultimately show ?thesis
      using u running_count [OF u(1)] by (simp add: cron_stops_def int_div_def)
  qed
  have cron: "wp (when_do due serialCron) (\<lambda>_. wp ?tail ?Q (cron_stops z)) (cron_stops z) t"
    if t: "running z e B ms vs t" "loop_kept s t" "nodes t = nodes s" "links t = links s" "hz t = hz s"
      "cronloops t = cronloops s" "loop_stopped t = (loop_stopped s \<or> shutdown s)" "due = cron_due s" "steady s t" for t due
  proof (cases due)
    case False
    with t have "wp ?tail ?Q (cron_stops z) t" by (intro tail) simp_all
    with False show ?thesis by (simp add: when_do_def)
  next
    case True
    have wf: "daemon_ok B ms vs t" using t(1) by (simp add: running_def)
    have "wp ?tail ?Q (cron_stops z) u" if u: "daemon_ok B ms vs u" "link_frame [] t u" "links t \<subseteq>\<^sub>m links u" for u
    proof (rule tail)
      show "running z e B ms vs u" using t(1) u(1,2) by (rule running_frame)
      show "loop_kept s u" using t(2) link_frame_loop_kept [OF u(2)] by (simp add: loop_kept_def)
      show "steady s u" using t(9) link_frame_steady [OF u(2)] by (rule steady_trans)
    qed (use t u(3) True link_frame_world(7,9) [OF u(2)] link_frame_stopped [OF u(2)] in simp_all)
    then have "wp serialReconnect (\<lambda>_. wp ?tail ?Q (cron_stops z)) (cron_stops z) t"
      using t(1) by (intro wp_weaken [OF wp_serialReconnect [OF wf]]) (auto simp: cron_stops_def running_def)
    with True show ?thesis by (simp add: serialCron_def when_do_def)
  qed
  have "wp (bnd (gets reconnect_interval) (\<lambda>ms. bnd (run_with_period ms) (\<lambda>due.
      thn (when_do due serialCron) ?tail))) ?Q (cron_stops z) t"
    if t: "running z e B ms vs t" "loop_kept s t" "nodes t = nodes s" "links t = links s" "hz t = hz s"
      "reconnect_interval t = reconnect_interval s" "cronloops t = cronloops s"
      "loop_stopped t = (loop_stopped s \<or> shutdown s)" "steady s t" for t
  proof -
    have h: "1 \<le> hz t" "hz t \<le> 1000" using t(1) by (simp_all add: running_def options_ok_def)
    show ?thesis
      unfolding wp_bnd [of "gets reconnect_interval"] wp_bnd [of "run_with_period p" for p] wp_gets
        wp_run_with_period [OF h] wp_thn [of "when_do b m" for b m]
      by (rule cron) (use t in \<open>simp_all add: cron_due_def Let_def\<close>)
  qed
  note rest = this
  show ?thesis
    unfolding serverCron_def wp_bnd [of "gets shutdown"] wp_gets wp_thn [of "when_do b m" for b m]
    by (rule wp_shutdown_phase [OF run]) (rule rest)
qed

section \<open>The contract of the loop\<close>

lemma wp_serverBeforeSleep:
  assumes run: "running z e B ms vs s"
  shows "wp serverBeforeSleep (\<lambda>_ t. running z e B ms vs t \<and> loop_kept s t \<and> links t = emptied \<circ> links s) E s"
proof -
  have wf: "daemon_ok B ms vs s" using run by (simp add: running_def)
  let ?t = "s\<lparr>links := emptied \<circ> links s, trace := trace s @ [Slept 1000000]\<rparr>"
  have "daemon_ok B ms vs ?t" using emptied_ok [OF wf] by (simp add: daemon_ok_def)
  moreover have "link_frame [] s ?t" by (simp add: link_frame_def without_links_def)
  ultimately have "running z e B ms vs ?t" "loop_kept s ?t"
    using running_frame [OF run] link_frame_loop_kept by auto
  then show ?thesis by (simp add: serverBeforeSleep_def wp_serialBeforeSleep [OF wf])
qed

lemma watched_link:
  assumes wf: "daemon_ok B ms vs s" and L: "el s = Some L" and fd: "evmask L fd AND b \<noteq> 0"
    and b: "b \<in> {AE_READABLE, AE_WRITABLE}"
  obtains a lk where "fe_clientData (events L ! nat fd) = Some a" "links s a = Some lk" "link_fd lk = fd"
    "proc_for b (events L ! nat fd) = Some serialEventHandler_fp"
proof -
  have ok: "links_ok B (nodes s) (ev_flags (nodes s) vs) (links s) (link_brk s) (fds s) L"
    using wf by (rule wf_loop) (use L in simp)
  have "evmask L fd \<noteq> AE_NONE" using fd by auto
  then have mask: "fe_mask (events L ! nat fd) AND b \<noteq> 0" using fd by (auto simp: evmask_def split: if_splits)
  have "event_ok (ev_flags (nodes s) vs) (links s) fd (events L ! nat fd)"
    using ok \<open>evmask L fd \<noteq> AE_NONE\<close> by (rule links_ok_event)
  then obtain a lk where a: "fe_clientData (events L ! nat fd) = Some a" "links s a = Some lk" "link_fd lk = fd"
    and p: "fe_mask (events L ! nat fd) AND AE_READABLE \<noteq> 0 \<longrightarrow> rfileProc (events L ! nat fd) = Some serialEventHandler_fp"
      "fe_mask (events L ! nat fd) AND AE_WRITABLE \<noteq> 0 \<longrightarrow> wfileProc (events L ! nat fd) = Some serialEventHandler_fp"
    unfolding event_ok_def by blast
  have "proc_for b (events L ! nat fd) = Some serialEventHandler_fp"
    using b mask p by (auto simp: proc_for_def)
  with a show thesis by (rule that)
qed

lemma file_callback:
  assumes run: "running z e B ms vs s" and L: "el s = Some L" and fd: "evmask L fd AND b \<noteq> 0"
    and b: "b \<in> {AE_READABLE, AE_WRITABLE}"
    and J: "\<And>t w. running z e B ms vs t \<Longrightarrow> link_frame w s t \<Longrightarrow> J t"
  shows "\<exists>p. proc_for b (events L ! nat fd) = Some p \<and>
    wp (call_file server_procs p fd (fe_clientData (events L ! nat fd)) m) (\<lambda>_ t. J t \<and> loop_kept s t) (stops z) s"
proof -
  have wf: "daemon_ok B ms vs s" using run by (simp add: running_def)
  obtain a lk where a: "fe_clientData (events L ! nat fd) = Some a" "links s a = Some lk"
    "proc_for b (events L ! nat fd) = Some serialEventHandler_fp"
    using wf L fd b by (rule watched_link)
  have "wp (serialEventHandler fd (Some a) m) (\<lambda>_ t. daemon_ok B ms vs t \<and> (\<exists>w. link_frame w s t)) (stops z) s"
    by (rule wp_serialEventHandler_ok [OF wf a(2)]) (simp add: stops_def)
  then have "wp (serialEventHandler fd (Some a) m) (\<lambda>_ t. J t \<and> loop_kept s t) (stops z) s"
    by (rule wp_weaken) (auto intro: J running_frame [OF run] link_frame_loop_kept)
  with a show ?thesis by (simp add: server_procs_def)
qed

interpretation daemon: event_client server_procs "running z e B ms vs" "stops z" "\<lambda>_. True"
  for z e B ms vs
proof unfold_locales
  fix s :: world
  assume run: "running z e B ms vs s"
  then have wf: "daemon_ok B ms vs s" by (simp add: running_def)
  show "\<exists>L. el s = Some L \<and> table_ok L (interest s)" using wf by (auto elim: wf_loop)
  show "dom (tevs s) \<subseteq> {..<tev_brk s} \<and> (\<exists>ts. chain (tevs s) te_next (timeEventHead L) ts)"
    if "el s = Some L" for L using run that by (auto simp: running_def timers_ok_def)
  show "te_id te \<noteq> AE_DELETED_EVENT_ID" if "tevs s a = Some te" for a te
    using run that by (simp add: running_def timers_ok_def)
  show "running z e B ms vs t" if "quiet s t" for t using run that by (rule running_quiet)
  show "running z e B ms vs (s\<lparr>el := Some (L\<lparr>fired := f\<rparr>)\<rparr>)"
    if "el s = Some L" "length f = length (fired L)" for L f
    by (rule running_loop [OF run that(1)]) (use that(2) in simp_all)
  show "running z e B ms vs (s\<lparr>el := Some (L\<lparr>lastTime := x\<rparr>)\<rparr>)" if "el s = Some L" for L x
    by (rule running_loop [OF run that]) simp_all
  show "running z e B ms vs (s\<lparr>el := Some (L\<lparr>stop := False\<rparr>)\<rparr>)" if "el s = Some L" for L
    by (rule running_loop [OF run that]) simp_all
  show "running z e B ms vs (s\<lparr>tevs := (tevs s)(a \<mapsto> te\<lparr>when_sec := x, when_ms := y\<rparr>)\<rparr>)"
    if "tevs s a = Some te" for a te x y using run that by (rule running_due)
  show "\<exists>p. proc_for b (events L ! nat fd) = Some p \<and>
      wp (call_file server_procs p fd (fe_clientData (events L ! nat fd)) m)
        (\<lambda>_ t. running z e B ms vs t \<and> loop_kept s t) (stops z) s"
    if "el s = Some L" "b \<in> {AE_READABLE, AE_WRITABLE}" "evmask L fd AND b \<noteq> 0" for L b fd m
    using run that(1,3,2) by (rule file_callback)
  show "wp (call_time server_procs (timeProc te) (te_id te) (te_clientData te))
      (\<lambda>r t. running z e B ms vs t \<and> loop_kept s t \<and> r \<noteq> AE_NOMORE) (stops z) s"
    if te: "tevs s a = Some te" for a te
  proof -
    have "timeProc te = serverCron_fp" using run te by (simp add: running_def timers_ok_def)
    moreover have "1 \<le> hz s" using run by (simp add: running_def options_ok_def)
    then have "0 \<le> c_div 1000 (hz s)"
      by (simp add: c_div_def signed_divide_int_def pos_imp_zdiv_nonneg_iff)
    then have "wp (serverCron (te_id te) (te_clientData te))
        (\<lambda>r t. running z e B ms vs t \<and> loop_kept s t \<and> r \<noteq> AE_NOMORE) (stops z) s"
      by (intro wp_mono [OF wp_serverCron [OF run]]) (auto simp: stops_cases)
    ultimately show ?thesis by (simp add: server_procs_def)
  qed
  show "wp (call_sleep server_procs q) (\<lambda>_ t. running z e B ms vs t \<and> loop_kept s t) (stops z) s"
    if "el s = Some L" "beforesleep L = Some q" for L q
  proof -
    have "q = serverBeforeSleep_fp" using run that by (auto simp: running_def)
    with wp_weaken [OF wp_serverBeforeSleep [OF run]] show ?thesis by (simp add: server_procs_def)
  qed
  have "wp take_signal (\<lambda>_. running z e B ms vs) (stops z) s"
    using run by (intro wp_take_signal running_signal) (auto intro: running_quiet simp: stops_def)
  then show "wp (call_signal server_procs) (\<lambda>_. running z e B ms vs) (stops z) s"
    by (simp add: server_procs_def)
qed simp_all

end
