(* ===== verification/Stopping.thy ===== *)
theory Stopping
  imports Daemon
begin

text \<open>
  Shutting down: once a signal asked for it and the clock has passed the due time of the periodic task,
  the next turn of the loop runs the task, the task stops the loop, and \<open>aeMain\<close> returns. The turn is
  followed through two instances of the contracts of \<open>AeLoop\<close>: up to the timers the daemon is \<open>ending\<close>,
  from the first timer that ran on it is \<open>stopping\<close>.
\<close>

section \<open>Up to the timers\<close>

text \<open>Every reading of the clock is at \<open>T\<close> seconds or later.\<close>

definition clock_past :: "int \<Rightarrow> world \<Rightarrow> bool" where
  "clock_past T s \<longleftrightarrow> (\<forall>i. T \<le> r_sec (answers s i))"

definition ending :: "int \<Rightarrow> (nat \<Rightarrow> aeTimeEvent option) \<Rightarrow> bool \<Rightarrow> int \<Rightarrow> int set \<Rightarrow> nat list \<Rightarrow> (nat \<Rightarrow> nat list)
    \<Rightarrow> world \<Rightarrow> bool" where
  "ending T TV z e B ms vs s \<longleftrightarrow> running z e B ms vs s \<and> shutdown s \<and> clock_past T s \<and> tevs s = TV
     \<and> (\<forall>L. el s = Some L \<longrightarrow> lastTime L \<le> T)"

lemma bare_lastTime: "bare_loop L = bare_loop M \<Longrightarrow> lastTime L = lastTime M"
  by (drule arg_cong [where f = lastTime]) (simp add: bare_loop_def)

lemma ending_frame:
  assumes "ending T TV z e B ms vs s" and "running z e B ms vs t" and "link_frame w s t"
  shows "ending T TV z e B ms vs t"
proof -
  note same = link_frame_world [OF assms(3)]
  have "lastTime L \<le> T" if L: "el t = Some L" for L
  proof -
    from same(16) L obtain M where "el s = Some M" "bare_loop L = bare_loop M" by (cases "el s") auto
    then show ?thesis using assms(1) bare_lastTime [of L M] by (simp add: ending_def)
  qed
  then show ?thesis using assms(1,2) same by (simp add: ending_def clock_past_def)
qed

interpretation ending: event_poller server_procs "ending T TV z e B ms vs" "stops z" "\<lambda>_. True"
  for T TV z e B ms vs
proof unfold_locales
  fix s :: world
  assume I: "ending T TV z e B ms vs s"
  then have run: "running z e B ms vs s" by (simp add: ending_def)
  show "\<exists>L. el s = Some L \<and> table_ok L (interest s)" using run by (rule daemon.inv_table)
  show "dom (tevs s) \<subseteq> {..<tev_brk s} \<and> (\<exists>ts. chain (tevs s) te_next (timeEventHead L) ts)"
    if "el s = Some L" for L using run that by (rule daemon.inv_timers)
  show "ending T TV z e B ms vs t" if "quiet s t" for t
    using I running_quiet [OF run that] quiet_link_frame [OF that] by (rule ending_frame)
  show "ending T TV z e B ms vs (s\<lparr>el := Some (L\<lparr>fired := f\<rparr>)\<rparr>)"
    if "el s = Some L" "length f = length (fired L)" for L f
    using I daemon.inv_fired [OF run that] that(1) by (simp add: ending_def clock_past_def)
  show "\<exists>p. proc_for b (events L ! nat fd) = Some p \<and>
      wp (call_file server_procs p fd (fe_clientData (events L ! nat fd)) m)
        (\<lambda>_ t. ending T TV z e B ms vs t \<and> loop_kept s t) (stops z) s"
    if "el s = Some L" "b \<in> {AE_READABLE, AE_WRITABLE}" "evmask L fd AND b \<noteq> 0" for L b fd m
    using run that(1,3,2) ending_frame [OF I] by (rule file_callback)
qed simp_all

section \<open>From the first timer on\<close>

definition stopping :: "bool \<Rightarrow> int \<Rightarrow> int set \<Rightarrow> nat list \<Rightarrow> (nat \<Rightarrow> nat list) \<Rightarrow> world \<Rightarrow> bool" where
  "stopping z e B ms vs s \<longleftrightarrow> running z e B ms vs s \<and> loop_stopped s"

lemma wp_cron_timer:
  assumes run: "running z e B ms vs s" and te: "tevs s a = Some te" and go: "shutdown s \<or> loop_stopped s"
  shows "wp (call_time server_procs (timeProc te) (te_id te) (te_clientData te))
    (\<lambda>r t. stopping z e B ms vs t \<and> loop_kept s t \<and> r \<noteq> AE_NOMORE) (stops z) s"
proof -
  have "timeProc te = serverCron_fp" using run te by (simp add: running_def timers_ok_def)
  moreover have "0 \<le> c_div 1000 (hz s)"
    using run by (simp add: running_def options_ok_def c_div_def signed_divide_int_def pos_imp_zdiv_nonneg_iff)
  then have "wp (serverCron (te_id te) (te_clientData te))
      (\<lambda>r t. stopping z e B ms vs t \<and> loop_kept s t \<and> r \<noteq> AE_NOMORE) (stops z) s"
    using go by (intro wp_mono [OF wp_serverCron [OF run]]) (auto simp: stopping_def stops_cases)
  ultimately show ?thesis by (simp add: server_procs_def)
qed

interpretation stopping: event_timers server_procs "stopping z e B ms vs" "stops z" "\<lambda>_. True"
  for z e B ms vs
proof unfold_locales
  fix s :: world
  assume I: "stopping z e B ms vs s"
  then have run: "running z e B ms vs s" and st: "loop_stopped s" by (simp_all add: stopping_def)
  have frame: "stopping z e B ms vs t" if "running z e B ms vs t" "link_frame w s t" for t w
    using that st link_frame_stopped [OF that(2)] by (simp add: stopping_def)
  show "\<exists>L. el s = Some L \<and> table_ok L (interest s)" using run by (rule daemon.inv_table)
  show "dom (tevs s) \<subseteq> {..<tev_brk s} \<and> (\<exists>ts. chain (tevs s) te_next (timeEventHead L) ts)"
    if "el s = Some L" for L using run that by (rule daemon.inv_timers)
  show "te_id te \<noteq> AE_DELETED_EVENT_ID" if "tevs s a = Some te" for a te
    using run that by (rule daemon.inv_live)
  show "stopping z e B ms vs t" if "quiet s t" for t
    using running_quiet [OF run that] quiet_link_frame [OF that] by (rule frame)
  show "stopping z e B ms vs (s\<lparr>el := Some (L\<lparr>fired := f\<rparr>)\<rparr>)"
    if "el s = Some L" "length f = length (fired L)" for L f
    using daemon.inv_fired [OF run that] st that(1) by (simp add: stopping_def loop_stopped_def)
  show "stopping z e B ms vs (s\<lparr>el := Some (L\<lparr>lastTime := x\<rparr>)\<rparr>)" if "el s = Some L" for L x
    using daemon.inv_clock [OF run that] st that by (simp add: stopping_def loop_stopped_def)
  show "stopping z e B ms vs (s\<lparr>tevs := (tevs s)(a \<mapsto> te\<lparr>when_sec := x, when_ms := y\<rparr>)\<rparr>)"
    if "tevs s a = Some te" for a te x y
    using daemon.inv_due [OF run that] st by (simp add: stopping_def loop_stopped_def)
  show "\<exists>p. proc_for b (events L ! nat fd) = Some p \<and>
      wp (call_file server_procs p fd (fe_clientData (events L ! nat fd)) m)
        (\<lambda>_ t. stopping z e B ms vs t \<and> loop_kept s t) (stops z) s"
    if "el s = Some L" "b \<in> {AE_READABLE, AE_WRITABLE}" "evmask L fd AND b \<noteq> 0" for L b fd m
    using run that(1,3,2) frame by (rule file_callback)
  show "wp (call_time server_procs (timeProc te) (te_id te) (te_clientData te))
      (\<lambda>r t. stopping z e B ms vs t \<and> loop_kept s t \<and> r \<noteq> AE_NOMORE) (stops z) s"
    if "tevs s a = Some te" for a te
    using run that st by (intro wp_cron_timer) simp_all
qed simp_all

text \<open>The first timer of the list is due, so its task runs.\<close>

lemma wp_aeGetTime: "wp aeGetTime (\<lambda>now t. quiet s t \<and> fst now = r_sec (answers s (calls s))) (\<lambda>_. False) s"
  by (simp add: aeGetTime_def sys_gettimeofday_def wp_kernel frame_defs)

lemma wp_first_timer:
  assumes run: "running z e B ms vs s" "shutdown s" and past: "clock_past T s"
    and due: "\<And>a te. tevs s a = Some te \<Longrightarrow> when_sec te < T"
    and ids: "\<And>a te. tevs s a = Some te \<Longrightarrow> te_id te \<le> maxId"
    and ts: "chain (tevs s) te_next cur (a # as)" "length (a # as) < fuel"
  shows "wp (loop fuel (time_body server_procs maxId) (prev, cur, n)) (\<lambda>_. stopping z e B ms vs) (stops z) s"
proof -
  obtain te fuel' where te: "cur = Some a" "tevs s a = Some te" "chain (tevs s) te_next (te_next te) as"
    and fuel: "fuel = Suc fuel'" "length as < fuel'"
    using ts by (cases fuel) (auto split: option.splits)
  have live: "te_id te \<noteq> AE_DELETED_EVENT_ID" using run(1) te(2) by (rule daemon.inv_live)
  let ?next = "\<lambda>n. bnd (get_tev a) (\<lambda>te'. loop fuel' (time_body server_procs maxId) (Some a, te_next te', n))"
  have goon: "wp (?next n) (\<lambda>_. stopping z e B ms vs) (stops z) t"
    if t: "stopping z e B ms vs t" "tevs t = (tevs s)(a \<mapsto> te\<lparr>when_sec := x, when_ms := y\<rparr>)" for t n x y
  proof -
    have "chain (tevs t) te_next (te_next te) as" using te t(2) by simp
    with t fuel(2) show ?thesis by (simp add: wp_get_tev stopping.wp_time_loop)
  qed
  have turn: "wp (when_do (is_due te now) (run_timer server_procs a te))
      (\<lambda>_. wp (?next n) (\<lambda>_. stopping z e B ms vs) (stops z)) (stops z) t"
    if t: "quiet s t" and now: "fst now = r_sec (answers s (calls s))" for now n t
  proof -
    have "running z e B ms vs t" "shutdown t" "tevs t a = Some te" and same: "tevs t = tevs s"
      using running_quiet [OF run(1) t] run(2) te(2) quiet_world [OF t] by (simp_all add: quiet_ae [OF t])
    then have "wp (run_timer server_procs a te)
        (\<lambda>_. wp (?next n) (\<lambda>_. stopping z e B ms vs) (stops z)) (stops z) t"
      by (intro wp_weaken [OF stopping.wp_run_timer [OF _ wp_cron_timer]]) (use goon same in auto)
    moreover have "T \<le> fst now" using past now by (simp add: clock_past_def)
    then have "is_due te now" using due [OF te(2)] by (simp add: is_due_def)
    ultimately show ?thesis by simp
  qed
  have "wp aeGetTime (\<lambda>now. wp (when_do (is_due te now) (run_timer server_procs a te))
      (\<lambda>_. wp (?next (if is_due te now then n + 1 else n)) (\<lambda>_. stopping z e B ms vs) (stops z)) (stops z)) (stops z) s"
    by (rule wp_mono [OF wp_aeGetTime], rule turn) simp_all
  then show ?thesis
    using te fuel(1) live ids [OF te(2)]
    by (simp add: loop.simps(2) time_body_def wp_get_tev wp_bnd_fun wp_thn_fun)
qed

text \<open>The clock has not been set back, so the run over the timers leaves their due times alone first.\<close>

lemma wp_processTimeEvents_stops:
  assumes I: "ending T TV z e B ms vs s" and due: "\<And>a te. TV a = Some te \<Longrightarrow> when_sec te < T"
  shows "wp (processTimeEvents server_procs) (\<lambda>_. stopping z e B ms vs) (stops z) s"
proof -
  have run: "running z e B ms vs s" and past: "clock_past T s" using I by (simp_all add: ending_def)
  have "wp (bnd get_loop (\<lambda>L. bnd (gets tev_fuel) (\<lambda>fuel.
       thn (when_do (now < lastTime L) (loop fuel skew_body (timeEventHead L)))
      (thn (upd_loop (\<lambda>L. L\<lparr>lastTime := now\<rparr>))
        (loop fuel (time_body server_procs (timeEventNextId L - 1)) (None, timeEventHead L, 0))))))
      (\<lambda>_. stopping z e B ms vs) (stops z) t"
    if t: "ending T TV z e B ms vs t" and now: "T \<le> now" for now t
  proof -
    have tr: "running z e B ms vs t" and TV: "tevs t = TV" using t by (simp_all add: ending_def)
    obtain L where L: "el t = Some L" using daemon.inv_table [OF tr] by blast
    obtain ts where ts: "chain TV te_next (timeEventHead L) ts" "dom (tevs t) \<subseteq> {..<tev_brk t}" "ts \<noteq> []"
      and ids: "\<And>a te. TV a = Some te \<Longrightarrow> te_id te \<le> timeEventNextId L - 1"
      using tr L TV by (fastforce simp: running_def timers_ok_def)
    from ts(3) obtain a as where as: "ts = a # as" by (cases ts) simp_all
    let ?t = "t\<lparr>el := Some (L\<lparr>lastTime := now\<rparr>)\<rparr>"
    have "length ts < tev_fuel t"
      using chain_bounded [OF ts(1)] ts(2) TV by (simp add: tev_fuel_def less_Suc_eq_le)
    moreover have "running z e B ms vs ?t" using tr L by (rule daemon.inv_clock)
    ultimately have "wp (loop (tev_fuel t) (time_body server_procs (timeEventNextId L - 1)) (None, timeEventHead L, 0))
        (\<lambda>_. stopping z e B ms vs) (stops z) ?t"
      using t ts(1) as due ids TV
      by (intro wp_first_timer [where T = T and a = a and as = as]) (auto simp: ending_def clock_past_def)
    moreover have "\<not> now < lastTime L" using t now L by (simp add: ending_def)
    ultimately show ?thesis by (simp add: wp_get_loop [OF L] wp_upd_loop [OF L])
  qed
  note rest = this
  show ?thesis
    unfolding processTimeEvents_def wp_bnd [of sys_time]
  proof (rule wp_mono)
    show "wp sys_time (\<lambda>now t. quiet s t \<and> now = r_sec (answers s (calls s))) (\<lambda>_. False) s"
      by (simp add: sys_time_def wp_kernel frame_defs)
  qed (use rest ending.inv_quiet [OF I] past in \<open>auto simp: clock_past_def\<close>)
qed

section \<open>The whole loop\<close>

lemma ending_sleep:
  assumes I: "ending T TV z e B ms vs s" and L: "el s = Some L"
  shows "wp (case beforesleep L of None \<Rightarrow> ret () | Some f \<Rightarrow> call_sleep server_procs f)
    (\<lambda>_. ending T TV z e B ms vs) (stops z) s"
proof -
  have run: "running z e B ms vs s" and wf: "daemon_ok B ms vs s" using I by (simp_all add: ending_def running_def)
  let ?t = "s\<lparr>links := emptied \<circ> links s, trace := trace s @ [Slept 1000000]\<rparr>"
  have "daemon_ok B ms vs ?t" using emptied_ok [OF wf] by (simp add: daemon_ok_def)
  moreover have frame: "link_frame [] s ?t" by (simp add: link_frame_def without_links_def)
  ultimately have "ending T TV z e B ms vs ?t" by (intro ending_frame [OF I running_frame [OF run] frame]) simp_all
  then have "wp serverBeforeSleep (\<lambda>_. ending T TV z e B ms vs) (stops z) s"
    by (simp add: serverBeforeSleep_def wp_serialBeforeSleep [OF wf])
  moreover have "beforesleep L = None \<or> beforesleep L = Some serverBeforeSleep_fp"
    using run L by (simp add: running_def)
  ultimately show ?thesis using I by (auto simp: server_procs_def)
qed

lemma ending_signal:
  assumes I: "ending T TV z e B ms vs s"
  shows "wp (call_signal server_procs) (\<lambda>_. ending T TV z e B ms vs) (stops z) s"
proof -
  have "ending T TV z e B ms vs (t\<lparr>shutdown := True\<rparr>)" if "quiet s t" for t
    using ending.inv_quiet [OF I that] running_signal [of z e B ms vs t True] by (simp add: ending_def clock_past_def)
  then have "wp take_signal (\<lambda>_. ending T TV z e B ms vs) (stops z) s"
    using ending.inv_quiet [OF I] by (intro wp_take_signal) (auto simp: stops_def)
  then show ?thesis by (simp add: server_procs_def)
qed

lemma ending_turn:
  assumes I: "ending T TV z e B ms vs s" and due: "\<And>a te. TV a = Some te \<Longrightarrow> when_sec te < T"
  shows "wp (main_turn server_procs) (\<lambda>_. stopping z e B ms vs) (stops z) s"
proof -
  let ?body = "bnd get_loop (\<lambda>L. thn (case beforesleep L of None \<Rightarrow> ret () | Some f \<Rightarrow> call_sleep server_procs f)
      (thn (aeProcessEvents server_procs AE_ALL_EVENTS) (ret ())))"
  have "wp (aeProcessEvents server_procs AE_ALL_EVENTS) (\<lambda>_. stopping z e B ms vs) (stops z) t"
    if "ending T TV z e B ms vs t" for t
    using that by (rule ending.wp_phases) (use wp_processTimeEvents_stops due in simp_all)
  then have all: "wp (thn (aeProcessEvents server_procs AE_ALL_EVENTS) (ret ())) (\<lambda>_. stopping z e B ms vs) (stops z) t"
    if "ending T TV z e B ms vs t" for t using that by simp
  have "wp ?body (\<lambda>_. stopping z e B ms vs) (stops z) t" if t: "ending T TV z e B ms vs t" for t
  proof -
    obtain L where L: "el t = Some L" using ending.inv_table [OF t] by blast
    with all wp_weaken [OF ending_sleep [OF t L]] show ?thesis by (simp add: wp_get_loop [OF L])
  qed
  with ending_signal [OF I] show ?thesis unfolding main_turn_def wp_thn by (rule wp_weaken)
qed

lemma wp_aeMain_ends:
  assumes I: "ending T TV z e B ms vs s" and due: "\<And>a te. TV a = Some te \<Longrightarrow> when_sec te < T"
  shows "wp (aeMain server_procs (Suc (Suc n))) (\<lambda>_. stopping z e B ms vs) (stops z) s"
proof -
  have run: "running z e B ms vs s" using I by (simp add: ending_def)
  obtain L where L: "el s = Some L" using ending.inv_table [OF I] by blast
  have again: "wp (loop (Suc n) (main_body server_procs) ()) (\<lambda>_. stopping z e B ms vs) (stops z) t"
    if st: "stopping z e B ms vs t" for t
  proof -
    obtain M where M: "el t = Some M" using stopping.inv_table [OF st] by blast
    then have "stop M" using st by (simp add: stopping_def loop_stopped_def)
    with st show ?thesis by (simp add: main_fuel_Suc wp_get_loop [OF M])
  qed
  let ?s = "s\<lparr>el := Some (L\<lparr>stop := False\<rparr>)\<rparr>"
  have "ending T TV z e B ms vs ?s"
    using I L daemon.inv_start [OF run L] by (simp add: ending_def clock_past_def)
  then have "wp (main_turn server_procs) (\<lambda>_. wp (loop (Suc n) (main_body server_procs) ())
      (\<lambda>_. stopping z e B ms vs) (stops z)) (stops z) ?s"
    by (rule wp_weaken [OF ending_turn [OF _ due] again])
  then show ?thesis by (simp add: aeMain_def wp_upd_loop [OF L] main_fuel_Suc [of "Suc n"] wp_get_loop)
qed

end
