(* ===== verification/Runs.thy ===== *)
theory Runs
  imports Stopping
begin

text \<open>
  The daemon as a state machine: a step is a turn of its main loop or the arrival of a signal. The
  invariant holds along every run, the C types of the fields included, and \<open>aeMain\<close> returns from a state
  exactly when turns lead from it to a stopped loop.
\<close>

section \<open>Steps\<close>

inductive turn :: "world \<Rightarrow> world \<Rightarrow> bool" where
  "el s = Some L \<Longrightarrow> \<not> stop L \<Longrightarrow> main_turn server_procs s = Inr ((), t) \<Longrightarrow> turn s t"

inductive daemon_step :: "world \<Rightarrow> world \<Rightarrow> bool" where
  loop: "turn s t \<Longrightarrow> daemon_step s t"
| signal: "sigHandler sig s = Inr ((), t) \<Longrightarrow> daemon_step s t"

inductive_cases turnE: "turn s t"
inductive_simps turn_simps: "turn s t"

text \<open>A signal only sets the flag that asks for the shutdown.\<close>

lemma sigHandler_sets: "sigHandler sig s = Inr ((), t) \<Longrightarrow> t = s \<or> t = s\<lparr>shutdown := True\<rparr>"
  by (auto simp: sigHandler_def run_defs split: if_splits)

section \<open>C types\<close>

definition int_range :: "int \<Rightarrow> bool" where
  "int_range i \<longleftrightarrow> INT_MIN \<le> i \<and> i \<le> INT_MAX"

definition node_typed :: "serialNode \<Rightarrow> bool" where
  "node_typed n \<longleftrightarrow> int_range (baudrate n) \<and> length (node_name n) < PATH_MAX"

definition link_typed :: "serialLink \<Rightarrow> bool" where
  "link_typed lk \<longleftrightarrow> length (recvbuf lk) \<le> BUFSIZ \<and> 0 \<le> recvbuflen lk \<and> recvbuflen lk \<le> int (length (recvbuf lk))"

text \<open>Every field declared \<open>int\<close> holds an \<open>int\<close>, every buffer no more than its array.\<close>

definition c_typed :: "world \<Rightarrow> bool" where
  "c_typed s \<longleftrightarrow> list_all int_range (cronloops s # settings s) \<and> 0 \<le> cronloops s
     \<and> (\<forall>a n. nodes s a = Some n \<longrightarrow> node_typed n) \<and> (\<forall>a lk. links s a = Some lk \<longrightarrow> link_typed lk)"

lemma links_typed:
  assumes "daemon_ok B ms vs s" and "links s a = Some lk"
  shows "link_typed lk"
proof -
  have "buf_ok lk" using assms by (rule wf_link)
  then show ?thesis by (auto simp: buf_ok_def link_typed_def)
qed

lemma c_typed_steady:
  assumes "c_typed s" and st: "steady s t" and "int_range (cronloops t)" "0 \<le> cronloops t" and ok: "daemon_ok B ms vs t"
  shows "c_typed t"
proof -
  have "node_typed n'" if n': "nodes t a = Some n'" for a n'
  proof -
    have "relinked (nodes s) (nodes t)" using st by (simp add: steady_def)
    then obtain n where n: "nodes s a = Some n" "unlinked n' = unlinked n" using n' by (rule relinked_Some')
    have "node_typed n" using assms(1) n(1) by (simp add: c_typed_def)
    then show ?thesis using unlinked_eqD(1,5) [OF n(2)] by (simp add: node_typed_def)
  qed
  then show ?thesis
    using assms links_typed [OF ok] by (simp add: c_typed_def steady_def)
qed

section \<open>The invariant of a run\<close>

definition sound :: "bool \<Rightarrow> int \<Rightarrow> int set \<Rightarrow> nat list \<Rightarrow> (nat \<Rightarrow> nat list) \<Rightarrow> world \<Rightarrow> bool" where
  "sound z e B ms vs s \<longleftrightarrow> running z e B ms vs s \<and> c_typed s"

lemma sound_frame:
  assumes "sound z e B ms vs s" and run: "running z e B ms vs t" and fr: "link_frame w s t"
  shows "sound z e B ms vs t"
proof -
  have ok: "daemon_ok B ms vs t" using run by (simp add: running_def)
  have ty: "c_typed s" using assms(1) by (simp add: sound_def)
  have "int_range (cronloops t)" "0 \<le> cronloops t"
    using ty link_frame_world(9) [OF fr] by (simp_all add: c_typed_def)
  then have "c_typed t" by (rule c_typed_steady [OF ty link_frame_steady [OF fr] _ _ ok])
  with run show ?thesis by (simp add: sound_def)
qed

lemma sound_cron:
  assumes I: "sound z e B ms vs s" and te: "tevs s a = Some te"
  shows "wp (call_time server_procs (timeProc te) (te_id te) (te_clientData te))
    (\<lambda>r t. sound z e B ms vs t \<and> loop_kept s t \<and> r \<noteq> AE_NOMORE) (stops z) s"
proof -
  have run: "running z e B ms vs s" and ty: "c_typed s" using I by (simp_all add: sound_def)
  have "timeProc te = serverCron_fp" using run te by (simp add: running_def timers_ok_def)
  moreover have "0 \<le> c_div 1000 (hz s)"
    using run by (simp add: running_def options_ok_def c_div_def signed_divide_int_def pos_imp_zdiv_nonneg_iff)
  moreover have "sound z e B ms vs t"
    if t: "running z e B ms vs t" "steady s t" "cronloops t = cronloops s + 1" "cronloops s \<noteq> INT_MAX" for t
  proof -
    have "0 \<le> cronloops s" "cronloops s \<le> INT_MAX" using ty by (simp_all add: c_typed_def int_range_def)
    then have "int_range (cronloops t)" "0 \<le> cronloops t" using t(3,4) by (simp_all add: int_range_def INT_MIN_def)
    then show ?thesis using ty t(1,2) c_typed_steady [of s t B ms vs] by (simp add: sound_def running_def)
  qed
  ultimately show ?thesis
    by (auto simp: server_procs_def stops_cases intro!: wp_mono [OF wp_serverCron [OF run]])
qed

lemma sound_signal: "sound z e B ms vs s \<Longrightarrow> sound z e B ms vs (s\<lparr>shutdown := x\<rparr>)"
  using running_signal [of z e B ms vs s x] by (simp add: sound_def c_typed_def settings_def)

interpretation sound: event_client server_procs "sound z e B ms vs" "stops z" "\<lambda>_. True"
  for z e B ms vs
proof unfold_locales
  fix s :: world
  assume I: "sound z e B ms vs s"
  then have run: "running z e B ms vs s" and ty: "c_typed s" by (simp_all add: sound_def)
  note same = sound_def c_typed_def settings_def
  show "\<exists>L. el s = Some L \<and> table_ok L (interest s)" using run by (rule daemon.inv_table)
  show "dom (tevs s) \<subseteq> {..<tev_brk s} \<and> (\<exists>ts. chain (tevs s) te_next (timeEventHead L) ts)"
    if "el s = Some L" for L using run that by (rule daemon.inv_timers)
  show "te_id te \<noteq> AE_DELETED_EVENT_ID" if "tevs s a = Some te" for a te
    using run that by (rule daemon.inv_live)
  show "sound z e B ms vs t" if "quiet s t" for t
    using I running_quiet [OF run that] quiet_link_frame [OF that] by (rule sound_frame)
  show "sound z e B ms vs (s\<lparr>el := Some (L\<lparr>fired := f\<rparr>)\<rparr>)"
    if "el s = Some L" "length f = length (fired L)" for L f
    using daemon.inv_fired [OF run that] ty by (simp add: same)
  show "sound z e B ms vs (s\<lparr>el := Some (L\<lparr>lastTime := x\<rparr>)\<rparr>)" if "el s = Some L" for L x
    using daemon.inv_clock [OF run that] ty by (simp add: same)
  show "sound z e B ms vs (s\<lparr>el := Some (L\<lparr>stop := False\<rparr>)\<rparr>)" if "el s = Some L" for L
    using daemon.inv_start [OF run that] ty by (simp add: same)
  show "sound z e B ms vs (s\<lparr>tevs := (tevs s)(a \<mapsto> te\<lparr>when_sec := x, when_ms := y\<rparr>)\<rparr>)"
    if "tevs s a = Some te" for a te x y
    using daemon.inv_due [OF run that] ty by (simp add: same)
  show "\<exists>p. proc_for b (events L ! nat fd) = Some p \<and>
      wp (call_file server_procs p fd (fe_clientData (events L ! nat fd)) m)
        (\<lambda>_ t. sound z e B ms vs t \<and> loop_kept s t) (stops z) s"
    if "el s = Some L" "b \<in> {AE_READABLE, AE_WRITABLE}" "evmask L fd AND b \<noteq> 0" for L b fd m
    using run that(1,3,2) sound_frame [OF I] by (rule file_callback)
  show "wp (call_time server_procs (timeProc te) (te_id te) (te_clientData te))
      (\<lambda>r t. sound z e B ms vs t \<and> loop_kept s t \<and> r \<noteq> AE_NOMORE) (stops z) s"
    if "tevs s a = Some te" for a te using I that by (rule sound_cron)
  show "wp (call_sleep server_procs q) (\<lambda>_ t. sound z e B ms vs t \<and> loop_kept s t) (stops z) s"
    if "el s = Some L" "beforesleep L = Some q" for L q
  proof -
    have wf: "daemon_ok B ms vs s" using run by (simp add: running_def)
    let ?t = "s\<lparr>links := emptied \<circ> links s, trace := trace s @ [Slept 1000000]\<rparr>"
    have "daemon_ok B ms vs ?t" using emptied_ok [OF wf] by (simp add: daemon_ok_def)
    moreover have frame: "link_frame [] s ?t" by (simp add: link_frame_def without_links_def)
    ultimately have "sound z e B ms vs ?t" by (intro sound_frame [OF I running_frame [OF run] frame]) simp_all
    moreover have "q = serverBeforeSleep_fp" using run that by (auto simp: running_def)
    ultimately show ?thesis
      using link_frame_loop_kept [OF frame] by (simp add: server_procs_def serverBeforeSleep_def wp_serialBeforeSleep [OF wf])
  qed
  have "sound z e B ms vs t" if "quiet s t" for t
    using I running_quiet [OF run that] quiet_link_frame [OF that] by (rule sound_frame)
  then have "wp take_signal (\<lambda>_. sound z e B ms vs) (stops z) s"
    by (intro wp_take_signal sound_signal) (auto simp: stops_def)
  then show "wp (call_signal server_procs) (\<lambda>_. sound z e B ms vs) (stops z) s"
    by (simp add: server_procs_def)
qed simp_all

lemma sound_step:
  assumes I: "sound z e B ms vs s" and "daemon_step s t"
  shows "sound z e B ms vs t"
  using assms(2)
proof (cases rule: daemon_step.cases)
  case loop
  then show ?thesis using sound.wp_main_turn [OF I] by (auto simp: wp_def elim!: turnE)
next
  case signal
  then show ?thesis using sigHandler_sets I sound_signal by blast
qed

lemma sound_run:
  assumes "daemon_step\<^sup>*\<^sup>* s t" and "sound z e B ms vs s"
  shows "sound z e B ms vs t"
  using assms by (induction rule: rtranclp_induct) (auto intro: sound_step)

lemma sound_progress:
  assumes I: "sound z e B ms vs s"
  shows "loop_stopped s \<or> (\<exists>t. turn s t) \<or> (\<exists>h. main_turn server_procs s = Inl h \<and> stops z h)"
proof -
  obtain L where L: "el s = Some L" using sound.inv_table [OF I] by blast
  have "wp (main_turn server_procs) (\<lambda>_. sound z e B ms vs) (stops z) s" using I by (rule sound.wp_main_turn)
  then show ?thesis
    using L by (cases "main_turn server_procs s") (auto simp: wp_def turn_simps loop_stopped_def split: prod.splits)
qed

section \<open>The loop is the reflexive transitive closure of its turns\<close>

lemma loop_main_Suc:
  "loop (Suc fuel) (main_body P) () s = (case el s of None \<Rightarrow> Inl NullDeref
    | Some L \<Rightarrow> if stop L then Inr ((), s)
        else (case main_turn P s of Inl h \<Rightarrow> Inl h | Inr (_, t) \<Rightarrow> loop fuel (main_body P) () t))"
  by (auto simp: loop.simps(2) main_body_def get_loop_def run_defs split: option.splits sum.splits)

lemma loop_turns: "loop fuel (main_body server_procs) () s = Inr ((), t) \<Longrightarrow> turn\<^sup>*\<^sup>* s t \<and> el t \<noteq> None \<and> loop_stopped t"
proof (induction fuel arbitrary: s)
  case 0
  then show ?case by (simp add: loop.simps run_defs)
next
  case (Suc fuel)
  from Suc.prems obtain L where L: "el s = Some L" by (auto simp: loop_main_Suc split: option.splits)
  show ?case
  proof (cases "stop L")
    case True
    with Suc.prems L show ?thesis by (simp add: loop_main_Suc loop_stopped_def)
  next
    case False
    with Suc.prems L obtain u where u: "main_turn server_procs s = Inr ((), u)"
      "loop fuel (main_body server_procs) () u = Inr ((), t)"
      by (auto simp: loop_main_Suc split: sum.splits)
    have "turn s u" using L False u(1) by (rule turn.intros)
    with Suc.IH [OF u(2)] show ?thesis by (auto intro: converse_rtranclp_into_rtranclp)
  qed
qed

lemma turns_loop:
  assumes "turn\<^sup>*\<^sup>* s t" and "el t \<noteq> None" "loop_stopped t"
  shows "\<exists>fuel. loop fuel (main_body server_procs) () s = Inr ((), t)"
  using assms
proof (induction rule: converse_rtranclp_induct)
  case base
  then show ?case by (intro exI [of _ 1]) (auto simp: loop_main_Suc loop_stopped_def One_nat_def split: option.splits)
next
  case (step s u)
  then obtain fuel where "loop fuel (main_body server_procs) () u = Inr ((), t)" by blast
  with step(1) show ?case by (intro exI [of _ "Suc fuel"]) (auto simp: loop_main_Suc elim!: turnE)
qed

lemma aeMain_turns:
  assumes "el s = Some L"
  shows "(\<exists>fuel. aeMain server_procs fuel s = Inr ((), t)) \<longleftrightarrow>
    turn\<^sup>*\<^sup>* (s\<lparr>el := Some (L\<lparr>stop := False\<rparr>)\<rparr>) t \<and> el t \<noteq> None \<and> loop_stopped t"
proof -
  have "aeMain server_procs fuel s = loop fuel (main_body server_procs) () (s\<lparr>el := Some (L\<lparr>stop := False\<rparr>)\<rparr>)" for fuel
    using assms by (simp add: aeMain_def upd_loop_def get_loop_def run_defs)
  then show ?thesis using loop_turns turns_loop by metis
qed

end
