(* ===== verification/OneWay.thy ===== *)
theory OneWay
  imports Daemon
begin

text \<open>
  The use of a freed link comes from descriptors reported in both directions, and from nothing else: where
  the environment never reports one so, the contracts of \<open>AeLoop\<close> hold with fewer halts. File events alone
  then stop in no way at all, and the whole loop only in the ways of the periodic task.
\<close>

section \<open>Masks\<close>

definition one_way :: "mask \<Rightarrow> bool" where
  "one_way m \<longleftrightarrow> m AND AE_READABLE = 0 \<or> m AND AE_WRITABLE = 0"

lemma and_subset: "m AND b = 0 \<Longrightarrow> (m AND k) AND b = 0" for m b k :: mask
  by (metis and.assoc and.commute and_zero_eq)

lemma one_way_subset:
  "one_way m \<Longrightarrow> one_way (m AND k)"
  by (auto simp: one_way_def and_subset)

text \<open>The events of a descriptor, as the environment reports them before the kernel drops what was not asked for.\<close>

definition incoming :: "mask \<Rightarrow> bool" where
  "incoming b \<longleftrightarrow> b AND EPOLLIN \<noteq> 0"

definition outgoing :: "mask \<Rightarrow> bool" where
  "outgoing b \<longleftrightarrow> b AND EPOLLOUT \<noteq> 0 \<or> b AND EPOLLERR \<noteq> 0 \<or> b AND EPOLLHUP \<noteq> 0"

lemma one_way_events: "one_way (ae_mask_of b) \<longleftrightarrow> \<not> (incoming b \<and> outgoing b)"
  by (simp add: one_way_def ae_mask_of_def incoming_def outgoing_def)

lemma events_subset: "incoming (b AND k) \<Longrightarrow> incoming b" "outgoing (b AND k) \<Longrightarrow> outgoing b"
  by (auto simp: incoming_def outgoing_def and_subset)

lemma epoll_ready_reported: "(fd, e) \<in> set (epoll_ready I rs) \<Longrightarrow> \<exists>b k. (fd, b) \<in> set rs \<and> e = b AND k"
  by (induction I rs rule: epoll_ready.induct) (auto split: option.splits if_splits)

text \<open>No poll reports a descriptor with data together with room, an error or a hangup.\<close>

definition never_both :: "world \<Rightarrow> bool" where
  "never_both s \<longleftrightarrow> (\<forall>i fd b. (fd, b) \<in> set (r_ready (answers s i)) \<longrightarrow> \<not> (incoming b \<and> outgoing b))"

lemma never_both_polled:
  assumes "never_both s" and "(fd, e) \<in> set (epoll_ready (interest s) (r_ready (answers s i)))"
  shows "one_way (ae_mask_of e)"
proof -
  obtain b k where b: "(fd, b) \<in> set (r_ready (answers s i))" "e = b AND k"
    using epoll_ready_reported [OF assms(2)] by blast
  then have "\<not> (incoming b \<and> outgoing b)" using assms(1) unfolding never_both_def by blast
  then show ?thesis using events_subset [of b k] by (auto simp: one_way_events b(2))
qed

section \<open>The contracts\<close>

definition smooth :: "bool \<Rightarrow> int \<Rightarrow> int set \<Rightarrow> nat list \<Rightarrow> (nat \<Rightarrow> nat list) \<Rightarrow> world \<Rightarrow> bool" where
  "smooth z e B ms vs s \<longleftrightarrow> running z e B ms vs s \<and> never_both s"

lemma smooth_frame: "smooth z e B ms vs s \<Longrightarrow> running z e B ms vs t \<Longrightarrow> answers t = answers s \<Longrightarrow> smooth z e B ms vs t"
  by (simp add: smooth_def never_both_def)

lemma smooth_quiet: "smooth z e B ms vs s \<Longrightarrow> quiet s t \<Longrightarrow> smooth z e B ms vs t"
  by (rule smooth_frame) (auto simp: smooth_def quiet_world intro: running_quiet)

text \<open>A callback for a link reported in one direction does not stop at all.\<close>

lemma one_way_callback:
  assumes I: "smooth z e B ms vs s" and L: "el s = Some L" and fd: "evmask L fd AND b \<noteq> 0"
    and b: "b \<in> {AE_READABLE, AE_WRITABLE}" and m: "one_way m"
  shows "\<exists>p. proc_for b (events L ! nat fd) = Some p \<and>
    wp (call_file server_procs p fd (fe_clientData (events L ! nat fd)) m)
      (\<lambda>_ t. smooth z e B ms vs t \<and> loop_kept s t) E s"
proof -
  have run: "running z e B ms vs s" and wf: "daemon_ok B ms vs s" using I by (simp_all add: smooth_def running_def)
  obtain a lk where a: "fe_clientData (events L ! nat fd) = Some a" "links s a = Some lk"
    "proc_for b (events L ! nat fd) = Some serialEventHandler_fp"
    using wf L fd b by (rule watched_link)
  have "wp (serialEventHandler fd (Some a) m) (\<lambda>_ t. daemon_ok B ms vs t \<and> (\<exists>w. link_frame w s t)) E s"
    by (rule wp_serialEventHandler_ok [OF wf a(2)]) (use m in \<open>simp add: one_way_def\<close>)
  then have "wp (serialEventHandler fd (Some a) m) (\<lambda>_ t. smooth z e B ms vs t \<and> loop_kept s t) E s"
    by (rule wp_weaken)
      (auto intro: smooth_frame [OF I] running_frame [OF run] link_frame_loop_kept simp: link_frame_world(19))
  with a show ?thesis by (simp add: server_procs_def)
qed

interpretation file_turn: event_poller server_procs "smooth z e B ms vs" E one_way
  for z e B ms vs E
proof unfold_locales
  fix s :: world
  assume I: "smooth z e B ms vs s"
  then have run: "running z e B ms vs s" by (simp add: smooth_def)
  show "\<exists>L. el s = Some L \<and> table_ok L (interest s)" using run by (rule daemon.inv_table)
  show "dom (tevs s) \<subseteq> {..<tev_brk s} \<and> (\<exists>ts. chain (tevs s) te_next (timeEventHead L) ts)"
    if "el s = Some L" for L using run that by (rule daemon.inv_timers)
  show "smooth z e B ms vs t" if "quiet s t" for t using I that by (rule smooth_quiet)
  show "smooth z e B ms vs (s\<lparr>el := Some (L\<lparr>fired := f\<rparr>)\<rparr>)"
    if "el s = Some L" "length f = length (fired L)" for L f
    using I daemon.inv_fired [OF run that] by (rule smooth_frame) simp
  show "\<exists>p. proc_for b (events L ! nat fd) = Some p \<and>
      wp (call_file server_procs p fd (fe_clientData (events L ! nat fd)) m)
        (\<lambda>_ t. smooth z e B ms vs t \<and> loop_kept s t) E s"
    if "el s = Some L" "b \<in> {AE_READABLE, AE_WRITABLE}" "evmask L fd AND b \<noteq> 0" "one_way m" for L b fd m
    using I that(1,3,2,4) by (rule one_way_callback)
  show "one_way (ae_mask_of ev)" if "(fd, ev) \<in> set (epoll_ready (interest s) (r_ready (answers s i)))" for fd ev i
    using I that by (auto simp: smooth_def intro: never_both_polled)
qed (rule one_way_subset)

interpretation smooth: event_client server_procs "smooth z e B ms vs" "cron_stops z" one_way
  for z e B ms vs
proof unfold_locales
  fix s :: world
  assume I: "smooth z e B ms vs s"
  then have run: "running z e B ms vs s" by (simp add: smooth_def)
  show "te_id te \<noteq> AE_DELETED_EVENT_ID" if "tevs s a = Some te" for a te
    using run that by (rule daemon.inv_live)
  show "smooth z e B ms vs (s\<lparr>el := Some (L\<lparr>lastTime := x\<rparr>)\<rparr>)" if "el s = Some L" for L x
    using I daemon.inv_clock [OF run that] by (rule smooth_frame) simp
  show "smooth z e B ms vs (s\<lparr>el := Some (L\<lparr>stop := False\<rparr>)\<rparr>)" if "el s = Some L" for L
    using I daemon.inv_start [OF run that] by (rule smooth_frame) simp
  show "smooth z e B ms vs (s\<lparr>tevs := (tevs s)(a \<mapsto> te\<lparr>when_sec := x, when_ms := y\<rparr>)\<rparr>)"
    if "tevs s a = Some te" for a te x y
    using I daemon.inv_due [OF run that] by (rule smooth_frame) simp
  show "wp (call_time server_procs (timeProc te) (te_id te) (te_clientData te))
      (\<lambda>r t. smooth z e B ms vs t \<and> loop_kept s t \<and> r \<noteq> AE_NOMORE) (cron_stops z) s"
    if te: "tevs s a = Some te" for a te
  proof -
    have "timeProc te = serverCron_fp" using run te by (simp add: running_def timers_ok_def)
    moreover have "0 \<le> c_div 1000 (hz s)"
      using run by (simp add: running_def options_ok_def c_div_def signed_divide_int_def pos_imp_zdiv_nonneg_iff)
    ultimately show ?thesis
      by (auto simp: server_procs_def steady_def intro: smooth_frame [OF I] intro!: wp_weaken [OF wp_serverCron [OF run]])
  qed
  show "wp (call_sleep server_procs q) (\<lambda>_ t. smooth z e B ms vs t \<and> loop_kept s t) (cron_stops z) s"
    if "el s = Some L" "beforesleep L = Some q" for L q
  proof -
    have wf: "daemon_ok B ms vs s" using run by (simp add: running_def)
    have q: "q = serverBeforeSleep_fp" using run that by (auto simp: running_def)
    have "wp serverBeforeSleep (\<lambda>_ t. answers t = answers s) (cron_stops z) s"
      by (simp add: serverBeforeSleep_def wp_serialBeforeSleep [OF wf])
    then have "wp serverBeforeSleep (\<lambda>_ t. smooth z e B ms vs t \<and> loop_kept s t) (cron_stops z) s"
      by (rule wp_weaken [OF wp_conj [OF wp_serverBeforeSleep [OF run]]]) (auto intro: smooth_frame [OF I])
    with q show ?thesis by (simp add: server_procs_def)
  qed
  have "smooth z e B ms vs (t\<lparr>shutdown := True\<rparr>)" if "quiet s t" for t
    using smooth_quiet [OF I that] running_signal [of z e B ms vs t True] by (simp add: smooth_def never_both_def)
  then have "wp take_signal (\<lambda>_. smooth z e B ms vs) (cron_stops z) s"
    by (intro wp_take_signal) (auto intro: smooth_quiet [OF I] simp: cron_stops_def)
  then show "wp (call_signal server_procs) (\<lambda>_. smooth z e B ms vs) (cron_stops z) s"
    by (simp add: server_procs_def)
qed

text \<open>One turn: without time events nothing stops it.\<close>

lemma wp_smooth_events:
  assumes I: "smooth z e B ms vs s"
  shows "wp (aeProcessEvents server_procs flags) (\<lambda>_. smooth z e B ms vs)
    (\<lambda>h. flags AND AE_TIME_EVENTS \<noteq> 0 \<and> cron_stops z h) s"
  by (rule file_turn.wp_phases [OF I]) (auto intro: wp_mono [OF smooth.wp_processTimeEvents])

end
