(* ===== verification/LoopProps.thy ===== *)
theory LoopProps
  imports Runs OneWay Demo
begin

text \<open>
  What is claimed of the event loop (\<open>src/ae.c\<close>) and of the daemon running on it (\<open>src/server.c\<close>).
\<close>

section \<open>The demo state runs\<close>

lemma demo_running:
  assumes "length buf \<le> BUFSIZ"
  shows "running True 3 {3} [0] demo_virtuals (demo_world ans buf)"
proof -
  have "timers_ok (demo_world ans buf)"
    unfolding timers_ok_def
    by (auto simp: demo_world_def demo_loop_def demo_timer_def intro!: exI [of _ "[0]"])
  moreover have "options_ok (demo_world ans buf)" "rates_ok (nodes (demo_world ans buf)) [0]"
    by (simp_all add: options_ok_def rates_ok_def demo_world_def idle_world_def demo_master_def)
  moreover have "el (demo_world ans buf) = Some demo_loop" by (simp add: demo_world_def)
  ultimately show ?thesis
    using demo_ok [OF assms] by (simp add: running_def) (simp add: demo_loop_def)
qed

text \<open>Every poll reports data on the device and a hangup of its virtual node; every read is at the end.\<close>

definition hangup_reply :: reply where
  "hangup_reply = no_reply\<lparr>r_ok := True, r_ready := [(4, EPOLLIN), (5, EPOLLHUP)]\<rparr>"

section \<open>The running daemon\<close>

text \<open>
  C1: the daemon is safe for as long as it runs. From any state of the invariant, and whatever the
  kernel answers, the main loop keeps the invariant through any number of turns and returns only when
  it was told to stop. It can leave otherwise only by running out of memory, by the use of a link
  freed in the same dispatch, when the turn counter overflows, or, if some master has a rate that is
  not positive, by a division by zero: never by a NULL or wild pointer, an index out of bounds or a
  call through an empty procedure.
\<close>

theorem aeMain_safe:
  assumes "running z e B ms vs s"
  shows "wp (aeMain server_procs fuel) (\<lambda>_ t. running z e B ms vs t \<and> loop_stopped t)
    (\<lambda>h. h = Exit 1 \<or> h = UseAfterFree \<or> h = IntOverflow \<or> h = DivByZero \<and> \<not> z \<or> h = OutOfFuel) s"
  by (rule wp_mono [OF daemon.wp_aeMain [OF assms]]) (auto simp: stops_def loop_stopped_def)

theorem aeMain_safe_witness:
  "wp (aeMain server_procs 7) (\<lambda>_ t. running True 3 {3} [0] demo_virtuals t \<and> loop_stopped t)
    (\<lambda>h. h = Exit 1 \<or> h = UseAfterFree \<or> h = IntOverflow \<or> h = OutOfFuel) (demo_world (\<lambda>_. no_reply) ''abc'')"
  by (rule wp_mono [OF aeMain_safe [OF demo_running]]) auto



text \<open>
  C6: well-formed states stay well-formed, and do not get stuck. The state is well-formed when every pointer,
  descriptor and registered callback refers to an object of its kind (\<open>running\<close>) and every \<open>int\<close> of the
  settings, the nodes and the counters is one, every buffer within its array (\<open>c_typed\<close>). Along any run
  made of turns of the loop and of signals, in any order, it stays so; and at any point of the run the loop
  has been stopped, or another turn is possible, or the turn stops in one of the known ways.
\<close>

theorem daemon_run_typed:
  assumes "running z e B ms vs s" and "c_typed s" and "daemon_step\<^sup>*\<^sup>* s t"
  shows "running z e B ms vs t \<and> c_typed t
    \<and> (loop_stopped t \<or> (\<exists>u. turn t u) \<or> (\<exists>h. main_turn server_procs t = Inl h
        \<and> (h = Exit 1 \<or> h = UseAfterFree \<or> h = IntOverflow \<or> h = DivByZero \<and> \<not> z)))"
proof -
  have "sound z e B ms vs t" using assms by (intro sound_run [OF assms(3)]) (simp add: sound_def)
  with sound_progress [OF this] show ?thesis by (auto simp: sound_def stops_def)
qed

lemma demo_typed: "length buf \<le> BUFSIZ \<Longrightarrow> c_typed (demo_world ans buf)"
  by (auto simp: c_typed_def settings_def int_range_def INT_MIN_def INT_MAX_def demo_world_def idle_world_def
      node_typed_def link_typed_def demo_master_def demo_virtual_def demo_link_def demo_pty_def split: if_splits)

theorem daemon_run_typed_witness:
  "c_typed ((demo_world (\<lambda>_. no_reply) ''abc'')\<lparr>shutdown := True\<rparr>)
    \<and> running True 3 {3} [0] demo_virtuals ((demo_world (\<lambda>_. no_reply) ''abc'')\<lparr>shutdown := True\<rparr>)"
proof -
  let ?s = "demo_world (\<lambda>_. no_reply) ''abc''"
  have "sigHandler SIGTERM ?s = Inr ((), ?s\<lparr>shutdown := True\<rparr>)" by (simp add: sigHandler_def run_defs)
  then have "daemon_step\<^sup>*\<^sup>* ?s (?s\<lparr>shutdown := True\<rparr>)" by (intro r_into_rtranclp daemon_step.signal)
  from daemon_run_typed [OF demo_running demo_typed this] show ?thesis by simp
qed

text \<open>
  C8: what the main loop computes. \<open>aeMain\<close> returns with a state, given enough turns, exactly when single
  turns lead from the start, with the stop flag cleared, to that state and it is a stopped one (no turn
  leaves a stopped state). So what holds along every run of turns holds of what \<open>aeMain\<close> returns.
\<close>

theorem aeMain_iff_turns:
  assumes "el s = Some L"
  shows "(\<exists>fuel. aeMain server_procs fuel s = Inr ((), t)) \<longleftrightarrow>
    turn\<^sup>*\<^sup>* (s\<lparr>el := Some (L\<lparr>stop := False\<rparr>)\<rparr>) t \<and> (\<exists>M. el t = Some M \<and> stop M)"
  using aeMain_turns [OF assms] by (auto simp: loop_stopped_def)

theorem aeMain_iff_turns_witness:
  "\<forall>t. (\<exists>fuel. aeMain server_procs fuel (demo_world (\<lambda>_. no_reply) ''abc'') = Inr ((), t)) \<longleftrightarrow>
    turn\<^sup>*\<^sup>* (demo_world (\<lambda>_. no_reply) ''abc'') t \<and> (\<exists>M. el t = Some M \<and> stop M)"
proof -
  let ?s = "demo_world (\<lambda>_. no_reply) ''abc''"
  have L: "el ?s = Some demo_loop" by (simp add: demo_world_def)
  have "demo_loop\<lparr>stop := False\<rparr> = demo_loop" by (simp add: demo_loop_def)
  then have "?s\<lparr>el := Some (demo_loop\<lparr>stop := False\<rparr>)\<rparr> = ?s" by (simp add: demo_world_def)
  with aeMain_iff_turns [OF L] show ?thesis by simp
qed

text \<open>
  C25: the use of a freed link (C10) comes from descriptors reported in both directions only. As long as no
  poll reports a descriptor with data and at the same time with room, an error or a hangup (\<open>never_both\<close>),
  one turn of the loop with any flags keeps the invariant and never uses a freed link. Turns on file events
  alone, whatever arrives and whichever links fail, stop in no way at all: they return. With time events the
  periodic task may run out of memory, overflow, or divide by a rate that is not positive. The same holds of
  the main loop for any number of turns.
\<close>

theorem aeProcessEvents_safe:
  assumes "running z e B ms vs s" and "never_both s"
  shows "wp (aeProcessEvents server_procs flags) (\<lambda>_ t. running z e B ms vs t \<and> never_both t)
      (\<lambda>h. flags AND AE_TIME_EVENTS \<noteq> 0 \<and> (h = Exit 1 \<or> h = IntOverflow \<or> h = DivByZero \<and> \<not> z)) s
    \<and> wp (aeMain server_procs fuel) (\<lambda>_ t. running z e B ms vs t \<and> loop_stopped t)
      (\<lambda>h. h = Exit 1 \<or> h = IntOverflow \<or> h = DivByZero \<and> \<not> z \<or> h = OutOfFuel) s"
proof -
  have I: "smooth z e B ms vs s" using assms by (simp add: smooth_def)
  show ?thesis
    by (intro conjI wp_mono [OF wp_smooth_events [OF I]] wp_mono [OF smooth.wp_aeMain [OF I]])
      (auto simp: smooth_def cron_stops_def loop_stopped_def)
qed

theorem aeProcessEvents_safe_witness:
  "\<exists>r t. aeProcessEvents server_procs AE_FILE_EVENTS (demo_world (\<lambda>_. hangup_reply) ''abc'') = Inr (r, t)
     \<and> running True 3 {3} [0] demo_virtuals t"
proof -
  have "never_both (demo_world (\<lambda>_. hangup_reply) ''abc'')"
    by (auto simp: never_both_def demo_world_def hangup_reply_def incoming_def outgoing_def)
  with aeProcessEvents_safe [OF demo_running [of "''abc''"], of "\<lambda>_. hangup_reply" AE_FILE_EVENTS 0] show ?thesis
    by (auto simp: wp_returns)
qed

text \<open>
  C20: one run of the periodic task counts itself, stops the loop if a shutdown was requested, opens
  missing links when it is due and touches neither nodes nor links when it is not, and asks to be
  called again after \<open>1000 / hz\<close> milliseconds.
\<close>

theorem serverCron_step:
  assumes "running z e B ms vs s"
  shows "wp (serverCron i cd)
    (\<lambda>r t. running z e B ms vs t \<and> r = 1000 div hz s \<and> cronloops t = cronloops s + 1
      \<and> loop_stopped t = (loop_stopped s \<or> shutdown s) \<and> links s \<subseteq>\<^sub>m links t
      \<and> (\<not> cron_due s \<longrightarrow> links t = links s \<and> nodes t = nodes s)) (cron_stops z) s"
proof -
  have "1 \<le> hz s" using assms by (simp add: running_def options_ok_def)
  then have "c_div 1000 (hz s) = 1000 div hz s" by (simp add: c_div_def signed_divide_int_def)
  then show ?thesis by (intro wp_mono [OF wp_serverCron [OF assms]]) auto
qed

theorem serverCron_step_witness:
  "wp (serverCron 0 None) (\<lambda>r t. r = 100 \<and> cronloops t = 1 \<and> \<not> loop_stopped t) (cron_stops True)
    (demo_world (\<lambda>_. no_reply) ''abc'')"
  by (rule wp_weaken [OF serverCron_step [OF demo_running]])
    (simp_all add: demo_world_def idle_world_def loop_stopped_def demo_loop_def)

text \<open>
  C26: the macro \<open>run_with_period(ms)\<close> does what its name says. With a period longer than a turn of
  the task, of any \<open>ms / (1000 / hz)\<close> successive turns exactly one is due, and nothing divides by
  zero on the way.
\<close>

theorem run_with_period_once:
  assumes "1 \<le> hz s" "hz s \<le> 1000" and "0 \<le> cronloops s" and "1000 div hz s < ms"
  shows "\<exists>!j. 0 \<le> j \<and> j < ms div (1000 div hz s)
    \<and> run_with_period ms (s\<lparr>cronloops := cronloops s + j\<rparr>) = Inr (True, s\<lparr>cronloops := cronloops s + j\<rparr>)"
proof -
  let ?tick = "1000 div hz s"
  let ?p = "ms div ?tick"
  let ?n = "cronloops s"
  have tick: "1 \<le> ?tick" "c_div 1000 (hz s) = ?tick"
    using assms(1,2) pos_imp_zdiv_pos_iff [of "hz s" 1000] by (simp_all add: c_div_def signed_divide_int_def)
  then have p: "1 \<le> ?p" "c_div ms ?tick = ?p"
    using assms(4) pos_imp_zdiv_pos_iff [of ?tick ms] by (simp_all add: c_div_def signed_divide_int_def)
  have due: "run_with_period ms (s\<lparr>cronloops := ?n + j\<rparr>) = Inr (True, s\<lparr>cronloops := ?n + j\<rparr>)
      \<longleftrightarrow> (?n + j) mod ?p = 0" if "0 \<le> j" for j
  proof -
    have "c_mod (?n + j) ?p = (?n + j) mod ?p"
      using that assms(3) p by (cases "?n + j = 0") (simp_all add: c_mod_def signed_modulo_int_def sgn_if)
    moreover have "run_with_period ms (s\<lparr>cronloops := ?n + j\<rparr>)
        = Inr (c_mod (?n + j) ?p = 0, s\<lparr>cronloops := ?n + j\<rparr>)"
      using tick p assms(1,4) by (simp add: run_with_period_def run_defs int_div_def int_mod_def)
    ultimately show ?thesis by simp
  qed
  let ?j = "(- ?n) mod ?p"
  show ?thesis
  proof (rule ex1I [of _ ?j])
    have "(?n + ?j) mod ?p = 0" by (simp add: mod_add_right_eq)
    then show "0 \<le> ?j \<and> ?j < ?p \<and>
        run_with_period ms (s\<lparr>cronloops := ?n + ?j\<rparr>) = Inr (True, s\<lparr>cronloops := ?n + ?j\<rparr>)"
      using p due [of ?j] by simp
  next
    fix j
    assume j: "0 \<le> j \<and> j < ?p \<and> run_with_period ms (s\<lparr>cronloops := ?n + j\<rparr>) = Inr (True, s\<lparr>cronloops := ?n + j\<rparr>)"
    then have "(?n + j) mod ?p = 0" using due by blast
    then have "j mod ?p = (- ?n) mod ?p"
      by (metis add.commute add.left_neutral diff_0 diff_add_cancel mod_diff_left_eq add_diff_cancel_left')
    with j show "j = ?j" by simp
  qed
qed

theorem run_with_period_once_witness:
  "\<exists>!j. 0 \<le> j \<and> j < (50 :: int) \<and> run_with_period 5000 ((demo_world (\<lambda>_. no_reply) [])\<lparr>cronloops := 7 + j\<rparr>)
     = Inr (True, (demo_world (\<lambda>_. no_reply) [])\<lparr>cronloops := 7 + j\<rparr>)"
  using run_with_period_once [of "(demo_world (\<lambda>_. no_reply) [])\<lparr>cronloops := 7\<rparr>" 5000]
  by (simp add: demo_world_def idle_world_def)

end
