(* ===== verification/Fanout.thy ===== *)
theory Fanout
  imports Daemon
begin

text \<open>
  One turn of traffic: a link is reported readable and the links fed from it are reported writable. The
  dispatch of \<open>src/ae.c\<close> runs all read callbacks before the write callbacks, so every one of these
  links is sent the bytes that have just arrived.
\<close>

section \<open>One callback\<close>

text \<open>A watched link's callback is the event handler, and its client data is the link.\<close>

lemma watched_own_link:
  assumes wf: "daemon_ok B ms vs s" and L: "el s = Some L" and a: "links s a = Some lk"
    and b: "b \<in> {AE_READABLE, AE_WRITABLE}" and fd: "evmask L (link_fd lk) AND b \<noteq> 0"
  shows "fe_clientData (events L ! nat (link_fd lk)) = Some a
    \<and> proc_for b (events L ! nat (link_fd lk)) = Some serialEventHandler_fp"
proof -
  have ok: "links_ok B (nodes s) (ev_flags (nodes s) vs) (links s) (link_brk s) (fds s) L"
    using wf by (rule wf_loop) (use L in simp)
  obtain a' lk' where e: "fe_clientData (events L ! nat (link_fd lk)) = Some a'" "links s a' = Some lk'"
    "link_fd lk' = link_fd lk" "proc_for b (events L ! nat (link_fd lk)) = Some serialEventHandler_fp"
    using wf L fd b by (rule watched_link)
  have "a' = a"
  proof (rule ccontr)
    assume "a' \<noteq> a"
    then have "fds_of lk' \<inter> fds_of lk = {}" by (rule links_ok_fds(5) [OF ok e(2) a])
    then show False using e(3) by (auto simp: fds_of_def)
  qed
  with e show ?thesis by simp
qed

text \<open>The loop object after the mask of a fired entry was cleared.\<close>

definition served :: "aeEventLoop \<Rightarrow> nat \<Rightarrow> mask \<Rightarrow> aeEventLoop" where
  "served L j b = L\<lparr>fired := (fired L)[j := (fired L ! j)\<lparr>fired_mask := fired_mask (fired L ! j) AND NOT b\<rparr>]\<rparr>"

lemma served_same [simp]:
  "evmask (served L j b) = evmask L" "events (served L j b) = events L" "setsize (served L j b) = setsize L"
  "length (fired (served L j b)) = length (fired L)" "i \<noteq> j \<Longrightarrow> fired (served L j b) ! i = fired L ! i"
  "table_ok (served L j b) I = table_ok L I"
  by (simp_all add: served_def evmask_def table_ok_def fun_eq_iff is_highest_def)

lemma served_at:
  "j < length (fired L) \<Longrightarrow>
    fired (served L j b) ! j = (fired L ! j)\<lparr>fired_mask := fired_mask (fired L ! j) AND NOT b\<rparr>"
  by (simp add: served_def)

lemma wp_served:
  assumes wf: "daemon_ok B ms vs s" and L: "el s = Some L"
    and Q: "daemon_ok B ms vs (s\<lparr>el := Some (served L j b)\<rparr>) \<Longrightarrow> Q () (s\<lparr>el := Some (served L j b)\<rparr>)"
  shows "wp (clear_fired j b) Q E s"
  using Q daemon_ok_loop [OF wf L, of "served L j b"]
  by (simp add: clear_fired_def wp_upd_loop [OF L] served_def [symmetric])

text \<open>A step of either half of the dispatch.\<close>

lemma wp_half_step:
  assumes wf: "daemon_ok B ms vs s" and L: "el s = Some L" and j: "j < length (fired L)"
    and f: "fired L ! j = \<lparr>fired_fd = link_fd lk, fired_mask = m\<rparr>" and a: "links s a = Some lk"
    and b: "b \<in> {AE_READABLE, AE_WRITABLE}" and m: "m AND b = b" and watched: "evmask L (link_fd lk) AND b \<noteq> 0"
    and run: "wp (serialEventHandler (link_fd lk) (Some a) m) (\<lambda>_ t. daemon_ok B ms vs t \<and> el t = Some L
      \<and> (daemon_ok B ms vs (t\<lparr>el := Some (served L j b)\<rparr>) \<longrightarrow> Q () (t\<lparr>el := Some (served L j b)\<rparr>))) E s"
  shows "wp (half_step server_procs b j) Q E s"
proof -
  have tab: "table_ok L (interest s)" using wf by (rule wf_loop) (use L in simp)
  have range: "0 \<le> link_fd lk" "link_fd lk < setsize L" "fe_mask (events L ! nat (link_fd lk)) = evmask L (link_fd lk)"
    using watched by (auto simp: evmask_def split: if_splits)
  have "evmask L (link_fd lk) AND m AND b \<noteq> 0" using watched m by (simp add: and.assoc)
  moreover have "wp (serialEventHandler (link_fd lk) (Some a) m) (\<lambda>_. wp (clear_fired j b) Q E) E s"
    using run by (rule wp_weaken) (auto intro: wp_served)
  ultimately show ?thesis
    using j f range watched_own_link [OF wf L a b watched]
    by (simp add: half_step_def fired_at_def wp_get_loop [OF L] wp_event_at [OF L tab] server_procs_def)
qed

lemma wp_idle_step:
  assumes wf: "daemon_ok B ms vs s" and L: "el s = Some L" and j: "j < length (fired L)"
    and fd: "0 \<le> fired_fd (fired L ! j)" "fired_fd (fired L ! j) < setsize L" and m: "fired_mask (fired L ! j) AND b = 0"
  shows "wp (half_step server_procs b j) Q E s = Q () s"
proof -
  have tab: "table_ok L (interest s)" using wf by (rule wf_loop) (use L in simp)
  have "x AND fired_mask (fired L ! j) AND b = 0" for x using m by (simp add: and.assoc)
  with j fd show ?thesis
    by (simp add: half_step_def fired_at_def wp_get_loop [OF L] wp_event_at [OF L tab])
qed

lemma wp_writes: "wp (serialEventHandler fd (Some a) AE_WRITABLE) Q E s = wp (serialWriteHandler (Some a)) Q E s"
  by (simp add: serialEventHandler_def)

lemma wp_reads: "wp (serialEventHandler fd (Some a) AE_READABLE) Q E s = wp (serialReadHandler (Some a)) Q E s"
  by (simp add: serialEventHandler_def when_do_def wp_funs del: wp_when_do)

section \<open>The writes\<close>

text \<open>The links at \<open>vl\<close> are watched for writing and fed from the link at \<open>a\<close>.\<close>

definition fed_from :: "(nat \<Rightarrow> nat list) \<Rightarrow> nat \<Rightarrow> nat list \<Rightarrow> world \<Rightarrow> bool" where
  "fed_from vs a vl s \<longleftrightarrow> (\<forall>v\<in>set vl. \<exists>lv n. links s v = Some lv \<and> link_node lv = Some n
     \<and> source_of (nodes s) vs n = Some a \<and> evmask (the (el s)) (link_fd lv) AND AE_WRITABLE \<noteq> 0)"

definition fd_at :: "world \<Rightarrow> nat \<Rightarrow> int" where
  "fd_at s v = link_fd (the (links s v))"

text \<open>Every write takes something.\<close>

definition writable_world :: "world \<Rightarrow> bool" where
  "writable_world s \<longleftrightarrow> (\<forall>i. r_ok (answers s i) \<and> 0 < r_num (answers s i))"

lemma writable_taken:
  assumes "writable_world s" and "d \<noteq> []"
  shows "taken s d \<noteq> [] \<and> (\<exists>k>0. taken s d = take k d)"
proof -
  have "r_ok (answers s (calls s))" "0 < r_num (answers s (calls s))" using assms(1) by (simp_all add: writable_world_def)
  with assms(2) show ?thesis
    by (auto simp: taken_def Let_def intro!: exI [of _ "nat (r_num (answers s (calls s)))"])
qed

text \<open>The writes \<open>ws\<close> carry a front of \<open>d\<close> to every link of \<open>vl\<close>, in this order.\<close>

definition delivered :: "world \<Rightarrow> string \<Rightarrow> nat list \<Rightarrow> (int \<times> string) list \<Rightarrow> bool" where
  "delivered s d = list_all2 (\<lambda>v w. fst w = fd_at s v \<and> (\<exists>k>0. snd w = take k d))"

lemma wp_send:
  assumes wf: "daemon_ok B ms vs s" and fed: "fed_from vs a (v # vl) s"
    and la: "links s a = Some la" "pending la = d" "d \<noteq> []" and env: "writable_world s"
    and Q: "\<And>t k. 0 < k \<Longrightarrow> daemon_ok B ms vs t \<Longrightarrow> link_frame [(fd_at s v, take k d)] s t \<Longrightarrow> links t = links s \<Longrightarrow>
      nodes t = nodes s \<Longrightarrow> el t = el s \<Longrightarrow> Q () t"
  shows "wp (serialWriteHandler (Some v)) Q E s"
proof -
  obtain lv n where v: "links s v = Some lv" "link_node lv = Some n" "source_of (nodes s) vs n = Some a"
    using fed by (auto simp: fed_from_def)
  obtain k where k: "taken s d \<noteq> []" "0 < k" "taken s d = take k d" using writable_taken [OF env la(3)] by blast
  have "wp (serialWriteLink (Some a) (Some v)) Q E s"
    by (rule wp_serialWriteLink [OF wf v(1), where lk = la])
      (use la k v(1) Q [of k] in \<open>auto simp: fd_at_def\<close>)
  then show ?thesis
    using wp_serialWriteHandler [OF wf v(1,2), of Q E] v(3) by simp
qed

lemma wp_write_phase:
  assumes "daemon_ok B ms vs s" and "el s = Some L" and "fed_from vs a vl s" and "links s a = Some la"
    and "writable_world s" and "\<forall>i<length vl. fired L ! (j + i) = \<lparr>fired_fd = fd_at s (vl ! i), fired_mask = AE_WRITABLE\<rparr>"
    and "j + length vl \<le> length (fired L)" and d: "pending la = d" "d \<noteq> []"
  shows "wp (for_each [j..<j + length vl] (half_step server_procs AE_WRITABLE))
    (\<lambda>_ t. daemon_ok B ms vs t \<and> links t = links s
       \<and> (\<exists>ws. delivered s d vl ws \<and> wrote (trace t) = wrote (trace s) @ ws)) E s"
  using assms(1-7)
proof (induction vl arbitrary: j s L)
  case Nil
  then show ?case by (simp add: delivered_def)
next
  case (Cons v vl)
  let ?Q = "\<lambda>_ t. daemon_ok B ms vs t \<and> links t = links s
       \<and> (\<exists>ws. delivered s d (v # vl) ws \<and> wrote (trace t) = wrote (trace s) @ ws)"
  let ?L = "served L j AE_WRITABLE"
  obtain lv where v: "links s v = Some lv" "evmask L (link_fd lv) AND AE_WRITABLE \<noteq> 0"
    using Cons.prems(2,3) by (auto simp: fed_from_def)
  have j: "fired L ! j = \<lparr>fired_fd = link_fd lv, fired_mask = AE_WRITABLE\<rparr>" "j < length (fired L)"
    using Cons.prems(6) [rule_format, of 0] Cons.prems(7) v(1) by (simp_all add: fd_at_def)
  have "wp (for_each [Suc j..<Suc j + length vl] (half_step server_procs AE_WRITABLE)) ?Q E (t\<lparr>el := Some ?L\<rparr>)"
    if t: "daemon_ok B ms vs (t\<lparr>el := Some ?L\<rparr>)" "link_frame [(fd_at s v, take k d)] s t" "links t = links s"
      "nodes t = nodes s" and k: "0 < k" for t k
  proof -
    let ?t = "t\<lparr>el := Some ?L\<rparr>"
    have fd: "fd_at ?t = fd_at s" using t(3) by (simp add: fd_at_def fun_eq_iff)
    have "fed_from vs a vl ?t" using Cons.prems(2,3) t(3,4) by (auto simp: fed_from_def)
    moreover have "\<forall>i<length vl. fired ?L ! (Suc j + i) = \<lparr>fired_fd = fd_at ?t (vl ! i), fired_mask = AE_WRITABLE\<rparr>"
    proof (intro allI impI)
      fix i assume "i < length vl"
      then show "fired ?L ! (Suc j + i) = \<lparr>fired_fd = fd_at ?t (vl ! i), fired_mask = AE_WRITABLE\<rparr>"
        using Cons.prems(6) [rule_format, of "Suc i"] unfolding fd by simp
    qed
    moreover have "writable_world ?t" using Cons.prems(5) link_frame_world(19) [OF t(2)] by (simp add: writable_world_def)
    ultimately have "wp (for_each [Suc j..<Suc j + length vl] (half_step server_procs AE_WRITABLE))
      (\<lambda>_ u. daemon_ok B ms vs u \<and> links u = links ?t
         \<and> (\<exists>ws. delivered ?t d vl ws \<and> wrote (trace u) = wrote (trace ?t) @ ws)) E ?t"
      using t(1,3) Cons.prems(4,7) by (intro Cons.IH [where L = ?L]) simp_all
    moreover have "delivered s d (v # vl) ((fd_at s v, take k d) # ws)" if "delivered ?t d vl ws" for ws
      using that k unfolding delivered_def fd by auto
    ultimately show ?thesis
      using t(3) link_frame_world(18) [OF t(2)] by (elim wp_weaken) fastforce
  qed
  then have "wp (serialEventHandler (link_fd lv) (Some v) AE_WRITABLE) (\<lambda>_ t. daemon_ok B ms vs t \<and> el t = Some L
      \<and> (daemon_ok B ms vs (t\<lparr>el := Some ?L\<rparr>) \<longrightarrow>
          wp (for_each [Suc j..<Suc j + length vl] (half_step server_procs AE_WRITABLE)) ?Q E (t\<lparr>el := Some ?L\<rparr>))) E s"
    using Cons.prems(2) unfolding wp_writes by (intro wp_send [OF Cons.prems(1,3,4) d Cons.prems(5)]) auto
  then have "wp (half_step server_procs AE_WRITABLE j) (\<lambda>_. wp (for_each [Suc j..<Suc j + length vl]
      (half_step server_procs AE_WRITABLE)) ?Q E) E s"
    by (intro wp_half_step [OF Cons.prems(1,2) j(2,1) v(1) _ _ v(2)]) simp_all
  moreover have "[j..<j + length (v # vl)] = j # [Suc j..<Suc j + length vl]" by (simp add: upt_conv_Cons del: upt_Suc)
  ultimately show ?case by simp
qed

section \<open>The dispatch\<close>

lemma wp_dispatch_routes:
  assumes wf: "daemon_ok B ms vs s" and L: "el s = Some L" and a: "links s a = Some lk"
    and watched: "evmask L (link_fd lk) AND AE_READABLE \<noteq> 0" and fed: "fed_from vs a vl s"
    and data: "arrived s \<noteq> []" and env: "writable_world s"
    and fired: "take (Suc (length vl)) (fired L) = \<lparr>fired_fd = link_fd lk, fired_mask = AE_READABLE\<rparr>
      # map (\<lambda>v. \<lparr>fired_fd = fd_at s v, fired_mask = AE_WRITABLE\<rparr>) vl"
  shows "wp (dispatch server_procs (Suc (length vl)))
    (\<lambda>_ t. daemon_ok B ms vs t \<and> links t = (links s)(a \<mapsto> received lk (arrived s))
       \<and> (\<exists>ws. delivered s (arrived s) vl ws \<and> wrote (trace t) = wrote (trace s) @ ws)) E s"
    (is "wp _ ?Q _ _")
proof -
  let ?K = "(links s)(a \<mapsto> received lk (arrived s))"
  let ?L = "served L 0 AE_READABLE"
  let ?step = "half_step server_procs"
  have len: "Suc (length vl) \<le> length (fired L)" using arg_cong [OF fired, of length] by simp
  have entry: "fired L ! i = (\<lparr>fired_fd = link_fd lk, fired_mask = AE_READABLE\<rparr>
      # map (\<lambda>v. \<lparr>fired_fd = fd_at s v, fired_mask = AE_WRITABLE\<rparr>) vl) ! i" if "i \<le> length vl" for i
    using that arg_cong [OF fired, of "\<lambda>l. l ! i"] by simp
  have first: "fired L ! 0 = \<lparr>fired_fd = link_fd lk, fired_mask = AE_READABLE\<rparr>" using entry [of 0] by simp
  have other: "fired L ! Suc i = \<lparr>fired_fd = fd_at s (vl ! i), fired_mask = AE_WRITABLE\<rparr>" if "i < length vl" for i
    using that entry [of "Suc i"] by simp
  have range: "0 \<le> fd \<and> fd < setsize L" if "evmask L fd AND b \<noteq> 0" for fd b
    using that by (auto simp: evmask_def split: if_splits)
  have late: "wp (for_each [1..<Suc (length vl)] (?step AE_READABLE))
      (\<lambda>_. wp (for_each [0..<Suc (length vl)] (?step AE_WRITABLE)) ?Q E) E (t\<lparr>el := Some ?L\<rparr>)"
    if t: "quiet (s\<lparr>links := ?K\<rparr>) t" "daemon_ok B ms vs (t\<lparr>el := Some ?L\<rparr>)" for t
  proof -
    let ?t = "t\<lparr>el := Some ?L\<rparr>"
    note same = quiet_world [OF t(1)] quiet_ae [OF t(1)]
    have K: "links ?t = ?K" using same by simp
    have fd: "fd_at ?t = fd_at s" using K a by (simp add: fd_at_def fun_eq_iff)
    have fed': "fed_from vs a vl ?t"
      using fed L a same unfolding fed_from_def by (fastforce split: if_splits)
    have idle: "wp (?step AE_READABLE i) (\<lambda>_ u. u = ?t) E ?t" if i: "1 \<le> i" "i < Suc (length vl)" for i
    proof -
      obtain i' where i': "i = Suc i'" "i' < length vl" using i by (cases i) auto
      then have "vl ! i' \<in> set vl" by simp
      then obtain lv where "links s (vl ! i') = Some lv" "evmask L (link_fd lv) AND AE_WRITABLE \<noteq> 0"
        using fed L unfolding fed_from_def by fastforce
      then show ?thesis
        using other [OF i'(2)] i' len range
        by (subst wp_idle_step [OF t(2), of ?L]) (simp_all add: fd_at_def)
    qed
    have "wp (for_each [1..<Suc (length vl)] (?step AE_WRITABLE))
        (\<lambda>_ u. daemon_ok B ms vs u \<and> links u = links ?t
          \<and> (\<exists>ws. delivered ?t (arrived s) vl ws \<and> wrote (trace u) = wrote (trace ?t) @ ws)) E ?t"
      using wp_write_phase [OF t(2), of ?L a vl "received lk (arrived s)" 1 "arrived s" E] fed' K other len data env same fd
      by (simp add: writable_world_def)
    then have "wp (for_each [1..<Suc (length vl)] (?step AE_WRITABLE)) ?Q E ?t"
      by (rule wp_weaken) (use K fd same in \<open>auto simp: delivered_def\<close>)
    moreover have "fired L \<noteq> []" using len by auto
    then have "wp (?step AE_WRITABLE 0) Q E ?t = Q () ?t" for Q :: "unit \<Rightarrow> world \<Rightarrow> bool"
      using first len range [OF watched] served_at [of 0 L AE_READABLE]
      by (intro wp_idle_step [OF t(2), of ?L]) simp_all
    ultimately have "wp (for_each [0..<Suc (length vl)] (?step AE_WRITABLE)) ?Q E ?t"
      by (simp add: upt_conv_Cons del: upt_Suc)
    moreover have "wp (for_each [1..<Suc (length vl)] (?step AE_READABLE)) (\<lambda>_ u. u = ?t) E ?t"
      by (rule wp_for_each) (use idle in auto)
    ultimately show ?thesis by (elim wp_weaken) simp
  qed
  have "wp (serialReadHandler (Some a)) (\<lambda>_ t. daemon_ok B ms vs t \<and> el t = Some L
      \<and> (daemon_ok B ms vs (t\<lparr>el := Some ?L\<rparr>) \<longrightarrow> wp (for_each [1..<Suc (length vl)] (?step AE_READABLE))
        (\<lambda>_. wp (for_each [0..<Suc (length vl)] (?step AE_WRITABLE)) ?Q E) E (t\<lparr>el := Some ?L\<rparr>))) E s"
    by (rule wp_serialReadHandler [OF wf a]) (use data late L in \<open>auto simp: quiet_ae\<close>)
  then have "wp (?step AE_READABLE 0) (\<lambda>_. wp (for_each [1..<Suc (length vl)] (?step AE_READABLE))
        (\<lambda>_. wp (for_each [0..<Suc (length vl)] (?step AE_WRITABLE)) ?Q E) E) E s"
    using len by (intro wp_half_step [OF wf L _ first a _ _ watched]) (auto simp: wp_reads simp del: upt_Suc)
  then show ?thesis
    by (simp add: dispatch_def half_steps upt_conv_Cons [of 0] del: upt_Suc)
qed

text \<open>
  When both directions are reported for one link, its read callback is the same handler with both bits,
  which writes too; then its write callback writes the same bytes again.
\<close>

lemma wp_dispatch_twice:
  assumes wf: "daemon_ok B ms vs s" and L: "el s = Some L" and a: "links s a = Some lk"
    and watched: "evmask L (link_fd lk) AND AE_READABLE \<noteq> 0" and fed: "fed_from vs b [a] s"
    and lb: "links s b = Some lb" "b \<noteq> a" "pending lb \<noteq> []"
    and data: "arrived s \<noteq> []" and env: "writable_world s"
    and fired: "fired L \<noteq> []" "hd (fired L) = \<lparr>fired_fd = link_fd lk, fired_mask = AE_READABLE OR AE_WRITABLE\<rparr>"
  shows "wp (dispatch server_procs 1)
    (\<lambda>_ t. \<exists>i k. 0 < i \<and> 0 < k \<and> wrote (trace t) = wrote (trace s)
       @ [(link_fd lk, take i (pending lb)), (link_fd lk, take k (pending lb))]) E s"
    (is "wp _ ?Q _ _")
proof -
  let ?K = "(links s)(a \<mapsto> received lk (arrived s))"
  let ?L = "served L 0 AE_READABLE"
  let ?step = "half_step server_procs"
  have first: "fired L ! 0 = \<lparr>fired_fd = link_fd lk, fired_mask = AE_READABLE OR AE_WRITABLE\<rparr>" "0 < length (fired L)"
    using fired by (simp_all add: hd_conv_nth)
  have watched': "evmask ?L (link_fd lk) AND AE_WRITABLE \<noteq> 0" using fed L a by (auto simp: fed_from_def)
  have again: "wp (?step AE_WRITABLE 0) ?Q E (u\<lparr>el := Some ?L\<rparr>)"
    if u: "daemon_ok B ms vs (u\<lparr>el := Some ?L\<rparr>)" "wrote (trace u) = wrote (trace s) @ [(link_fd lk, take i (pending lb))]"
      "0 < i" "links u = ?K" "nodes u = nodes s" "answers u = answers s" for u i
  proof -
    let ?u = "u\<lparr>el := Some ?L\<rparr>"
    have "fed_from vs b [a] ?u" using fed L a u(4,5) by (auto simp: fed_from_def)
    moreover have "writable_world ?u" using env u(6) by (simp add: writable_world_def)
    ultimately have "wp (serialEventHandler (link_fd lk) (Some a) AE_WRITABLE) (\<lambda>_ t. daemon_ok B ms vs t \<and> el t = Some ?L
      \<and> (daemon_ok B ms vs (t\<lparr>el := Some (served ?L 0 AE_WRITABLE)\<rparr>) \<longrightarrow> ?Q () (t\<lparr>el := Some (served ?L 0 AE_WRITABLE)\<rparr>))) E ?u"
      unfolding wp_writes using lb u(2,3,4)
      by (intro wp_send [OF u(1), where a = b and la = lb and vl = "[]" and d = "pending lb"])
        (auto simp: fd_at_def dest!: link_frame_world(18), blast)
    then show ?thesis
      using watched' first u(4) served_at [of 0 L AE_READABLE]
      by (intro wp_half_step [OF u(1), where L = ?L and a = a and lk = "received lk (arrived s)"]) simp_all
  qed
  have send: "wp (serialWriteHandler (Some a)) (\<lambda>_ u. daemon_ok B ms vs u \<and> el u = Some L
      \<and> (daemon_ok B ms vs (u\<lparr>el := Some ?L\<rparr>) \<longrightarrow> wp (?step AE_WRITABLE 0) ?Q E (u\<lparr>el := Some ?L\<rparr>))) E t"
    if t: "quiet (s\<lparr>links := ?K\<rparr>) t" "daemon_ok B ms vs t" for t
  proof -
    note same = quiet_world [OF t(1)] quiet_ae [OF t(1)]
    show ?thesis
    proof (rule wp_send [OF t(2), where a = b and la = lb and vl = "[]"])
      show "fed_from vs b [a] t" using fed L a same by (auto simp: fed_from_def)
      show "writable_world t" using env same by (simp add: writable_world_def)
      show "links t b = Some lb" using lb(1,2) same by simp
    next
      fix u k
      assume u: "(0::nat) < k" "daemon_ok B ms vs u" "link_frame [(fd_at t a, take k (pending lb))] t u"
        "links u = links t" "nodes u = nodes t" "el u = el t"
      have "fd_at t a = link_fd lk" using same by (simp add: fd_at_def)
      then show "daemon_ok B ms vs u \<and> el u = Some L
        \<and> (daemon_ok B ms vs (u\<lparr>el := Some ?L\<rparr>) \<longrightarrow> wp (?step AE_WRITABLE 0) ?Q E (u\<lparr>el := Some ?L\<rparr>))"
        using again [of u k] u link_frame_world(18,19) [OF u(3)] L same by simp
    qed (use lb(3) in simp_all)
  qed
  have "wp (serialReadHandler (Some a)) (\<lambda>_ t. wp (serialWriteHandler (Some a)) (\<lambda>_ u. daemon_ok B ms vs u \<and> el u = Some L
      \<and> (daemon_ok B ms vs (u\<lparr>el := Some ?L\<rparr>) \<longrightarrow> wp (?step AE_WRITABLE 0) ?Q E (u\<lparr>el := Some ?L\<rparr>))) E t) E s"
    by (rule wp_serialReadHandler [OF wf a]) (use data send in auto)
  then have "wp (?step AE_READABLE 0) (\<lambda>_. wp (?step AE_WRITABLE 0) ?Q E) E s"
    by (intro wp_half_step [OF wf L first(2,1) a _ _ watched]) (simp_all add: serialEventHandler_def when_do_def wp_funs del: wp_when_do)
  then show ?thesis by (simp add: dispatch_def half_steps wp_funs)
qed

end
