(* ===== verification/TrafficProps.thy ===== *)
theory TrafficProps
  imports Fanout Demo
begin

text \<open>
  What is claimed of one turn of traffic, through the dispatch of \<open>src/ae.c\<close> and the handlers of
  \<open>src/serial.c\<close> together.
\<close>

text \<open>
  C7: sharing a device. The poll reported a link with new bytes readable and, after it, the links at
  \<open>vl\<close> writable, each of which is fed from that link: the virtual nodes of a device, or the device of a
  writer. Then one dispatch sends every one of them, in the order reported and in one write each, the
  front of the bytes that have just arrived, and nothing else; no link is closed, and the new bytes are
  the only change to a buffer. (The environment is one where every write takes at least one byte.)
\<close>

theorem dispatch_shares:
  assumes "daemon_ok B ms vs s" and "el s = Some L" and "links s a = Some lk"
    and "evmask L (link_fd lk) AND AE_READABLE \<noteq> 0" and "fed_from vs a vl s"
    and "arrived s \<noteq> []" and "writable_world s"
    and "take (Suc (length vl)) (fired L) = \<lparr>fired_fd = link_fd lk, fired_mask = AE_READABLE\<rparr>
      # map (\<lambda>v. \<lparr>fired_fd = fd_at s v, fired_mask = AE_WRITABLE\<rparr>) vl"
  shows "wp (dispatch server_procs (Suc (length vl)))
    (\<lambda>_ t. daemon_ok B ms vs t \<and> links t = (links s)(a \<mapsto> received lk (arrived s))
       \<and> (\<exists>ws. delivered s (arrived s) vl ws \<and> wrote (trace t) = wrote (trace s) @ ws)) (\<lambda>_. False) s"
  by (rule wp_dispatch_routes [OF assms])

definition polled :: "aeFiredEvent list" where
  "polled = \<lparr>fired_fd = 4, fired_mask = AE_READABLE\<rparr> # \<lparr>fired_fd = 5, fired_mask = AE_WRITABLE\<rparr>
     # replicate 6 \<lparr>fired_fd = 0, fired_mask = 0\<rparr>"

lemma polled_ok:
  assumes "length buf \<le> BUFSIZ"
  shows "daemon_ok {3} [0] demo_virtuals (polled_world ans buf polled)"
proof -
  have "evmask (demo_loop\<lparr>fired := polled\<rparr>) = evmask demo_loop" by (simp add: evmask_def fun_eq_iff)
  moreover have "length polled = length (fired demo_loop)" by (simp add: polled_def demo_loop_def)
  ultimately show ?thesis
    unfolding polled_world_def
    by (intro daemon_ok_loop [where L = demo_loop, OF demo_ok [OF assms]])
      (simp_all add: table_ok_def is_highest_def, simp add: demo_world_def)
qed

theorem dispatch_shares_witness:
  "wp (dispatch server_procs 2) (\<lambda>_ t. \<exists>k>0. wrote (trace t) = [(5, take k ''hello'')]) (\<lambda>_. False)
    (polled_world (\<lambda>_. no_reply\<lparr>r_ok := True, r_data := ''hello'', r_num := 3\<rparr>) ''old'' polled)"
  (is "wp _ _ _ ?s")
proof -
  have eq: "Suc (length [1 :: nat]) = 2" by simp
  have state: "el ?s = Some (demo_loop\<lparr>fired := polled\<rparr>)" "links ?s = [0 \<mapsto> demo_link ''old'', 1 \<mapsto> demo_pty]"
    "arrived ?s = ''hello''" "wrote (trace ?s) = []" "writable_world ?s" "fd_at ?s 1 = 5"
    by (simp_all add: polled_world_def demo_world_def idle_world_def arrived_def writable_world_def fd_at_def demo_pty_def)
  have mask: "evmask (demo_loop\<lparr>fired := polled\<rparr>) = evmask demo_loop" by (simp add: evmask_def fun_eq_iff)
  have "source_of (nodes ?s) demo_virtuals 1 = Some 0"
    by (simp add: polled_world_def source_of_def demo_world_def demo_virtual_def demo_master_def nodeIsVirtual_def)
  then have fed: "fed_from demo_virtuals 0 [1] ?s"
    using state(1,2) mask by (simp add: fed_from_def demo_evmask) (simp add: demo_pty_def)
  have first: "link_fd (demo_link ''old'') = 4" by (simp add: demo_link_def)
  have two: "take (Suc (Suc 0)) polled = [\<lparr>fired_fd = 4, fired_mask = AE_READABLE\<rparr>, \<lparr>fired_fd = 5, fired_mask = AE_WRITABLE\<rparr>]"
    by (simp add: polled_def)
  have "wp (dispatch server_procs (Suc (length [1 :: nat])))
    (\<lambda>_ t. daemon_ok {3} [0] demo_virtuals t \<and> links t = (links ?s)(0 \<mapsto> received (demo_link ''old'') (arrived ?s))
       \<and> (\<exists>ws. delivered ?s (arrived ?s) [1] ws \<and> wrote (trace t) = wrote (trace ?s) @ ws)) (\<lambda>_. False) ?s"
    by (rule dispatch_shares [OF polled_ok state(1) _ _ fed _ state(5)])
      (simp_all add: state mask demo_evmask first two del: One_nat_def)
  then show ?thesis
    unfolding eq by (rule wp_weaken) (auto simp: state state(6) [unfolded One_nat_def] delivered_def list_all2_Cons1 prod_eq_iff)
qed

text \<open>
  C38: bytes are sent twice. When the poll reports both directions for one link, the dispatch hands its
  read callback both bits; the callback is the handler of both directions and writes what waits at the
  link's source, and then the write callback writes the same bytes again. So in every such state of the
  running daemon the descriptor gets two writes of the front of the same buffer in one dispatch.
\<close>

theorem dispatch_writes_twice:
  assumes "daemon_ok B ms vs s" and "el s = Some L" and "links s a = Some lk"
    and "evmask L (link_fd lk) AND AE_READABLE \<noteq> 0" and "fed_from vs b [a] s"
    and "links s b = Some lb" and "b \<noteq> a" and "pending lb \<noteq> []"
    and "arrived s \<noteq> []" and "writable_world s"
    and "fired L \<noteq> []" and "hd (fired L) = \<lparr>fired_fd = link_fd lk, fired_mask = AE_READABLE OR AE_WRITABLE\<rparr>"
  shows "wp (dispatch server_procs 1)
    (\<lambda>_ t. \<exists>i k. 0 < i \<and> 0 < k \<and> wrote (trace t) = wrote (trace s)
       @ [(link_fd lk, take i (pending lb)), (link_fd lk, take k (pending lb))]) (\<lambda>_. False) s"
  by (rule wp_dispatch_twice [OF assms])

definition both_ways :: "aeFiredEvent list" where
  "both_ways = \<lparr>fired_fd = 5, fired_mask = AE_READABLE OR AE_WRITABLE\<rparr> # replicate 7 \<lparr>fired_fd = 0, fired_mask = 0\<rparr>"

theorem dispatch_writes_twice_witness:
  "wp (dispatch server_procs 1)
    (\<lambda>_ t. \<exists>i k. 0 < i \<and> 0 < k \<and> wrote (trace t) = [(5, take i ''abc''), (5, take k ''abc'')]) (\<lambda>_. False)
    (duplex_world (\<lambda>_. no_reply\<lparr>r_ok := True, r_data := ''x'', r_num := 3\<rparr>) ''abc'' both_ways)"
  (is "wp _ _ _ ?s")
proof -
  have state: "el ?s = Some (duplex_loop both_ways)" "links ?s = [0 \<mapsto> demo_link ''abc'', 1 \<mapsto> demo_pty]"
    "arrived ?s = ''x''" "wrote (trace ?s) = []" "writable_world ?s" "link_fd demo_pty = 5"
    "pending (demo_link ''abc'') = ''abc''"
    by (simp_all add: duplex_world_def demo_world_def idle_world_def arrived_def writable_world_def demo_pty_def
        pending_def demo_link_def)
  have "source_of (nodes ?s) demo_virtuals 1 = Some 0"
    by (simp add: duplex_world_def source_of_def demo_writer_def demo_virtual_def demo_master_def nodeIsVirtual_def)
  then have fed: "fed_from demo_virtuals 0 [1] ?s"
    using state(1,2,6) by (simp add: fed_from_def duplex_evmask) (simp add: demo_pty_def)
  have "wp (dispatch server_procs 1)
    (\<lambda>_ t. \<exists>i k. 0 < i \<and> 0 < k \<and> wrote (trace t) = wrote (trace ?s)
       @ [(link_fd demo_pty, take i (pending (demo_link ''abc''))), (link_fd demo_pty, take k (pending (demo_link ''abc'')))])
    (\<lambda>_. False) ?s"
    by (rule dispatch_writes_twice [OF duplex_ok state(1) _ _ fed _ _ _ _ state(5)])
      (simp_all add: state duplex_evmask, simp_all add: both_ways_def duplex_loop_def)
  then show ?thesis by (simp add: state)
qed

end
