(* ===== verification/Startup.thy ===== *)
theory Startup
  imports Daemon Shutdown OptionSpec
begin

text \<open>
  The life of the process (\<open>main\<close> of \<open>src/server.c\<close>): from a fresh process to the running daemon, and
  from the stopped loop to the end.
\<close>

section \<open>Before the first timer\<close>

text \<open>What the loader gives \<open>main\<close>: zeroed globals, and nothing watched.\<close>

definition fresh :: "world \<Rightarrow> bool" where
  "fresh s \<longleftrightarrow> distinct (fds s) \<and> interest s = (\<lambda>_. None) \<and> nodes s = (\<lambda>_. None) \<and> links s = (\<lambda>_. None)
     \<and> tevs s = (\<lambda>_. None)"

definition idle_loop :: "aeEventLoop \<Rightarrow> bool" where
  "idle_loop L \<longleftrightarrow> table_ok L (\<lambda>_. None) \<and> evmask L = (\<lambda>_. AE_NONE) \<and> timeEventHead L = None
     \<and> beforesleep L = None \<and> timeEventNextId L = 0"

text \<open>The descriptors: those of the loader \<open>F\<close>, the loop's own, and what daemonizing left open.\<close>

definition base_fds :: "bool \<Rightarrow> int set \<Rightarrow> int \<Rightarrow> int set \<Rightarrow> bool" where
  "base_fds d F e B \<longleftrightarrow> F \<subseteq> B \<and> e \<in> B \<and> e \<notin> F \<and> (\<not> d \<longrightarrow> B = insert e F)"

definition cold :: "bool \<Rightarrow> int set \<Rightarrow> world \<Rightarrow> bool" where
  "cold d F s \<longleftrightarrow> fresh s \<and> options_ok s \<and> F \<subseteq> set (fds s)
     \<and> (\<forall>L. el s = Some L \<longrightarrow> idle_loop L \<and> base_fds d F (epfd L) (set (fds s)))"

lemma fresh_quiet: "quiet s t \<Longrightarrow> fresh t = fresh s"
  by (simp add: fresh_def quiet_world)

lemma cold_quiet: "cold d F s \<Longrightarrow> quiet s t \<Longrightarrow> cold d F t"
  by (simp add: cold_def fresh_def options_ok_def quiet_world)

lemma cold_fd_ok: "cold d F s \<Longrightarrow> fd_ok s"
  by (simp add: cold_def fresh_def fd_ok_def)

lemma after_quiet:
  assumes "quiet s t" and "wp m (\<lambda>_ u. quiet t u) (\<lambda>_. False) t" and "\<And>x u. quiet s u \<Longrightarrow> Q x u"
  shows "wp m Q E t"
  by (rule quiet_wp [OF assms(2)]) (use assms(1,3) quiet_trans in blast)

lemma wp_aeCreateEventLoop:
  assumes "0 \<le> sz" and "\<And>t. quiet s t \<Longrightarrow> Q None t"
    and "\<And>t L. same_env s t \<Longrightarrow> fds t = epfd L # fds s \<Longrightarrow> epfd L \<notin> set (fds s) \<Longrightarrow>
      interest t = (\<lambda>_. None) \<Longrightarrow> idle_loop L \<Longrightarrow> Q (Some L) t"
  shows "wp (aeCreateEventLoop sz) Q E s"
proof -
  let ?L = "\<lambda>now ep. \<lparr>maxfd = -1, setsize = sz, timeEventNextId = 0, lastTime = now,
      events = replicate (nat sz) blank_event, fired = replicate (nat sz) \<lparr>fired_fd = 0, fired_mask = 0\<rparr>,
      timeEventHead = None, stop = False, epfd = ep, beforesleep = None\<rparr>"
  have blank: "evmask (?L now ep) = (\<lambda>_. AE_NONE)" for now ep
    by (auto simp: evmask_def blank_event_def fun_eq_iff)
  then have idle: "idle_loop (?L now ep)" for now ep
    using assms(1) by (simp add: idle_loop_def table_ok_def is_highest_def watch_def)
  have epoll: "wp sys_epoll_create (\<lambda>fd. if fd = -1 then Q None else Q (Some (?L now fd))) E t"
    if t: "quiet s t" for now t
  proof -
    let ?fd = "lowest_fd (fds s)"
    let ?u = "t\<lparr>calls := Suc (calls t), fds := ?fd # fds s, interest := \<lambda>_. None\<rparr>"
    have "same_env s ?u" using t by (simp add: frame_defs)
    then have "Q (Some (?L now ?fd)) ?u"
      by (rule assms(3) [OF _ _ _ _ idle]) (use lowest_fd_fresh [of "fds s"] in simp_all)
    moreover have "quiet s (t\<lparr>calls := Suc (calls t), errno := x\<rparr>)" for x using t by (simp add: frame_defs)
    ultimately show ?thesis
      using assms(2) lowest_fd_fresh [of "fds s"] quiet_kernel [OF t]
      by (simp add: sys_epoll_create_def wp_kernel)
  qed
  let ?fin = "\<lambda>now api. case api of None \<Rightarrow> ret None | Some ep \<Rightarrow> ret (Some (?L now ep))"
  let ?ep = "bnd sys_epoll_create (\<lambda>fd. if fd = -1 then ret None else ret (Some fd))"
  have fin: "wp (if \<not> k then ret None else ?ep) (\<lambda>api. wp (?fin now api) Q E) E t" if t: "quiet s t" for k now t
  proof -
    have "wp sys_epoll_create (\<lambda>fd. wp (if fd = -1 then ret None else ret (Some fd)) (\<lambda>api. wp (?fin now api) Q E) E) E t"
      by (rule wp_weaken [OF epoll [OF t, of now]]) (auto split: if_splits)
    then show ?thesis using assms(2) [OF t] by simp
  qed
  have "wp (if \<not> m then ret None else bnd sys_malloc (\<lambda>k. if \<not> k then ret None else ?ep))
      (\<lambda>api. wp (?fin now api) Q E) E t" if t: "quiet s t" for m now t
    using assms(2) [OF t] after_quiet [OF t quiet_malloc fin] by simp
  then have "wp aeApiCreate (\<lambda>api. wp (?fin now api) Q E) E t" if t: "quiet s t" for now t
    unfolding aeApiCreate_def wp_bnd [of sys_malloc] by (rule after_quiet [OF t quiet_malloc])
  then have "wp (if \<not> m1 \<or> \<not> m2 then ret None
      else bnd sys_time (\<lambda>now. bnd aeApiCreate (?fin now))) Q E t" if t: "quiet s t" for m1 m2 t
    using assms(2) [OF t] after_quiet [OF t quiet_time] by simp
  then have "wp (bnd sys_malloc (\<lambda>m2. if \<not> m1 \<or> \<not> m2 then ret None
      else bnd sys_time (\<lambda>now. bnd aeApiCreate (?fin now)))) Q E t" if t: "quiet s t" for m1 t
    unfolding wp_bnd [of sys_malloc] by (rule after_quiet [OF t quiet_malloc])
  then have "wp (if \<not> m0 then ret None else bnd sys_malloc (\<lambda>m1. bnd sys_malloc (\<lambda>m2.
      if \<not> m1 \<or> \<not> m2 then ret None else bnd sys_time (\<lambda>now. bnd aeApiCreate (?fin now))))) Q E t"
    if t: "quiet s t" for m0 t
    using assms(2) [OF t] after_quiet [OF t quiet_malloc] by simp
  then show ?thesis
    unfolding aeCreateEventLoop_def wp_bnd [of sys_malloc] by (rule after_quiet [OF quiet_refl quiet_malloc])
qed

lemma wp_serverInitConfig:
  assumes s: "fresh s" and E: "E (Exit 1)"
    and Q: "\<And>t. cold False (set (fds s)) t \<Longrightarrow> answers t = answers s \<Longrightarrow> logfile t = None \<Longrightarrow> daemonize t = False \<Longrightarrow>
      configfile t = None \<Longrightarrow> serial_configfile t = Some ''serial.ini'' \<Longrightarrow> Q () t"
  shows "wp serverInitConfig Q E s"
proof -
  let ?reset = "\<lambda>p s. s\<lparr>pid := p, logfile := None, configfile := None, pidfile := None, shutdown := False,
      cronloops := 0, daemonize := False, verbosity := LL_ERROR, syslog := 0, maxclients := 1000,
      cron_event_id := AE_ERR, hz := 10, reconnect_interval := 5000\<rparr>"
  let ?last = "bnd sys_malloc (\<lambda>ok. if ok then modify (\<lambda>s. s\<lparr>serial_configfile := Some ''serial.ini''\<rparr>)
      else exit_saying 2 ''strdup failed'' 1)"
  have last: "wp ?last Q E t"
    if t: "cold False (set (fds s)) t" "answers t = answers s" "logfile t = None" "daemonize t = False" "configfile t = None" for t
  proof -
    have "Q () (u\<lparr>serial_configfile := Some ''serial.ini''\<rparr>)" if u: "quiet t u" for u
    proof (rule Q)
      show "cold False (set (fds s)) (u\<lparr>serial_configfile := Some ''serial.ini''\<rparr>)"
        using cold_quiet [OF t(1) u] by (simp add: cold_def fresh_def options_ok_def)
      show "configfile (u\<lparr>serial_configfile := Some ''serial.ini''\<rparr>) = None"
        using u t(5) by (cases t; cases u) (simp add: frame_defs)
    qed (use t u in \<open>simp_all add: quiet_world\<close>)
    with E show ?thesis unfolding wp_bnd [of sys_malloc] by (auto intro!: quiet_wp [OF quiet_malloc])
  qed
  have create: "wp (aeCreateEventLoop 1000) (\<lambda>l. wp (thn (modify (\<lambda>s. s\<lparr>el := l\<rparr>)) ?last) Q E) E (?reset p t)"
    if t: "quiet s t" for p t
  proof (rule wp_aeCreateEventLoop)
    note same = quiet_world [OF t]
    have base: "fresh (?reset p t)" "options_ok (?reset p t)"
      using s t by (simp_all add: fresh_def options_ok_def quiet_world)
    show "wp (thn (modify (\<lambda>s. s\<lparr>el := None\<rparr>)) ?last) Q E u" if u: "quiet (?reset p t) u" for u
    proof -
      have "cold False (set (fds s)) (u\<lparr>el := None\<rparr>)"
        using base u same by (simp add: cold_def fresh_def options_ok_def quiet_world)
      then have "wp ?last Q E (u\<lparr>el := None\<rparr>)"
        using u same by (cases t; cases u) (intro last; simp add: frame_defs)
      then show ?thesis by simp
    qed
    show "wp (thn (modify (\<lambda>s. s\<lparr>el := Some L\<rparr>)) ?last) Q E u"
      if u: "same_env (?reset p t) u" "fds u = epfd L # fds (?reset p t)" "epfd L \<notin> set (fds (?reset p t))"
        "interest u = (\<lambda>_. None)" "idle_loop L" for u L
    proof -
      have "cold False (set (fds s)) (u\<lparr>el := Some L\<rparr>)"
        using base u same by (auto simp: cold_def fresh_def options_ok_def same_env_world [OF u(1)] base_fds_def)
      then have "wp ?last Q E (u\<lparr>el := Some L\<rparr>)"
        using u(1) same by (cases t; cases u) (intro last; simp add: same_env_def)
      then show ?thesis by simp
    qed
  qed simp
  show ?thesis
    unfolding serverInitConfig_def wp_bnd [of sys_getpid]
    by (rule quiet_wp [OF quiet_getpid]) (use create in \<open>simp add: wp_funs\<close>)
qed

section \<open>Reading the options\<close>

lemma cold_fields [simp]:
  "cold d F (t\<lparr>configfile := x\<rparr>) = cold d F t" "cold d F (t\<lparr>daemonize := b\<rparr>) = cold d F t"
  "cold d F (t\<lparr>pidfile := x\<rparr>) = cold d F t"
  by (simp_all add: cold_def fresh_def options_ok_def)

lemma cold_mono: "cold False F s \<Longrightarrow> cold d F s"
  by (auto simp: cold_def base_fds_def)

lemma wp_parse_option:
  assumes "cold False F s" and "E (Exit 0)" "E (Exit 1)"
    and Q: "\<And>t. cold False F t \<Longrightarrow> (daemonize t \<longrightarrow> daemonize s \<or> opt = Opt_d) \<Longrightarrow> Q () t"
  shows "wp (parse_option v opt) Q E s"
proof (cases opt)
  case (Opt_c arg)
  have "Q () (t\<lparr>configfile := x\<rparr>)" if "quiet s t" for t x
    using Q [of "t\<lparr>configfile := x\<rparr>"] cold_quiet [OF assms(1) that] that by (simp add: quiet_world)
  with Opt_c show ?thesis
    by (auto simp: parse_option_def intro!: quiet_wp [OF quiet_malloc])
next
  case Opt_d
  then show ?thesis using Q [of "s\<lparr>daemonize := True\<rparr>"] assms(1) by (simp add: parse_option_def)
qed (use assms in \<open>simp_all add: parse_option_def version_def usage_def\<close>)

lemma options_ok_configured: "options_ok s \<Longrightarrow> configured s ts t \<Longrightarrow> options_ok t"
  by (auto simp: options_ok_def configured_def setting_def hz_of_def interval_of_def clamp_def Let_def)

lemma options_frame_world:
  assumes "options_frame s t"
  shows "fds t = fds s" "interest t = interest s" "nodes t = nodes s" "links t = links s" "tevs t = tevs s"
    "el t = el s" "daemonize t = daemonize s"
  using assms by (cases s; cases t; simp add: options_frame_def without_options_def frame_defs)+

lemma wp_read_options:
  assumes s: "fresh s" and E: "E (Exit 0)" "E (Exit 1)"
    and Q: "\<And>t. cold False (set (fds s)) t \<Longrightarrow> (daemonize t \<longrightarrow> Opt_d \<in> set opts) \<Longrightarrow> Q () t"
  shows "wp (read_options v opts) Q E s"
proof -
  let ?F = "set (fds s)"
  let ?I = "\<lambda>t. cold False ?F t \<and> (daemonize t \<longrightarrow> Opt_d \<in> set opts)"
  have load: "wp (serverLoadConfig f) Q E t" if t: "?I t" for f t
  proof (cases f)
    case None
    with t Q show ?thesis by (simp add: serverLoadConfig_def)
  next
    case (Some n)
    have "Q () u" if u: "configured t ts u" "options_frame t u" for ts u
    proof (rule Q)
      show "cold False ?F u"
        using t options_ok_configured [OF _ u(1)] options_frame_world [OF u(2)] by (simp add: cold_def fresh_def)
      show "daemonize u \<longrightarrow> Opt_d \<in> set opts" using t options_frame_world(7) [OF u(2)] by simp
    qed
    with Some t E(2) show ?thesis by (auto intro!: wp_serverLoadConfig cold_fd_ok)
  qed
  have "wp (for_each opts (parse_option v)) (\<lambda>_. ?I) E t" if "cold False ?F t" "\<not> daemonize t" for t
    by (rule wp_for_each) (use that E in \<open>auto intro!: wp_parse_option [of ?F]\<close>)
  from wp_weaken [OF this] have parse: "wp (for_each opts (parse_option v))
      (\<lambda>_. wp (bnd (gets configfile) serverLoadConfig) Q E) E t"
    if "cold False ?F t" "\<not> daemonize t" for t
    using that load by simp
  show ?thesis
    unfolding read_options_def wp_thn
    by (rule wp_serverInitConfig [where E = E, OF s E(2)]) (use parse in simp)
qed

section \<open>Going to the background\<close>

text \<open>While \<open>fd\<close> is open for \<open>/dev/null\<close> or the pid file: it belongs to neither the loader nor the loop.\<close>

definition own_fd :: "bool \<Rightarrow> int set \<Rightarrow> int \<Rightarrow> world \<Rightarrow> bool" where
  "own_fd d F fd s \<longleftrightarrow> cold d (insert fd F) s \<and> fd \<in> set (fds s) \<and> fd \<notin> F
     \<and> (\<forall>L. el s = Some L \<longrightarrow> epfd L \<noteq> fd)"

lemma own_fd_opened:
  assumes "cold d F s" and "same_env s t" "interest t = interest s" "fds t = fd # fds s" "fd \<notin> set (fds s)"
  shows "own_fd d F fd t"
  using assms by (auto simp: own_fd_def cold_def fresh_def options_ok_def base_fds_def same_env_world)

lemma own_fd_quiet: "own_fd d F fd s \<Longrightarrow> quiet s t \<Longrightarrow> own_fd d F fd t"
  using cold_quiet by (auto simp: own_fd_def quiet_world)

lemma own_fd_trace [simp]: "own_fd d F fd (s\<lparr>trace := tr\<rparr>) = own_fd d F fd s"
  by (simp add: own_fd_def cold_def fresh_def options_ok_def)

text \<open>Closing it again.\<close>

lemma wp_close_own:
  assumes "own_fd d F fd s"
    and "\<And>r t. cold d F t \<Longrightarrow> logfile t = logfile s \<Longrightarrow> set (fds t) = set (fds s) - {fd} \<Longrightarrow> Q r t"
  shows "wp (sys_close fd) Q E s"
proof -
  let ?t = "s\<lparr>fds := remove1 fd (fds s), interest := (interest s)(fd := None), trace := trace s @ [Closed fd]\<rparr>"
  have "cold d F ?t" "set (fds ?t) = set (fds s) - {fd}"
    using assms(1) by (auto simp: own_fd_def cold_def fresh_def options_ok_def base_fds_def)
  then have "Q 0 ?t" by (intro assms(2)) simp_all
  then show ?thesis using assms(1) by (simp add: wp_sys_close own_fd_def)
qed

lemma wp_dup2:
  assumes "own_fd True F fd s" and "\<And>r t. own_fd True F fd t \<Longrightarrow> logfile t = logfile s \<Longrightarrow> Q r t"
  shows "wp (sys_dup2 fd target) Q E s"
proof -
  let ?t = "if target \<in> set (fds s) then s else s\<lparr>fds := target # fds s\<rparr>"
  have "own_fd True F fd ?t"
    using assms(1) by (auto simp: own_fd_def cold_def fresh_def options_ok_def base_fds_def)
  then have "Q target ?t" by (rule assms(2)) simp
  then show ?thesis using assms(1) by (simp add: sys_dup2_def wp_kernel own_fd_def)
qed

text \<open>After daemonizing the three standard descriptors may be new ones; if \<open>fd\<close> is one of them it stays.\<close>

lemma own_fd_keep: "own_fd True F fd s \<Longrightarrow> cold True F s"
  by (auto simp: own_fd_def cold_def base_fds_def)

lemma wp_do_daemonize:
  assumes s: "cold True F s" and E: "E (Exit 0)"
    and Q: "\<And>t. cold True F t \<Longrightarrow> logfile t = logfile s \<Longrightarrow> Q () t"
  shows "wp do_daemonize Q E s"
proof -
  have shut: "wp (when_do (fd > 2) (thn (sys_close fd) (ret ()))) Q E t"
    if t: "own_fd True F fd t" "logfile t = logfile s" for fd t
  proof -
    have "wp (sys_close fd) (\<lambda>_. Q ()) E t"
      by (intro wp_close_own [OF t(1)] Q) (use t in auto)
    moreover have "Q () t" using Q own_fd_keep [OF t(1)] t by simp
    ultimately show ?thesis by simp
  qed
  have "wp (sys_open ''/dev/null'') (\<lambda>fd. wp (when_do (fd \<noteq> -1) (thn (sys_dup2 fd 0) (thn (sys_dup2 fd 1)
      (thn (sys_dup2 fd 2) (when_do (fd > 2) (thn (sys_close fd) (ret ()))))))) Q E) E t" if t: "quiet s t" for t
  proof (rule wp_sys_open)
    fix u assume "quiet t u"
    with t have "quiet s u" by (rule quiet_trans)
    with Q [of u] s cold_quiet show "wp (when_do (-1 \<noteq> (-1::int)) (thn (sys_dup2 (-1) 0) (thn (sys_dup2 (-1) 1)
      (thn (sys_dup2 (-1) 2) (when_do (-1 > (2::int)) (thn (sys_close (-1)) (ret ()))))))) Q E u"
      by (simp add: quiet_world)
  next
    fix u fd
    assume u: "same_env t u" "interest u = interest t" "fds u = fd # fds t" "fd \<notin> set (fds t)" "0 \<le> fd"
    have own: "own_fd True F fd u"
      by (rule own_fd_opened [OF cold_quiet [OF s t] u(1-4)])
    have "logfile u = logfile s" using same_env_world(9) [OF u(1)] t by (simp add: quiet_world)
    then have "wp (sys_dup2 fd 0) (\<lambda>_. wp (sys_dup2 fd 1) (\<lambda>_. wp (sys_dup2 fd 2)
        (\<lambda>_. wp (when_do (fd > 2) (thn (sys_close fd) (ret ()))) Q E) E) E) E u"
      by (intro wp_dup2 [where F = F] own shut) (use s t u in auto)
    with u(5) show "wp (when_do (fd \<noteq> -1) (thn (sys_dup2 fd 0) (thn (sys_dup2 fd 1)
      (thn (sys_dup2 fd 2) (when_do (fd > 2) (thn (sys_close fd) (ret ()))))))) Q E u"
      by (simp add: wp_funs)
  qed
  then have "wp sys_setsid (\<lambda>_. wp (sys_open ''/dev/null'') (\<lambda>fd. wp (when_do (fd \<noteq> -1) (thn (sys_dup2 fd 0) (thn (sys_dup2 fd 1)
      (thn (sys_dup2 fd 2) (when_do (fd > 2) (thn (sys_close fd) (ret ()))))))) Q E) E) E t" if "quiet s t" for t
    by (rule quiet_wp [OF quiet_setsid]) (use that quiet_trans in blast)
  then show ?thesis
    unfolding do_daemonize_def wp_bnd [of sys_fork]
    using E by (simp add: sys_fork_def wp_kernel wp_funs frame_defs)
qed

lemma cold_log_ok: "cold d F s \<Longrightarrow> logfile s \<noteq> None \<Longrightarrow> log_ok s"
  by (simp add: cold_def fresh_def log_ok_def)

lemma wp_log_exit:
  assumes "log_ok s" and "0 \<le> level" "level \<le> 3" and "E (Exit 1)"
  shows "wp (serverLog level msg) (\<lambda>_. wp (stop_with (Exit 1)) Q E) E s"
    and "wp (serverLogErrno level msg) (\<lambda>_. wp (stop_with (Exit 1)) Q E) E s"
  using assms by (simp_all add: wp_serverLog wp_serverLogErrno)

lemma wp_write_pid:
  assumes s: "cold d F s" and Q: "\<And>t. cold d F t \<Longrightarrow> logfile t = logfile s \<Longrightarrow> Q () t"
  shows "wp (bnd (sys_open path) (\<lambda>fp. when_do (fp \<noteq> -1)
    (bnd sys_getpid (\<lambda>i. thn (emit (Wrote fp (show_int i @ [newline_char]))) (thn (sys_close fp) (ret ())))))) Q E s"
  unfolding wp_bnd [of "sys_open path"]
proof (rule wp_sys_open)
  fix t assume "quiet s t"
  with Q [of t] cold_quiet [OF s] show "wp (when_do (-1 \<noteq> (-1::int)) (bnd sys_getpid (\<lambda>i.
    thn (emit (Wrote (-1) (show_int i @ [newline_char]))) (thn (sys_close (-1)) (ret ()))))) Q E t"
    by (simp add: quiet_world)
next
  fix t fd
  assume t: "same_env s t" "interest t = interest s" "fds t = fd # fds s" "fd \<notin> set (fds s)" "0 \<le> fd"
  have own: "own_fd d F fd t" using s t(1-4) by (rule own_fd_opened)
  have "wp (thn (emit (Wrote fd data)) (thn (sys_close fd) (ret ()))) Q E u" if u: "quiet t u" for u data
  proof -
    have "own_fd d F fd (u\<lparr>trace := trace u @ [Wrote fd data]\<rparr>)" using own_fd_quiet [OF own u] by simp
    then have "wp (sys_close fd) (\<lambda>_. Q ()) E (u\<lparr>trace := trace u @ [Wrote fd data]\<rparr>)"
      by (rule wp_close_own) (use Q u same_env_world(9) [OF t(1)] in \<open>simp add: quiet_world\<close>)
    then show ?thesis by (simp add: wp_emit)
  qed
  then have "wp (bnd sys_getpid (\<lambda>i. thn (emit (Wrote fd (show_int i @ [newline_char])))
      (thn (sys_close fd) (ret ())))) Q E t"
    unfolding wp_bnd [of sys_getpid] by (rule quiet_wp [OF quiet_getpid])
  with t(5) show "wp (when_do (fd \<noteq> -1) (bnd sys_getpid (\<lambda>i. thn (emit (Wrote fd (show_int i @ [newline_char])))
      (thn (sys_close fd) (ret ()))))) Q E t"
    by (simp del: wp_bnd wp_thn)
qed

lemma wp_createPidFile:
  assumes s: "cold d F s" "logfile s \<noteq> None" "pidfile s \<noteq> None" and E: "E (Exit 1)"
    and Q: "\<And>t. cold d F t \<Longrightarrow> logfile t = logfile s \<Longrightarrow> Q () t"
  shows "wp createPidFile Q E s"
proof -
  let ?save = "bnd (gets pidfile) (\<lambda>p. case p of None \<Rightarrow> stop_with NullDeref
            | Some path \<Rightarrow> bnd (sys_open path) (\<lambda>fp. when_do (fp \<noteq> -1)
    (bnd sys_getpid (\<lambda>i. thn (emit (Wrote fp (show_int i @ [newline_char]))) (thn (sys_close fp) (ret ()))))))"
  have save: "wp ?save Q E t" if "cold d F t" "logfile t = logfile s" "pidfile t = Some path" for t path
    unfolding wp_bnd [of "gets pidfile"] wp_gets that(3) option.case
    by (rule wp_write_pid [OF that(1)]) (use Q that(2) in simp)
  have name: "wp (thn (modify (\<lambda>s. s\<lparr>pidfile := (if ok then Some ''/var/run/sproxyd.pid'' else None)\<rparr>))
      (when_do (\<not> ok) (thn (serverLog LL_ERROR ''strdup failed'') (stop_with (Exit 1))))) (\<lambda>_. wp ?save Q E) E t"
    if t: "quiet s t" for ok t
  proof (cases ok)
    case True
    have "cold d F (t\<lparr>pidfile := Some ''/var/run/sproxyd.pid''\<rparr>)" using cold_quiet [OF s(1) t] by simp
    then have "wp ?save Q E (t\<lparr>pidfile := Some ''/var/run/sproxyd.pid''\<rparr>)"
      by (rule save) (use t in \<open>simp_all add: quiet_world\<close>)
    with True show ?thesis by (simp del: wp_bnd)
  next
    case False
    have "log_ok (t\<lparr>pidfile := None\<rparr>)"
      using cold_log_ok [OF s(1,2)] quiet_world [OF t] by (simp add: log_ok_def)
    with False E show ?thesis by (simp add: wp_serverLog del: wp_bnd)
  qed
  have "wp (bnd sys_malloc (\<lambda>ok. thn (modify (\<lambda>s. s\<lparr>pidfile := (if ok then Some ''/var/run/sproxyd.pid'' else None)\<rparr>))
      (when_do (\<not> ok) (thn (serverLog LL_ERROR ''strdup failed'') (stop_with (Exit 1)))))) (\<lambda>_. wp ?save Q E) E s"
    unfolding wp_bnd [of sys_malloc] by (rule quiet_wp [OF quiet_malloc]) (rule name)
  with s(3) show ?thesis
    unfolding createPidFile_def wp_bnd [of "gets pidfile" "\<lambda>p. thn (f p) ?save" for f] wp_gets
      wp_thn [of "when_do b m" for b m] wp_when_do by simp
qed

lemma wp_go_background:
  assumes s: "cold False F s" "logfile s \<noteq> None" "daemonize s \<longrightarrow> d" and E: "E (Exit 0)" "E (Exit 1)"
    and Q: "\<And>t. cold d F t \<Longrightarrow> logfile t = logfile s \<Longrightarrow> Q () t"
  shows "wp go_background Q E s"
proof (cases "daemonize s")
  case False
  with Q [of s] cold_mono [OF s(1)] show ?thesis by (simp add: go_background_def)
next
  case True
  with s(3) have d: "d = True" by simp
  have "wp (bnd (gets pidfile) (\<lambda>p. when_do (p \<noteq> None) createPidFile)) Q E t"
    if t: "cold True F t" "logfile t = logfile s" for t
  proof -
    have "wp createPidFile Q E t" if "pidfile t \<noteq> None"
      by (rule wp_createPidFile [where E = E, OF t(1) _ that E(2)]) (use t s(2) Q d in simp_all)
    with t Q d show ?thesis by auto
  qed
  then have "wp do_daemonize (\<lambda>_. wp (bnd (gets pidfile) (\<lambda>p. when_do (p \<noteq> None) createPidFile)) Q E) E s"
    by (intro wp_do_daemonize [where E = E, OF cold_mono [OF s(1)] E(1)])
  with True show ?thesis
    unfolding go_background_def wp_bnd [of "gets daemonize"] wp_gets by (simp del: wp_bnd)
qed

end
