(* ===== verification/Boot.thy ===== *)
theory Boot
  imports Startup
begin

text \<open>
  From the first timer to the running daemon, and from the stopped loop to the end of \<open>main\<close>
  (\<open>src/server.c\<close>).
\<close>

section \<open>The first timer and the first links\<close>

lemma empty_registry: "nodes s = (\<lambda>_. None) \<Longrightarrow> master_head s = None \<Longrightarrow> holds_registry s []"
  by (auto simp: holds_registry_def reg_rel_def reg_ok_def view_def areg_wf_def intro!: exI [of _ "[]"])

lemma wp_serialInit:
  assumes s: "distinct (fds s)" "interest s = (\<lambda>_. None)" "nodes s = (\<lambda>_. None)" "links s = (\<lambda>_. None)"
      "logfile s \<noteq> None" "options_ok s" "timers_ok s"
    and L: "el s = Some L" "table_ok L (\<lambda>_. None)" "evmask L = (\<lambda>_. AE_NONE)" "beforesleep L = None"
    and E: "E (Exit 1)" "E DivByZero" "E IntOverflow"
    and Q: "\<And>t ms vs. running False (epfd L) (set (fds s)) ms vs t \<Longrightarrow> Q () t"
  shows "wp serialInit Q E s"
proof -
  let ?s = "s\<lparr>master_head := None\<rparr>"
  have reconnect: "wp serialReconnect Q E t" if t: "holds_registry t R" "node_frame ?s t" for t R
  proof -
    note same = node_frame_world [OF t(2)]
    obtain ms vs where reg: "reg_state t ms vs" using t(1) by (auto simp: holds_registry_def reg_rel_def)
    have "linkof (nodes t) = (\<lambda>_. None)" using same(13) s(3) by (simp add: linkof_def fun_eq_iff)
    then have "daemon_ok (set (fds t)) ms vs t"
      using same s L by (intro daemon_ok_unlinked [OF reg, of L]) simp_all
    then have run: "running False (epfd L) (set (fds s)) ms vs t"
      using same s L by (simp add: running_def timers_ok_def options_ok_def)
    then have wf: "daemon_ok (set (fds s)) ms vs t" by (simp add: running_def)
    have "Q () u" if "daemon_ok (set (fds s)) ms vs u \<and> link_frame [] t u \<and> P u" for u P
      using Q running_frame [OF run] that by blast
    then show ?thesis
      using E by (intro wp_weaken [OF wp_serialReconnect [OF wf]]) auto
  qed
  have log: "log_ok ?s" using s by (simp add: log_ok_def)
  have reg: "holds_registry ?s []" using s(3) by (intro empty_registry) simp_all
  have "wp (serialLoadConfig f) (\<lambda>_. wp serialReconnect Q E) E ?s" for f
  proof (cases f)
    case None
    with E show ?thesis by (simp add: serialLoadConfig_def)
  next
    case (Some n)
    show ?thesis unfolding Some
      by (rule wp_serialLoadConfig [where E = E, OF reg log disjI2 [OF E(1)]]) (rule reconnect)
  qed
  then show ?thesis by (simp add: serialInit_def)
qed

lemma wp_setupSignalHandlers:
  assumes "log_ok s" and E: "E (Exit 1)" and Q: "\<And>t. quiet s t \<Longrightarrow> Q () t"
  shows "wp setupSignalHandlers Q E s"
proof -
  have fail: "wp (thn (serverLogErrno LL_ERROR msg) (stop_with (Exit 1))) Q E t" if "quiet s t" for t msg
    using assms(1) log_ok_quiet [OF that] E by (simp add: wp_serverLogErrno)
  have "wp (bnd (sys_sigaction SIGINT) (\<lambda>r. if r \<noteq> 0
      then thn (serverLogErrno LL_ERROR ''sigaction(SIGINT) failed'') (stop_with (Exit 1)) else ret ())) Q E t"
    if t: "quiet s t" for t
    unfolding wp_bnd
    by (rule quiet_wp [OF quiet_sigaction]) (use fail Q quiet_trans [OF t] in \<open>simp del: wp_thn\<close>)
  then show ?thesis
    unfolding setupSignalHandlers_def wp_bnd [of "sys_sigaction SIGTERM"]
    by (intro quiet_wp [OF quiet_sigaction]) (use fail in \<open>simp del: wp_thn wp_bnd\<close>)
qed

text \<open>The invariant holds once the first timer is there and the missing links were looked for.\<close>

lemma wp_serverInit:
  assumes s: "cold d F s" "logfile s \<noteq> None"
    and E: "E (Exit 1)" "E NullDeref" "E DivByZero" "E IntOverflow"
    and Q: "\<And>t ms vs e B. running False e B ms vs t \<Longrightarrow> base_fds d F e B \<Longrightarrow> Q () t"
  shows "wp serverInit Q E s"
proof -
  let ?rest = "\<lambda>i. thn (modify (\<lambda>s. s\<lparr>cron_event_id := i\<rparr>))
      (if i = AE_ERR then thn (serverLog LL_ERROR (''Can'' @ [CHR 0x27] @ ''t create event loop timers''))
              (stop_with (Exit 1))
       else serialInit)"
  have timer: "wp (bnd (aeCreateTimeEvent 1 serverCron_fp None None) ?rest) Q E t" if t: "quiet s t" for t
  proof (cases "el t")
    case None
    then show ?thesis by (simp add: aeCreateTimeEvent_def get_loop_def E(2))
  next
    case (Some L)
    have c: "cold d F t" using s(1) t by (rule cold_quiet)
    have L: "idle_loop L" "base_fds d F (epfd L) (set (fds t))" using c Some by (simp_all add: cold_def)
    let ?t = "t\<lparr>el := Some (L\<lparr>timeEventNextId := timeEventNextId L + 1\<rparr>)\<rparr>"
    show ?thesis unfolding wp_bnd
    proof (rule wp_aeCreateTimeEvent [OF Some])
      fix u assume u: "quiet ?t u"
      have "log_ok (u\<lparr>cron_event_id := AE_ERR\<rparr>)"
        using cold_log_ok [OF c] s(2) quiet_world [OF t] quiet_world [OF u] by (simp add: log_ok_def)
      with E(1) show "wp (?rest AE_ERR) Q E u" by (simp add: wp_serverLog)
    next
      fix u sec ms
      assume u: "quiet ?t u"
      note same = quiet_world [OF u] quiet_world [OF t]
      let ?M = "L\<lparr>timeEventNextId := timeEventNextId L + 1, timeEventHead := Some (tev_brk t)\<rparr>"
      let ?u = "u\<lparr>tev_brk := Suc (tev_brk t),
        tevs := (tevs t)(tev_brk t \<mapsto> new_timer L serverCron_fp None None sec ms), el := Some ?M\<rparr>"
      let ?v = "?u\<lparr>cron_event_id := timeEventNextId L\<rparr>"
      have id: "timeEventNextId L = 0" "timeEventHead L = None" using L(1) by (simp_all add: idle_loop_def)
      have none: "tevs t = (\<lambda>_. None)" using c by (simp add: cold_def fresh_def)
      have "timers_ok ?v"
        unfolding timers_ok_def using none
        by (auto simp: new_timer_def id intro!: exI [of _ "[tev_brk t]"])
      moreover have "options_ok ?v" using c same by (simp add: cold_def options_ok_def)
      ultimately have "wp serialInit Q E ?v"
        using c s(2) L same
        by (intro wp_serialInit [where L = ?M]) (auto simp: cold_def fresh_def idle_loop_def E intro!: Q)
      then show "wp (?rest (timeEventNextId L)) Q E ?u" by (simp add: id)
    qed
  qed
  show ?thesis
    unfolding serverInit_def wp_thn [of setupSignalHandlers]
    by (rule wp_setupSignalHandlers [where E = E, OF cold_log_ok [OF s] E(1)]) (rule timer)
qed

lemma running_sleep:
  assumes "running z e B ms vs s" and "el s = Some L"
  shows "running z e B ms vs (s\<lparr>el := Some (L\<lparr>beforesleep := Some serverBeforeSleep_fp\<rparr>)\<rparr>)"
  using assms daemon_ok_loop [of B ms vs s L "L\<lparr>beforesleep := Some serverBeforeSleep_fp\<rparr>"]
  by (simp add: running_def timers_ok_def options_ok_def)

text \<open>The configuration of this run names a log file.\<close>

definition names_log :: "string \<Rightarrow> cmdopt list \<Rightarrow> world \<Rightarrow> bool" where
  "names_log v opts s \<longleftrightarrow> wp (read_options v opts) (\<lambda>_ t. logfile t \<noteq> None) (\<lambda>_. True) s"

lemma wp_startup:
  assumes s: "fresh s" "names_log sproxy_version opts s"
    and E: "E (Exit 0)" "E (Exit 1)" "E NullDeref" "E DivByZero" "E IntOverflow"
    and Q: "\<And>t ms vs e B. running False e B ms vs t \<Longrightarrow> base_fds (Opt_d \<in> set opts) (set (fds s)) e B \<Longrightarrow>
      (\<exists>L. el t = Some L \<and> beforesleep L = Some serverBeforeSleep_fp) \<Longrightarrow> Q () t"
  shows "wp (startup sproxy_version opts) Q E s"
proof -
  let ?d = "Opt_d \<in> set opts" and ?F = "set (fds s)"
  let ?set = "aeSetBeforeSleepProc (Some serverBeforeSleep_fp)"
  let ?log = "serverLog LL_INFO (''Server started, sproxy version '' @ sproxy_version)"
  have last: "wp ?log (\<lambda>_. wp ?set Q E) E t" if t: "running False e B ms vs t" "base_fds ?d ?F e B" for t e B ms vs
  proof -
    have wf: "daemon_ok B ms vs t" using t(1) by (simp add: running_def)
    have "wp ?set Q E u" if u: "quiet t u" for u
    proof -
      have run: "running False e B ms vs u" using t(1) u by (rule running_quiet)
      then obtain L where L: "el u = Some L" by (auto simp: running_def elim: wf_loop)
      have "Q () (u\<lparr>el := Some (L\<lparr>beforesleep := Some serverBeforeSleep_fp\<rparr>)\<rparr>)"
        using running_sleep [OF run L] t(2) by (rule Q) simp
      with L show ?thesis by (simp add: aeSetBeforeSleepProc_def wp_upd_loop)
    qed
    then show ?thesis by (intro wp_serverLog wf_log_ok [OF wf]) auto
  qed
  have "wp serverInit (\<lambda>_. wp ?log (\<lambda>_. wp ?set Q E) E) E t" if "cold ?d ?F t" "logfile t \<noteq> None" for t
    by (rule wp_serverInit [where E = E, OF that E(2-5)]) (rule last)
  then have "wp go_background (\<lambda>_. wp (thn serverInit (thn ?log ?set)) Q E) E t"
    if "cold False ?F t \<and> (daemonize t \<longrightarrow> ?d)" "logfile t \<noteq> None" for t
    using that E by (intro wp_go_background [where F = ?F and d = ?d]) (auto simp: wp_funs)
  moreover have "wp (read_options sproxy_version opts) (\<lambda>_ t. (cold False ?F t \<and> (daemonize t \<longrightarrow> ?d)) \<and> logfile t \<noteq> None) E s"
  proof -
    have "wp (read_options sproxy_version opts) (\<lambda>_ t. cold False ?F t \<and> (daemonize t \<longrightarrow> ?d)) E s"
      by (rule wp_read_options [where E = E, OF s(1) E(1,2)]) simp
    then show ?thesis using s(2) by (auto simp: names_log_def wp_def split: sum.splits prod.splits)
  qed
  ultimately show ?thesis
    unfolding startup_def wp_thn by (auto elim!: wp_weaken simp: wp_funs)
qed

section \<open>The end\<close>

lemma bare_head: "bare_loop L = bare_loop M \<Longrightarrow> timeEventHead L = timeEventHead M \<and> epfd L = epfd M"
  by (cases L; cases M) (simp add: bare_loop_def)

text \<open>
  What is left once \<open>serverTerm\<close> is done: the loop's own descriptor and those that were there before it.
  The timer is found, so nothing is logged, which would be a call through the \<open>logfile\<close> just set to NULL.
\<close>

lemma wp_serverTerm:
  assumes run: "running z e B ms vs s"
    and Q: "\<And>t L. nodes t = (\<lambda>_. None) \<Longrightarrow> links t = (\<lambda>_. None) \<Longrightarrow> distinct (fds t) \<Longrightarrow> set (fds t) = B \<Longrightarrow>
      interest t = (\<lambda>_. None) \<Longrightarrow> el t = Some L \<Longrightarrow> epfd L = e \<Longrightarrow> Q () t"
  shows "wp serverTerm Q E s"
proof -
  have wf: "daemon_ok B ms vs s" using run by (simp add: running_def)
  obtain L where L: "el s = Some L" using wf by (rule wf_loop)
  obtain ts where ts: "chain (tevs s) te_next (timeEventHead L) ts" "\<exists>a\<in>set ts. te_id (the (tevs s a)) = cron_event_id s"
    using run L by (auto simp: running_def timers_ok_def)
  have dom: "dom (tevs s) \<subseteq> {..<tev_brk s}" and e: "epfd L = e" using run L by (simp_all add: running_def timers_ok_def)
  let ?clear = "\<lambda>t. t\<lparr>logfile := None, pidfile := None, configfile := None, serial_configfile := None\<rparr>"
  let ?rest = "thn (modify ?clear) (bnd (gets cron_event_id) (\<lambda>i. bnd (aeDeleteTimeEvent i) (\<lambda>r.
       thn (when_do (r = AE_ERR) (serverLog LL_WARN ''Failed removing event loop timers''))
         (modify (\<lambda>s. s\<lparr>cron_event_id := AE_ERR\<rparr>)))))"
  have "wp ?rest Q E t"
    if t: "nodes t = (\<lambda>_. None)" "links t = (\<lambda>_. None)" "distinct (fds t)" "set (fds t) = B" "interest t = (\<lambda>_. None)"
      "loop_shape t" "calm s t" for t
  proof -
    note same = calm_world [OF t(7)]
    obtain M where M: "el t = Some M" "bare_loop M = bare_loop L" using same(6) L by auto
    note head = bare_head [OF M(2)]
    have Mc: "el (?clear t) = Some M" and chain: "chain (tevs (?clear t)) te_next (timeEventHead M) ts"
      and dom': "dom (tevs (?clear t)) \<subseteq> {..<tev_brk (?clear t)}"
      using M(1) ts(1) dom head by (simp_all add: same)
    obtain a where "find (\<lambda>a. te_id (the (tevs s a)) = cron_event_id s) ts = Some a"
      using ts(2) by (cases "find (\<lambda>a. te_id (the (tevs s a)) = cron_event_id s) ts") (auto simp: find_None_iff)
    with wp_aeDeleteTimeEvent [OF Mc chain dom', of "cron_event_id t"] Q [of _ M] t M(1) head e
    show ?thesis by (simp add: same)
  qed
  then show ?thesis
    unfolding serverTerm_def wp_thn [of serialTerm] by (intro wp_weaken [OF wp_serialTerm [OF wf]]) blast
qed

text \<open>Nothing is left of the nodes, the links and the loop; the descriptors of \<open>B\<close> are open.\<close>

definition torn_down :: "int set \<Rightarrow> world \<Rightarrow> bool" where
  "torn_down B t \<longleftrightarrow> set (fds t) = B \<and> distinct (fds t) \<and> interest t = (\<lambda>_. None)
     \<and> nodes t = (\<lambda>_. None) \<and> links t = (\<lambda>_. None) \<and> el t = None"

text \<open>After the loop nothing can go wrong any more.\<close>

lemma finish_server_torn_down:
  assumes run: "running z e B ms vs s" and B: "e \<in> B"
  shows "\<exists>t. finish_server s = Inr (0, t) \<and> torn_down (B - {e}) t"
proof -
  let ?Q = "\<lambda>r t. r = 0 \<and> torn_down (B - {e}) t" and ?E = "\<lambda>_. False"
  have close: "wp (thn aeDeleteEventLoop (ret 0)) ?Q ?E t"
    if t: "nodes t = (\<lambda>_. None)" "links t = (\<lambda>_. None)" "distinct (fds t)" "set (fds t) = B"
      "interest t = (\<lambda>_. None)" "el t = Some L" "epfd L = e" for t L
    using t B by (simp add: torn_down_def aeDeleteEventLoop_def aeApiFree_def get_loop_def wp_sys_close)
  have "wp finish_server ?Q ?E s"
    unfolding finish_server_def wp_thn [of serverTerm] by (rule wp_serverTerm [OF run]) (rule close)
  then show ?thesis by (auto simp: wp_returns)
qed

lemma run_server_cases:
  assumes run: "running z e B ms vs s" and B: "e \<in> B"
  shows "case aeMain server_procs fuel s of
      Inl h \<Rightarrow> run_server fuel s = Inl h \<and> (stops z h \<or> h = OutOfFuel)
    | Inr (_, t) \<Rightarrow> \<exists>u. run_server fuel s = Inr (0, u) \<and> torn_down (B - {e}) u"
  using daemon.wp_aeMain [OF run, of fuel] finish_server_torn_down [OF _ B, of z ms vs]
  by (auto simp: wp_def run_server_def thn_def bnd_def split: sum.splits prod.splits)

text \<open>The three phases of \<open>main\<close>.\<close>

lemma server_main_cases:
  assumes "fresh s" and "names_log v opts s"
  shows "case startup v opts s of
      Inl h \<Rightarrow> server_main fuel v opts s = Inl h
        \<and> (h = Exit 0 \<or> h = Exit 1 \<or> h = NullDeref \<or> h = DivByZero \<or> h = IntOverflow)
    | Inr (_, t) \<Rightarrow> (case aeMain server_procs fuel t of
        Inl h \<Rightarrow> server_main fuel v opts s = Inl h
          \<and> (h = Exit 1 \<or> h = UseAfterFree \<or> h = DivByZero \<or> h = IntOverflow \<or> h = OutOfFuel)
      | Inr (_, u) \<Rightarrow> \<exists>w. server_main fuel v opts s = Inr (0, w)
          \<and> set (fds s) \<subseteq> set (fds w) \<and> (Opt_d \<notin> set opts \<longrightarrow> set (fds w) = set (fds s))
          \<and> interest w = (\<lambda>_. None) \<and> nodes w = (\<lambda>_. None) \<and> links w = (\<lambda>_. None) \<and> el w = None)"
proof -
  let ?d = "Opt_d \<in> set opts" and ?F = "set (fds s)"
  have up: "wp (startup v opts) (\<lambda>_ t. \<exists>e B ms vs. running False e B ms vs t \<and> base_fds ?d ?F e B)
      (\<lambda>h. h = Exit 0 \<or> h = Exit 1 \<or> h = NullDeref \<or> h = DivByZero \<or> h = IntOverflow) s"
    by (rule wp_startup [OF assms]) auto
  show ?thesis
  proof (cases "startup v opts s")
    case (Inl h)
    with up show ?thesis by (simp add: wp_def server_main_def thn_def bnd_def)
  next
    case (Inr r)
    then obtain t where t: "startup v opts s = Inr ((), t)" by (cases r) simp
    with up obtain e B ms vs where run: "running False e B ms vs t" "base_fds ?d ?F e B" by (auto simp: wp_def)
    then have "e \<in> B" by (simp add: base_fds_def)
    have "server_main fuel v opts s = run_server fuel t" using t by (simp add: server_main_def thn_def bnd_def)
    with run_server_cases [OF run(1) \<open>e \<in> B\<close>, of fuel] run(2) t show ?thesis
      by (auto simp: torn_down_def base_fds_def stops_def split: sum.splits prod.splits)
  qed
qed

end
