(* ===== verification/Execution.thy ===== *)
theory Execution
  imports Boot Demo
begin

text \<open>
  Running the model in the logic: equations that execute a command from the front, and with them one
  whole run on a concrete machine, from the command line through both files and the opening of a device
  to a signal that stops the loop. The simplifier works on the command in front and its state only; what
  comes after waits behind congruence rules.
\<close>

section \<open>Execution from the front\<close>

lemma wp_front: "m = m' \<Longrightarrow> s = s' \<Longrightarrow> wp m Q E s = wp m' Q E s'"
  by simp

lemma rest_later: "bnd m f = bnd m f" "thn m k = thn m k" "gets g = gets g" "modify h = modify h"
  by (rule refl)+

lemma arguments_first:
  "b = b' \<Longrightarrow> when_do b m = when_do b' m" "xs = ys \<Longrightarrow> for_each xs f = for_each ys f"
  "n = n' \<Longrightarrow> x = x' \<Longrightarrow> loop n g x = loop n' g x'"
  by simp_all

lemmas front_cong = wp_front rest_later arguments_first

lemma wp_loop_Suc:
  "wp (loop (Suc n) f x) Q E s = wp (f x) (\<lambda>r. case r of Inl y \<Rightarrow> wp (loop n f y) Q E | Inr a \<Rightarrow> Q a) E s"
  by (auto simp: loop.simps(2) wp_def run_defs split: sum.splits prod.splits)

lemma wp_loop_numeral:
  "wp (loop (numeral k) f x) Q E s
    = wp (f x) (\<lambda>r. case r of Inl y \<Rightarrow> wp (loop (pred_numeral k) f y) Q E | Inr a \<Rightarrow> Q a) E s"
  "wp (loop 1 f x) Q E s = wp (f x) (\<lambda>r. case r of Inl y \<Rightarrow> wp (loop 0 f y) Q E | Inr a \<Rightarrow> Q a) E s"
  by (simp_all add: numeral_eq_Suc wp_loop_Suc)

lemma search_chain_numeral:
  "search_chain (numeral k) h nx test cur =
     (case cur of None \<Rightarrow> ret None
      | Some a \<Rightarrow> bnd (gets (\<lambda>s. h s a)) (\<lambda>r.
          case r of None \<Rightarrow> stop_with UseAfterFree
          | Some n \<Rightarrow> if test n then ret (Some a) else search_chain (pred_numeral k) h nx test (nx n)))"
  by (subst numeral_eq_Suc, subst search_chain.simps(2)) (rule refl)

lemma read_line_numeral:
  "read_line (numeral k) [] = ([], [])"
  "read_line (numeral k) (c # cs) =
     (if c = newline_char then ([c], cs) else (case read_line (pred_numeral k) cs of (l, r) \<Rightarrow> (c # l, r)))"
  by (simp_all add: numeral_eq_Suc)

lemma callbacks:
  "call_file server_procs 1 = serialEventHandler" "call_time server_procs 2 = serverCron"
  "call_sleep server_procs 3 = serverBeforeSleep" "call_signal server_procs = take_signal"
  by (simp_all add: server_procs_def fun_eq_iff)

lemmas front_simps = wp_loop_Suc wp_loop_numeral search_chain.simps(2) search_chain_numeral read_line_numeral
  strtok_tokens.simps upt_rec callbacks wp_kernel Let_def

lemmas text_defs =
  fgets_def cstr_def isspace_def NUL_def newline_char_def tolower_def strcaseeq_def strlcpy_def
  to_int32_def INT_MAX_def c_div_def c_mod_def signed_divide_int_def signed_modulo_int_def

lemmas kernel_code =
  set_errno_def emit_def exit_saying_def failing_def lowest_fd_def sys_open_def sys_fopen_read_def
  sys_close_def sys_openpty_def on_fd_def sys_read_def sys_write_def sys_isatty_def sys_ttyname_def
  sys_tcgetattr_def sys_tcsetattr_def sys_tiocgserial_def sys_tiocsserial_def sys_remove_def
  sys_symlink_def sys_unlink_def sys_gettimeofday_def sys_time_def sys_usleep_def sys_malloc_def
  sys_getpid_def sys_sigaction_def sys_signal_def sys_epoll_create_def sys_epoll_ctl_def
  sys_epoll_wait_def

lemmas loop_code =
  get_loop_def upd_loop_def event_at_def fired_at_def upd_event_def aeApiCreate_def blank_event_def
  aeCreateEventLoop_def aeApiFree_def aeDeleteEventLoop_def aeStop_def aeSetBeforeSleepProc_def
  epoll_events_of_def ae_mask_of_def aeApiAddEvent_def aeApiDelEvent_def register_event_def
  aeCreateFileEvent_def aeDeleteFileEvent_def get_tev_def upd_tev_def tev_fuel_def aeGetTime_def
  aeAddMillisecondsToNow_def aeCreateTimeEvent_def aeDeleteTimeEvent_def earlier_def nearest_body_def
  aeSearchNearestTimer_def skew_body_def remove_timer_def run_timer_def is_due_def time_body_def
  processTimeEvents_def aeApiPoll_def clear_fired_def readable_step_def writable_step_def dispatch_def
  poll_timeout_def aeProcessEvents_def main_turn_def main_body_def aeMain_def

lemmas node_code =
  nodeIsMaster_def nodeIsVirtual_def nodeIsWriter_def get_node_def upd_node_def get_link_def
  upd_link_def node_fuel_def serverLogLevel_def syslogLevelMap_def serverLogRaw_def serverLog_def
  serverLogErrno_def serialCreateNode_def serialAddNode_def serialGetNode_def serialAddVirtualNode_def
  remove_body_def serialRemoveVirtualNode_def serialGetVirtualNode_def serialGetVirtualWriterNode_def
  serialVirtualName_def orphan_body_def serialFreeNode_def serialEventFlags_def serialEventString_def
  show_str_def serialFreeLink_def serialLinkIOError_def open_master_def open_virtual_def baud_cases_def
  select_baud_def set_speed_def configure_tty_def serialCreateLink_def serialConnectNode_def
  serialWriteLink_def serialWriteHandler_def store_front_def serialReadHandler_def
  serialEventHandler_def log_reconnected_def reconnect_virtual_def reconnect_master_def
  serialReconnect_def serialCron_def reset_node_def reset_virtual_def reset_master_def
  serialBeforeSleep_def close_node_def term_virtual_def term_master_def serialTerm_def

lemmas file_code =
  rstrip_def lskip_def find_chars_or_comment_def char_at_def strncpy0_def ini_init_def BOM_def
  note_error_def call_handler_def section_line_def pair_line_def ini_line_def ini_body_def
  ini_parse_stream_def ini_parse_file_def ini_parse_def yesnotoi_def getLogLevel_def clamp_def
  strdup_or_exit_def serverConfigHandler_def serverLoadConfig_def master_for_def ensure_virtual_def
  set_writer_def serialConfigHandler_def serialLoadConfig_def

lemmas server_code =
  sigHandler_def take_signal_def setupSignalHandlers_def prepareForShutdown_def int_div_def int_mod_def
  run_with_period_def serverCron_def serverBeforeSleep_def serialInit_def serverInitConfig_def
  serverInit_def serverTerm_def parse_option_def read_options_def go_background_def startup_def

lemmas program = front_simps text_defs kernel_code loop_code node_code file_code server_code

section \<open>The serving daemon is told to stop\<close>

lemmas demo_state = demo_world_def idle_world_def no_reply_def demo_loop_def demo_timer_def demo_master_def
  demo_virtual_def demo_link_def demo_pty_def

text \<open>Nothing works, a second has passed, and SIGTERM (15) arrives.\<close>

definition signal_env :: "nat \<Rightarrow> reply" where
  "signal_env i = no_reply\<lparr>r_sec := 1, r_num := 15\<rparr>"

lemma demo_stops: "\<exists>t. aeMain server_procs 3 (demo_world signal_env ''abc'') = Inr ((), t)"
proof -
  have "wp (aeMain server_procs 3) (\<lambda>_ _. True) (\<lambda>_. False) (demo_world signal_env ''abc'')"
    by (simp add: program demo_state signal_env_def [abs_def] cong: front_cong)
  then show ?thesis by (simp add: wp_returns)
qed

section \<open>A whole run\<close>

text \<open>
  Every call succeeds, the clock moves on by a second from call to call, and SIGTERM arrives in every turn
  of the loop. The system file is opened by call number 10, the serial file by one after number 15.
\<close>

definition run_files :: "nat \<Rightarrow> string" where
  "run_files i =
     (if i < 15 then ''[logging]'' @ [newline_char] @ ''logfile=/l'' @ [newline_char]
      else ''[/dev/ttyS5]'' @ [newline_char] @ ''virtuals=a'' @ [newline_char])"

definition start_world :: world where
  "start_world = (idle_world no_reply)
     \<lparr>answers := (\<lambda>i. no_reply\<lparr>r_ok := True, r_data := run_files i, r_num := 15, r_sec := int i\<rparr>)\<rparr>"

lemmas start_state = start_world_def idle_world_def no_reply_def run_files_def

lemma start_fresh: "fresh start_world" "fds start_world = []"
  by (simp_all add: fresh_def start_world_def idle_world_def)

lemma start_names_log: "names_log ''1.0'' [Opt_c ''sproxy.ini''] start_world"
  unfolding names_log_def by (simp add: program start_state cong: front_cong)

text \<open>Start-up opens the device and its virtual node; then the loop runs until the signal stops it.\<close>

lemma start_runs:
  "\<exists>t u. startup ''1.0'' [Opt_c ''sproxy.ini''] start_world = Inr ((), t) \<and> links t \<noteq> (\<lambda>_. None)
     \<and> aeMain server_procs 3 t = Inr ((), u)"
proof -
  have "wp (startup ''1.0'' [Opt_c ''sproxy.ini''])
      (\<lambda>_ t. links t 0 \<noteq> None \<and> wp (aeMain server_procs 3) (\<lambda>_ _. True) (\<lambda>_. False) t) (\<lambda>_. False) start_world"
    by (simp add: program start_state cong: front_cong)
  then show ?thesis by (fastforce simp: wp_returns)
qed

end
