(* ===== verification/BootProps.thy ===== *)
theory BootProps
  imports Boot LoopProps Execution
begin

text \<open>
  What is claimed of the life of the process: start-up establishes the invariant, the end of \<open>main\<close>
  takes everything apart again.
\<close>

section \<open>A state to start from\<close>

definition logging_file :: string where
  "logging_file = ''[logging]'' @ [newline_char] @ ''logfile=/l'' @ [newline_char]"

lemma logging_file_sets: "setting ''logging'' ''logfile'' Some None (system_pairs logging_file) = Some ''/l''"
  by code_simp

lemma file_world_fresh: "fresh (file_world file)" "fds (file_world file) = []"
  by (simp_all add: fresh_def file_world_def idle_world_def)

text \<open>If every call succeeds and the given file sets the log file, the run has one.\<close>

lemma names_log_file:
  assumes "fresh s" and "\<And>i. r_ok (answers s i)"
    and "\<And>i. setting ''logging'' ''logfile'' Some None (system_pairs (r_data (answers s i))) \<noteq> None"
  shows "names_log v [Opt_c f] s"
proof -
  have load: "wp (serverLoadConfig (Some f)) (\<lambda>_ t. logfile t \<noteq> None) (\<lambda>_. True) t"
    if "cold False F t" "answers t = answers s" "logfile t = None" for t F
    by (rule wp_serverLoadConfig [OF cold_fd_ok [OF that(1)]]) (use that assms(3) in \<open>auto simp: configured_def\<close>)
  have "wp (for_each [Opt_c f] (parse_option v)) (\<lambda>_. wp (bnd (gets configfile) serverLoadConfig)
      (\<lambda>_ t. logfile t \<noteq> None) (\<lambda>_. True)) (\<lambda>_. True) t"
    if t: "cold False F t" "answers t = answers s" "logfile t = None" for t F
  proof -
    have "quiet t (t\<lparr>calls := Suc (calls t)\<rparr>)" by (simp add: frame_defs)
    with t(1) have "cold False F (t\<lparr>calls := Suc (calls t)\<rparr>)" by (rule cold_quiet)
    then have "cold False F (t\<lparr>calls := Suc (calls t), configfile := Some f\<rparr>)" by simp
    from load [OF this] t assms(2) show ?thesis
      by (simp add: parse_option_def sys_malloc_def wp_kernel)
  qed
  then show ?thesis
    unfolding names_log_def read_options_def wp_thn
    by (intro wp_serverInitConfig [OF assms(1)]) (auto simp: wp_funs)
qed

lemma logging_world: "names_log v [Opt_c f] (file_world logging_file)"
  by (rule names_log_file [OF file_world_fresh(1)]) (simp_all add: logging_file_sets)

section \<open>Claims\<close>

text \<open>
  C3: start-up establishes the invariant. From a fresh process whose configuration names a log file
  (without one the invariant cannot hold, see C39), whatever the command line, the files and the kernel's
  answers: start-up ends, and either the daemon runs, in a state of the invariant, with the descriptors of the
  loader, the loop's own, and those of its links; or the process exits (0 for the parent and for \<open>-v\<close>, else
  1); or the event loop could not be created and is dereferenced; or a master's rate, where the platform has
  no constant for it, was divided by although it is zero, or led out of the range of \<open>int\<close>.
\<close>

theorem startup_establishes:
  assumes "fresh s" and "names_log sproxy_version opts s"
  shows "wp (startup sproxy_version opts)
    (\<lambda>_ t. \<exists>e B ms vs. running False e B ms vs t \<and> set (fds s) \<subseteq> B \<and> e \<in> B - set (fds s)
       \<and> (Opt_d \<notin> set opts \<longrightarrow> B = insert e (set (fds s))))
    (\<lambda>h. h = Exit 0 \<or> h = Exit 1 \<or> h = NullDeref \<or> h = DivByZero \<or> h = IntOverflow) s"
  by (rule wp_startup [OF assms]) (simp_all add: base_fds_def, blast)

theorem startup_establishes_witness:
  "\<exists>t e ms vs. startup ''1.0'' [Opt_c ''sproxy.ini''] start_world = Inr ((), t)
     \<and> running False e {e} ms vs t \<and> links t \<noteq> (\<lambda>_. None)"
proof -
  obtain t where t: "startup ''1.0'' [Opt_c ''sproxy.ini''] start_world = Inr ((), t)" "links t \<noteq> (\<lambda>_. None)"
    using start_runs by blast
  from startup_establishes [OF start_fresh(1) start_names_log] t show ?thesis
    by (auto simp: wp_def start_fresh(2))
qed

text \<open>
  C4: the end of \<open>main\<close>. When the main loop returns, so does \<open>main\<close>, with 0: \<open>serverTerm\<close> and
  \<open>aeDeleteEventLoop\<close> cannot fail, they free every node, every link and the loop, and leave open exactly the
  descriptors that were there before the loop was created. When the loop does not return, what stopped it is
  what stops \<open>main\<close>.
\<close>

theorem run_server_cleans_up:
  assumes "running z e B ms vs s" and "e \<in> B"
  shows "case aeMain server_procs fuel s of
      Inl h \<Rightarrow> run_server fuel s = Inl h
        \<and> (h = Exit 1 \<or> h = UseAfterFree \<or> h = IntOverflow \<or> h = DivByZero \<and> \<not> z \<or> h = OutOfFuel)
    | Inr (_, t) \<Rightarrow> \<exists>u. run_server fuel s = Inr (0, u) \<and> set (fds u) = B - {e} \<and> interest u = (\<lambda>_. None)
        \<and> nodes u = (\<lambda>_. None) \<and> links u = (\<lambda>_. None) \<and> el u = None"
  using run_server_cases [OF assms, of fuel]
  by (auto simp: stops_def torn_down_def split: sum.splits prod.splits)

theorem run_server_cleans_up_witness:
  "\<exists>u. run_server 3 (demo_world signal_env ''abc'') = Inr (0, u) \<and> set (fds u) = {}
     \<and> nodes u = (\<lambda>_. None) \<and> links u = (\<lambda>_. None)"
proof -
  have "length ''abc'' \<le> BUFSIZ" "3 \<in> {3 :: int}" by simp_all
  from run_server_cleans_up [OF demo_running [OF this(1)] this(2), of 3 signal_env] demo_stops show ?thesis
    by auto
qed

text \<open>
  C2: the whole program, phase by phase. From a fresh process whose configuration names a log file, what
  stops start-up stops \<open>main\<close>, and it is one of the ways of C3; what stops the main loop stops \<open>main\<close>, and
  it is one of the ways of C1, or the number of turns given; and when the loop returns, because a signal asked
  for it, \<open>main\<close> does return 0, with every node, link and the loop gone and no descriptor more or less open
  than the process was given (with \<open>-d\<close>, at least those).
\<close>

theorem server_main_balanced:
  assumes "fresh s" and "names_log sproxy_version opts s"
  shows "case startup sproxy_version opts s of
      Inl h \<Rightarrow> server_main fuel sproxy_version opts s = Inl h
        \<and> (h = Exit 0 \<or> h = Exit 1 \<or> h = NullDeref \<or> h = DivByZero \<or> h = IntOverflow)
    | Inr (_, t) \<Rightarrow> (case aeMain server_procs fuel t of
        Inl h \<Rightarrow> server_main fuel sproxy_version opts s = Inl h
          \<and> (h = Exit 1 \<or> h = UseAfterFree \<or> h = DivByZero \<or> h = IntOverflow \<or> h = OutOfFuel)
      | Inr (_, u) \<Rightarrow> \<exists>w. server_main fuel sproxy_version opts s = Inr (0, w)
          \<and> set (fds s) \<subseteq> set (fds w) \<and> (Opt_d \<notin> set opts \<longrightarrow> set (fds w) = set (fds s))
          \<and> interest w = (\<lambda>_. None) \<and> nodes w = (\<lambda>_. None) \<and> links w = (\<lambda>_. None) \<and> el w = None)"
  by (rule server_main_cases [OF assms])

theorem server_main_balanced_witness:
  "\<exists>w. server_main 3 ''1.0'' [Opt_c ''sproxy.ini''] start_world = Inr (0, w) \<and> fds w = []
     \<and> nodes w = (\<lambda>_. None) \<and> links w = (\<lambda>_. None)"
proof -
  obtain t u where "startup ''1.0'' [Opt_c ''sproxy.ini''] start_world = Inr ((), t)"
    "aeMain server_procs 3 t = Inr ((), u)" using start_runs by blast
  with server_main_balanced [OF start_fresh(1) start_names_log, of 3] show ?thesis
    by (auto simp: start_fresh(2))
qed

text \<open>
  A configured PID file is never written. \<open>createPidFile\<close> does the same whatever the configured path
  is, since it replaces the path by the default one; and had none been configured, it would open NULL:
  its condition is inverted.
\<close>

lemma createPidFile_ignores_setting:
  "createPidFile (s\<lparr>pidfile := Some p\<rparr>) = createPidFile (s\<lparr>pidfile := Some q\<rparr>)
    \<and> createPidFile (s\<lparr>pidfile := None\<rparr>) = Inl NullDeref"
  by (simp add: createPidFile_def run_defs sys_malloc_def ask_def when_do_def)

end
