(* ===== verification/Spec2Isabelle.thy ===== *)
theory Spec2Isabelle
  imports ConfigProps AeProps LinkProps NodeProps LoopProps TrafficProps BootProps
begin

text \<open>
  Verification of sproxyd, a daemon in C that shares serial devices among several programs: every
  configured device (a master) is read, and what arrives is copied to pseudo-terminals (its virtual
  nodes); one virtual node may be the writer, whose input is copied back to the device.

  The program and its theories, in the order they build on each other:

    \<^item> \<open>Prelude\<close>: C pointers, the ways a C program stops (\<open>halt\<close>), commands (state to halt or result and
      state), loops with a bound, weakest preconditions \<open>wp m Q E s\<close> (\<open>m\<close> returns with \<open>Q\<close> or halts in
      a way \<open>E\<close> allows), chains in a heap.
    \<^item> \<open>CLib\<close>, \<open>Kernel\<close>: what the source uses of the C library and of Linux. Every answer of the
      environment (success, bytes, ready descriptors, time) comes from a stream of replies in the state, so
      a theorem about all states is one about all environments. Descriptors, the epoll set and a trace of
      the calls with an effect outside are kept.
    \<^item> \<open>Ae\<close> (\<open>src/ae.c\<close>, \<open>src/ae_epoll.c\<close>): \<open>aeEventLoop\<close> and its events as records, time events in a
      heap, one definition per function, loops as \<open>loop fuel body\<close>. Callbacks are addresses; what is at
      an address is the parameter \<open>procs\<close>, given by \<open>server_procs\<close> in \<open>Server\<close>.
    \<^item> \<open>World\<close> (\<open>src/server.h\<close>, \<open>src/serial.h\<close>): the whole state \<open>world\<close> (the globals of \<open>struct sproxyServer\<close>,
      heaps of nodes and links), access through pointers with NULL and freed objects as halts, logging.
    \<^item> \<open>SerialNodes\<close>, \<open>SerialLinks\<close> (\<open>src/serial.c\<close>): the lists of nodes; opening, closing, reading,
      writing, reconnecting, shutting down.
    \<^item> \<open>Ini\<close> (\<open>src/ini.c\<close>), \<open>Config\<close> (\<open>src/config.c\<close>), \<open>Server\<close> (\<open>src/server.c\<close>): the parser, the two
      handlers and loaders, signals, the periodic task, start-up, \<open>main\<close>.

  The lemmas:

    \<^item> \<open>Frame\<close>: which calls leave descriptors and data alone (\<open>quiet\<close>), rules for the system calls.
    \<^item> \<open>IniSpec\<close>: a file means a list of triples; a handler that implements a step on triples is lifted to
      whole files (locale \<open>ini_client\<close>). \<open>ConfigSpec\<close> interprets it for \<open>_serialConfigHandler\<close>, with the
      abstract registry and \<open>a_config\<close> as the specification; \<open>OptionSpec\<close> for \<open>_serverConfigHandler\<close>.
      \<open>IniRound\<close>, \<open>ConfigRound\<close>: printers for INI files and for device descriptions, whose output the parser
      and the serial configuration read back.
    \<^item> \<open>Registry\<close>, \<open>LinkInv\<close>, \<open>LinkOps\<close>, \<open>Traffic\<close>, \<open>Cycle\<close>, \<open>Shutdown\<close>: the invariant \<open>daemon_ok\<close> that ties
      nodes, links, descriptors, event table and epoll set together, and every operation on it.
    \<^item> \<open>AeFiles\<close>, \<open>AeLoop\<close>: \<open>table_ok\<close> (event table, \<open>maxfd\<close>, epoll set agree), the order of due times, and
      the locales \<open>event_poller\<close>, \<open>event_timers\<close>, \<open>event_client\<close>, the contract between the loop and its
      callbacks, under which polling, dispatch and timers are safe, with the allowed halts and the masks
      the kernel may report as parameters. \<open>Daemon\<close> interprets it for the daemon's callbacks with
      \<open>running\<close>; \<open>Stopping\<close> with stronger invariants, to show that a shutdown request ends the loop;
      \<open>OneWay\<close> for descriptors that are never reported both ways at once, where fewer halts are left.
      \<open>Fanout\<close> follows arriving bytes through one dispatch to all the links fed from their link.
      \<open>Runs\<close> has the daemon as a step relation of turns and signals, its invariant with the C types of the
      fields, and \<open>aeMain\<close> as the closure of its turns.
    \<^item> \<open>Startup\<close>, \<open>Boot\<close>: from the command line through the daemon's files to the invariant of the running
      daemon, and from the end of the loop to the end of \<open>main\<close>.
    \<^item> \<open>ConfigProps\<close>, \<open>AeProps\<close>, \<open>LinkProps\<close>, \<open>NodeProps\<close>, \<open>LoopProps\<close>, \<open>TrafficProps\<close>, \<open>BootProps\<close>: the
      claims, each with a witness on a concrete state; \<open>Demo\<close> has these states, and \<open>Execution\<close> runs the
      whole program on one, from the command line to the end of \<open>main\<close> after a signal.

  Bounds. The main loop is cut off after a number of turns, its argument; every other loop has a bound
  that is enough: a list of nodes or timers has distinct addresses below the allocation mark of its heap
  (\<open>node_fuel\<close>, \<open>tev_fuel\<close>), a file has at most as many lines as bytes. The theorems show it: \<open>OutOfFuel\<close>
  is not among the halts they allow, except for the number of turns itself.

  Not modelled. What is printed before an exit is written down but lost with the state, since a halt keeps none;
  the bytes of a log line's time stamp; the parent of a fork; memory leaks and the contents of freed
  memory (using it is the halt \<open>UseAfterFree\<close>); arithmetic on times wider than their C types; the names
  \<open>ttyname\<close> returns are the environment's. A signal is an answer of the environment too: at the start of
  each turn of the main loop it says whether \<open>sigHandler\<close> runs and for which signal (\<open>take_signal\<close>),
  and \<open>Runs\<close> allows any number of them between two turns; a signal inside a call, or before the
  handlers are installed, is not modelled. The Python scripts under \<open>tools/\<close> are not part of the daemon.
\<close>

end
